(* ===== verification/Prelude.thy ===== *)
theory Prelude
  imports Main "HOL-Library.Char_ord" "HOL-Library.List_Lexorder" "HOL-Library.Sublist"
begin

text \<open>
  What every component uses of the Go language and its standard library, and the lemmas they share.

  A Go \<open>string\<close> and a Go \<open>[]byte\<close> are both sequences of bytes, and an Isabelle \<open>char\<close> is a byte,
  so both are \<open>string\<close> here; text outside ASCII is written by its code points and encoded by
  \<open>utf8\<close>, as the Go compiler does with a string literal.  A Go \<open>int\<close> is 64 bits wide: the parsing
  functions below reject what does not fit, and the components say where arithmetic could wrap.
  Ordering of strings is the bytewise lexicographic order of the library theory List_Lexorder,
  which is Go's \<open><\<close> on strings.
\<close>

named_theorems go_lib \<open>facts about the modelled operations of Go's standard library\<close>

type_synonym bytes = string

abbreviation nl :: char where "nl \<equiv> CHR 0x0A"
abbreviation cr :: char where "cr \<equiv> CHR 0x0D"


section \<open>Lists\<close>

lemma takeWhile_neq_append [simp]: "c \<notin> set a \<Longrightarrow> takeWhile (\<lambda>x. x \<noteq> c) (a @ c # b) = a"
  by (induction a) auto

lemma dropWhile_neq_append [simp]: "c \<notin> set a \<Longrightarrow> dropWhile (\<lambda>x. x \<noteq> c) (a @ c # b) = c # b"
  by (induction a) auto

text \<open>\<open>bytes.IndexByte\<close> followed by the two slices: the part before the first \<open>c\<close> and the part
  after it, or \<open>None\<close> where the index is -1.\<close>

definition cut_at :: "'a \<Rightarrow> 'a list \<Rightarrow> ('a list \<times> 'a list) option" where
  "cut_at c s =
     (if c \<in> set s then Some (takeWhile (\<lambda>x. x \<noteq> c) s, tl (dropWhile (\<lambda>x. x \<noteq> c) s)) else None)"

lemma cut_at_append [simp]: "c \<notin> set a \<Longrightarrow> cut_at c (a @ c # b) = Some (a, b)"
  by (simp add: cut_at_def)

lemma cut_at_None [simp]: "cut_at c s = None \<longleftrightarrow> c \<notin> set s"
  by (simp add: cut_at_def)

lemma cut_at_Some: "cut_at c s = Some (a, b) \<longleftrightarrow> s = a @ c # b \<and> c \<notin> set a"
proof
  assume h: "cut_at c s = Some (a, b)"
  then have "c \<in> set s" by (simp add: cut_at_def split: if_splits)
  then obtain u v where s: "s = u @ c # v" and "c \<notin> set u"
    by (meson split_list_first)
  then have "cut_at c s = Some (u, v)" by simp
  with h s \<open>c \<notin> set u\<close> show "s = a @ c # b \<and> c \<notin> set a" by simp
qed auto

lemma cut_at_mem: "cut_at c s = Some (a, b) \<Longrightarrow> c \<in> set s"
  by (simp add: cut_at_Some)

lemma cut_at_length: "cut_at c s = Some (a, b) \<Longrightarrow> length b < length s"
  by (auto simp: cut_at_Some)

lemma cut_at_append_right:
  "cut_at c s = Some (a, b) \<Longrightarrow> cut_at c (s @ t) = Some (a, b @ t)"
  by (auto simp: cut_at_Some)

text \<open>\<open>strings.Split\<close> with a one-byte separator.\<close>

function split_on :: "'a \<Rightarrow> 'a list \<Rightarrow> 'a list list" where
  "split_on c s = (case cut_at c s of None \<Rightarrow> [s] | Some (a, b) \<Rightarrow> a # split_on c b)"
  by pat_completeness auto
termination
  by (relation "measure (\<lambda>(c, s). length s)") (auto dest: cut_at_length)

declare split_on.simps [simp del]

lemma split_on_no_sep [simp]: "c \<notin> set s \<Longrightarrow> split_on c s = [s]"
  by (subst split_on.simps) (simp add: cut_at_def)

lemma split_on_append [simp]: "c \<notin> set a \<Longrightarrow> split_on c (a @ c # b) = a # split_on c b"
  by (subst split_on.simps) simp

lemma split_on_sep_free: "w \<in> set (split_on c s) \<Longrightarrow> c \<notin> set w"
proof (induction c s rule: split_on.induct)
  case (1 c s)
  then show ?case
    by (subst (asm) (2) split_on.simps) (auto simp: cut_at_Some split: option.splits)
qed

text \<open>A first-occurrence filter: the loop with a \<open>seen\<close> set that keeps an element the first time
  it comes by.\<close>

fun keep_first :: "'a list \<Rightarrow> 'a list \<Rightarrow> 'a list" where
  "keep_first seen [] = []"
| "keep_first seen (x # xs) =
     (if x \<in> set seen then keep_first seen xs else x # keep_first (x # seen) xs)"

lemma set_keep_first: "set (keep_first seen xs) = set xs - set seen"
  by (induction seen xs rule: keep_first.induct) auto

lemma distinct_keep_first: "distinct (keep_first seen xs)"
  by (induction seen xs rule: keep_first.induct) (auto simp: set_keep_first)

lemma keep_first_snoc:
  "keep_first seen (xs @ [x]) = keep_first seen xs @ (if x \<in> set seen \<union> set xs then [] else [x])"
  by (induction seen xs rule: keep_first.induct) auto

lemma keep_first_cong: "set s = set t \<Longrightarrow> keep_first s xs = keep_first t xs"
proof (induction xs arbitrary: s t)
  case (Cons x xs)
  from Cons.prems have "keep_first s xs = keep_first t xs"
    "keep_first (x # s) xs = keep_first (x # t) xs"
    by (auto intro!: Cons.IH)
  then show ?case using Cons.prems by simp
qed simp

lemma keep_first_subset: "set ys \<subseteq> set seen \<Longrightarrow> keep_first seen ys = []"
  by (induction seen ys rule: keep_first.induct) auto

lemma keep_first_id: "distinct xs \<Longrightarrow> set xs \<inter> set seen = {} \<Longrightarrow> keep_first seen xs = xs"
  by (induction seen xs rule: keep_first.induct) auto


section \<open>Decimal numbers\<close>

definition is_digit :: "char \<Rightarrow> bool" where
  "is_digit c \<longleftrightarrow> 48 \<le> (of_char c :: nat) \<and> (of_char c :: nat) \<le> 57"

definition digit_val :: "char \<Rightarrow> nat" where
  "digit_val c = of_char c - 48"

definition digit_char :: "nat \<Rightarrow> char" where
  "digit_char d = char_of (48 + d)"

definition dec_val :: "string \<Rightarrow> nat" where
  "dec_val s = foldl (\<lambda>v c. 10 * v + digit_val c) 0 s"

fun show_nat :: "nat \<Rightarrow> string" where
  "show_nat n = (if n < 10 then [digit_char n] else show_nat (n div 10) @ [digit_char (n mod 10)])"

declare show_nat.simps [simp del]

lemma of_char_digit [simp]: "d < 10 \<Longrightarrow> (of_char (digit_char d) :: nat) = 48 + d"
  by (simp add: digit_char_def)

lemma digit_char_props [simp]:
  "d < 10 \<Longrightarrow> is_digit (digit_char d)" "d < 10 \<Longrightarrow> digit_val (digit_char d) = d"
  by (auto simp: is_digit_def digit_val_def)

lemma digit_val_less [simp]: "is_digit c \<Longrightarrow> digit_val c < 10"
  by (auto simp: is_digit_def digit_val_def)

lemma digit_char_val [simp]: "is_digit c \<Longrightarrow> digit_char (digit_val c) = c"
  by (auto simp: is_digit_def digit_val_def digit_char_def)

lemma dec_val_snoc [simp]: "dec_val (s @ [c]) = 10 * dec_val s + digit_val c"
  by (simp add: dec_val_def)

lemma dec_val_Nil [simp]: "dec_val [] = 0"
  by (simp add: dec_val_def)

lemma dec_val_single [simp]: "dec_val [c] = digit_val c"
  by (simp add: dec_val_def)

lemma show_nat_neq_Nil [simp]: "show_nat n \<noteq> []"
  by (subst show_nat.simps) simp

lemma show_nat_digits: "list_all is_digit (show_nat n)"
proof (induction n rule: show_nat.induct)
  case (1 n)
  then show ?case by (subst show_nat.simps) auto
qed

lemma set_show_nat: "c \<in> set (show_nat n) \<Longrightarrow> is_digit c"
  using show_nat_digits by (auto simp: list_all_iff)

lemma dec_val_show_nat [simp]: "dec_val (show_nat n) = n"
proof (induction n rule: show_nat.induct)
  case (1 n)
  then show ?case by (subst show_nat.simps) auto
qed

lemma show_nat_inject [simp]: "show_nat m = show_nat n \<longleftrightarrow> m = n"
  by (metis dec_val_show_nat)

lemma dec_val_bound: "list_all is_digit s \<Longrightarrow> dec_val s < 10 ^ length s"
proof (induction s rule: rev_induct)
  case (snoc c s)
  then have "dec_val s < 10 ^ length s" "digit_val c < 10" by auto
  then show ?case by simp
qed simp

text \<open>\<open>strconv.Atoi\<close> on a 64-bit \<open>int\<close>: an optional sign, at least one digit, nothing else, and
  an error where the value does not fit.\<close>

definition atoi :: "string \<Rightarrow> int option" where
  "atoi s =
     (let (neg, ds) =
        (case s of
           [] \<Rightarrow> (False, [])
         | c # r \<Rightarrow> if c = CHR ''-'' then (True, r) else if c = CHR ''+'' then (False, r) else (False, s))
      in if ds = [] \<or> \<not> list_all is_digit ds then None
         else let v = (if neg then - int (dec_val ds) else int (dec_val ds))
              in if - (2 ^ 63) \<le> v \<and> v < 2 ^ 63 then Some v else None)"

text \<open>\<open>strconv.Itoa\<close> and the \<open>%d\<close> verb.\<close>

definition itoa :: "int \<Rightarrow> string" where
  "itoa z = (if z < 0 then CHR ''-'' # show_nat (nat (- z)) else show_nat (nat z))"

text \<open>The verb \<open>%0wd\<close>: the sign, then zeros up to the width, then the digits.\<close>

definition fmt_0d :: "nat \<Rightarrow> int \<Rightarrow> string" where
  "fmt_0d w z =
     (let ds = show_nat (nat \<bar>z\<bar>)
      in if z < 0 then CHR ''-'' # replicate (w - 1 - length ds) CHR ''0'' @ ds
         else replicate (w - length ds) CHR ''0'' @ ds)"

text \<open>The verb \<open>%.1f\<close> for a \<open>float64\<close> that is an integer number of tenths: a value read as an
  \<open>int\<close> of at most four digits and divided by 10.  The nearest \<open>float64\<close> is so close to the exact
  tenth that rounding to one decimal gives the tenth back, so the model keeps the tenths.\<close>

definition fmt_1f :: "int \<Rightarrow> string" where
  "fmt_1f z = (if z < 0 then ''-'' else []) @ show_nat (nat \<bar>z\<bar> div 10) @ ''.''
     @ show_nat (nat \<bar>z\<bar> mod 10)"

lemma digit_no_sign [simp]: "is_digit c \<Longrightarrow> c \<noteq> CHR ''-''" "is_digit c \<Longrightarrow> c \<noteq> CHR ''+''"
  by (auto simp: is_digit_def)

lemma atoi_digits:
  assumes "ds \<noteq> []" "list_all is_digit ds"
  shows "atoi ds = (if int (dec_val ds) < 2 ^ 63 then Some (int (dec_val ds)) else None)"
proof -
  obtain c r where "ds = c # r" "is_digit c" using assms by (cases ds) auto
  then show ?thesis using assms by (auto simp: atoi_def Let_def)
qed

lemma atoi_range: "atoi s = Some v \<Longrightarrow> - (2 ^ 63) \<le> v \<and> v < 2 ^ 63"
  by (auto simp: atoi_def Let_def split: list.splits if_splits prod.splits)

lemma atoi_show_nat [go_lib]: "n < 2 ^ 63 \<Longrightarrow> atoi (show_nat n) = Some (int n)"
  using show_nat_digits [of n] by (simp add: atoi_digits)

lemma atoi_itoa:
  assumes "- (2 ^ 63) \<le> z" "z < 2 ^ 63"
  shows "atoi (itoa z) = Some z"
proof (cases "z < 0")
  case True
  then show ?thesis using assms show_nat_digits [of "nat (- z)"]
    by (simp add: atoi_def itoa_def Let_def)
next
  case False
  then show ?thesis using assms by (simp add: itoa_def atoi_show_nat nat_less_iff)
qed

lemma itoa_inject: "itoa y = itoa z \<longleftrightarrow> y = z"
proof
  assume h: "itoa y = itoa z"
  have no: "show_nat n \<noteq> CHR ''-'' # s" for n s
    using set_show_nat [of "CHR ''-''" n] by (auto simp: is_digit_def)
  from h show "y = z"
    by (auto simp: itoa_def no no [symmetric] split: if_splits)
qed simp


section \<open>Text\<close>

text \<open>UTF-8: the encoding of a code point, and a text given by its code points.\<close>

definition utf8_rune :: "nat \<Rightarrow> bytes" where
  "utf8_rune c =
     (if c < 0x80 then [char_of c]
      else if c < 0x800 then [char_of (0xC0 + c div 64), char_of (0x80 + c mod 64)]
      else if c < 0x10000 then
        [char_of (0xE0 + c div 4096), char_of (0x80 + c div 64 mod 64), char_of (0x80 + c mod 64)]
      else [char_of (0xF0 + c div 262144), char_of (0x80 + c div 4096 mod 64),
            char_of (0x80 + c div 64 mod 64), char_of (0x80 + c mod 64)])"

definition utf8 :: "nat list \<Rightarrow> bytes" where
  "utf8 cs = concat (map utf8_rune cs)"

text \<open>\<open>strings.TrimSpace\<close> cuts the runes with Unicode's White_Space property at both ends.  A rune
  decoded at an end of a byte sequence is one of them exactly where one of their encodings is a
  prefix (or a suffix) of it.\<close>

text \<open>U+0009 to U+000D, U+0020, U+0085, U+00A0, U+1680, U+2000 to U+200A, U+2028, U+2029, U+202F,
  U+205F and U+3000.\<close>

definition space_encodings :: "bytes list" where
  "space_encodings =
  [[CHR 0x09], [CHR 0x0A], [CHR 0x0B], [CHR 0x0C], [CHR 0x0D], [CHR 0x20], [CHR 0xC2, CHR 0x85],
   [CHR 0xC2, CHR 0xA0], [CHR 0xE1, CHR 0x9A, CHR 0x80]]
  @ map (\<lambda>c. [CHR 0xE2, CHR 0x80, c])
      [CHR 0x80, CHR 0x81, CHR 0x82, CHR 0x83, CHR 0x84, CHR 0x85, CHR 0x86, CHR 0x87, CHR 0x88,
       CHR 0x89, CHR 0x8A, CHR 0xA8, CHR 0xA9, CHR 0xAF]
  @ [[CHR 0xE2, CHR 0x81, CHR 0x9F], [CHR 0xE3, CHR 0x80, CHR 0x80]]"

function strip :: "bytes list \<Rightarrow> bytes \<Rightarrow> bytes" where
  "strip ws s =
     (case find (\<lambda>w. w \<noteq> [] \<and> prefix w s) ws of
        None \<Rightarrow> s
      | Some w \<Rightarrow> strip ws (drop (length w) s))"
  by pat_completeness auto
termination
proof (relation "measure (\<lambda>(ws, s). length s)")
  fix ws s and w :: bytes
  assume "find (\<lambda>w. w \<noteq> [] \<and> prefix w s) ws = Some w"
  then have "w \<noteq> []" "prefix w s" by (auto simp: find_Some_iff)
  then show "((ws, drop (length w) s), (ws, s)) \<in> measure (\<lambda>(ws, s). length s)"
    by (cases w; cases s) auto
qed simp

declare strip.simps [simp del]

definition trim_space :: "string \<Rightarrow> string" where
  "trim_space s = rev (strip (map rev space_encodings) (rev (strip space_encodings s)))"

text \<open>\<open>bytes.TrimRight(line, "\r")\<close>.\<close>

definition trim_right_cr :: "bytes \<Rightarrow> bytes" where
  "trim_right_cr s = rev (dropWhile (\<lambda>c. c = cr) (rev s))"

text \<open>A byte that shows: no control byte, no space, nothing outside ASCII.\<close>

definition graphic :: "char \<Rightarrow> bool" where
  "graphic c \<longleftrightarrow> 33 \<le> (of_char c :: nat) \<and> (of_char c :: nat) \<le> 126"

lemma digit_graphic [simp]: "is_digit c \<Longrightarrow> graphic c"
  by (auto simp: is_digit_def graphic_def)

text \<open>No white space starts or ends with a graphic byte.\<close>

lemma space_not_graphic:
  assumes "w \<in> set space_encodings"
  shows "w \<noteq> []" "\<not> graphic (hd w)" "\<not> graphic (last w)"
  using assms by (auto simp: space_encodings_def graphic_def)

lemma strip_id: "(\<And>w. w \<in> set ws \<Longrightarrow> w \<noteq> [] \<Longrightarrow> \<not> prefix w s) \<Longrightarrow> strip ws s = s"
proof -
  assume "\<And>w. w \<in> set ws \<Longrightarrow> w \<noteq> [] \<Longrightarrow> \<not> prefix w s"
  then have "find (\<lambda>w. w \<noteq> [] \<and> prefix w s) ws = None" by (auto simp: find_None_iff)
  then show ?thesis by (subst strip.simps) simp
qed

lemma strip_spaces_graphic: "graphic c \<Longrightarrow> strip space_encodings (c # s) = c # s"
  by (rule strip_id) (auto dest: space_not_graphic(2) simp: prefix_Cons)

lemma strip_rev_spaces_graphic: "graphic c \<Longrightarrow> strip (map rev space_encodings) (c # s) = c # s"
  by (rule strip_id) (auto dest: space_not_graphic(3) simp: prefix_Cons rev_swap)

lemma strip_Nil [simp]: "strip ws [] = []"
  by (rule strip_id) simp

lemma strip_space_Cons: "strip space_encodings (CHR '' '' # s) = strip space_encodings s"
  by (subst strip.simps) (simp add: space_encodings_def)

lemma trim_space_Nil [simp]: "trim_space [] = []"
  by (simp add: trim_space_def)

lemma trim_space_graphic [go_lib]:
  assumes "s \<noteq> []" "graphic (hd s)" "graphic (last s)"
  shows "trim_space s = s"
proof -
  obtain c r where s: "s = c # r" using assms(1) by (cases s) auto
  obtain q d where s': "s = q @ [d]" using assms(1) by (cases s rule: rev_cases) auto
  have "strip space_encodings s = s" using assms s by (simp add: strip_spaces_graphic)
  moreover have "strip (map rev space_encodings) (rev s) = rev s"
    using assms s' by (simp add: strip_rev_spaces_graphic)
  ultimately show ?thesis by (simp add: trim_space_def)
qed

lemma trim_space_lead [go_lib]: "trim_space (CHR '' '' # s) = trim_space s"
  by (simp add: trim_space_def strip_space_Cons)

lemma trim_right_cr_id [go_lib]: "cr \<notin> set s \<Longrightarrow> trim_right_cr s = s"
proof -
  assume "cr \<notin> set s"
  then have "dropWhile (\<lambda>c. c = cr) (rev s) = rev s"
    by (cases s rule: rev_cases) auto
  then show ?thesis by (simp add: trim_right_cr_def)
qed

text \<open>\<open>bytes.Contains(line, pat)\<close> is the library's \<open>sublist\<close>.\<close>

lemma sublist_missing: "c \<in> set p \<Longrightarrow> c \<notin> set s \<Longrightarrow> \<not> sublist p s"
  by (auto dest: set_mono_sublist)

text \<open>A Go \<open>map[string]string\<close> read at a key that may be absent gives the empty string.\<close>

definition map_get :: "(string \<rightharpoonup> string) \<Rightarrow> string \<Rightarrow> string" where
  "map_get m k = (case m k of None \<Rightarrow> [] | Some v \<Rightarrow> v)"

lemma map_get_upd [simp]: "map_get (m(k \<mapsto> v)) j = (if j = k then v else map_get m j)"
  by (simp add: map_get_def)

lemma map_get_empty [simp]: "map_get Map.empty k = []"
  by (simp add: map_get_def)

end
