(* ===== verification/Config.thy ===== *)
theory Config
  imports Prelude "HOL-Library.Multiset"
begin

text \<open>
  \<open>internal/config/config.go\<close>: the configuration and its two custom decoders.  The YAML library is not
  part of the repository; a node is what the decoders see of it: its kind, what decoding it to the
  wanted type gives, and its line.  The host of a URL (\<open>url.Parse\<close>) is the parameter \<open>url_host\<close>.
\<close>

record config_hook =
  ch_name :: string
  ch_url :: string

text \<open>\<open>None\<close> where \<open>Decode\<close> to that type fails; a mapping lists its pairs in the order the \<open>range\<close> loop
  happens to visit them.\<close>

datatype yaml_node =
    Scalar_node "string option"
  | Mapping_node "(string \<times> string) list option" nat
  | Other_node nat

datatype config_err = Decode_error | Empty_mapping nat | Unexpected_kind nat | Bad_flag string nat

fun unmarshal_hook :: "yaml_node \<Rightarrow> config_err + config_hook" where
  "unmarshal_hook (Scalar_node None) = Inl Decode_error"
| "unmarshal_hook (Scalar_node (Some s)) = Inr \<lparr>ch_name = [], ch_url = s\<rparr>"
| "unmarshal_hook (Mapping_node None _) = Inl Decode_error"
| "unmarshal_hook (Mapping_node (Some []) line) = Inl (Empty_mapping line)"
| "unmarshal_hook (Mapping_node (Some ((k, v) # _)) _) = Inr \<lparr>ch_name = k, ch_url = v\<rparr>"
| "unmarshal_hook (Other_node line) = Inl (Unexpected_kind line)"

record flag_node =
  as_bool :: "bool option"
  as_int :: "int option"
  node_value :: string
  node_line :: nat

definition unmarshal_flag :: "flag_node \<Rightarrow> config_err + bool" where
  "unmarshal_flag n =
     (case as_bool n of
        Some b \<Rightarrow> Inr b
      | None \<Rightarrow> (case as_int n of
          Some i \<Rightarrow> Inr (i \<noteq> 0)
        | None \<Rightarrow> Inl (Bad_flag (node_value n) (node_line n))))"

definition display_name :: "(string \<Rightarrow> string option) \<Rightarrow> config_hook \<Rightarrow> string" where
  "display_name url_host h =
     (if ch_name h \<noteq> [] then ch_name h
      else case url_host (ch_url h) of
        Some host \<Rightarrow> if host \<noteq> [] then host else ch_url h
      | None \<Rightarrow> ch_url h)"

record wni_config =
  w_user :: string
  w_passwd :: string
  w_passwd_md5 :: string
  w_log_timeout :: bool
  w_log_keep_alive :: bool
  w_server_override :: string

record irc_server_section =
  srv_host :: string
  srv_port :: int
  srv_password :: string
  srv_charset :: string
  srv_message_type :: string

record irc_server_config =
  irc_server :: irc_server_section
  irc_nick :: string
  irc_name :: string
  irc_desc :: string
  irc_all_notice :: "string list"
  irc_limited_notice :: "string list"

record slack_config =
  s_all :: "config_hook list"
  s_limited :: "config_hook list"

record config =
  log_dir :: string
  slack_conf :: "slack_config option"
  wni_conf :: wni_config
  irc_conf :: "irc_server_config list"

text \<open>\<open>Load\<close>: reading the file and decoding it, the latter by the YAML library.\<close>

datatype load_err = Read_failed string | Parse_failed string

definition load :: "(string \<Rightarrow> bytes option) \<Rightarrow> (bytes \<Rightarrow> config option) \<Rightarrow> string \<Rightarrow> load_err + config" where
  "load read_file yaml_decode path =
     (case read_file path of
        None \<Rightarrow> Inl (Read_failed path)
      | Some data \<Rightarrow> (case yaml_decode data of None \<Rightarrow> Inl (Parse_failed path) | Some cfg \<Rightarrow> Inr cfg))"

text \<open>A hook entry is read the same way however its map is iterated, as long as it is one of the two
  documented forms: a bare URL gives a hook without a name, a mapping with one key gives that name and
  URL; and the name shown is never empty for a hook that has a name or a URL.\<close>

lemma hook_forms:
  assumes "mset ps = {#(name, url)#}"
  shows "unmarshal_hook (Mapping_node (Some ps) line) = Inr \<lparr>ch_name = name, ch_url = url\<rparr>
    \<and> unmarshal_hook (Scalar_node (Some url)) = Inr \<lparr>ch_name = [], ch_url = url\<rparr>
    \<and> (name @ url \<noteq> [] \<longrightarrow> display_name host \<lparr>ch_name = name, ch_url = url\<rparr> \<noteq> [])"
  using assms by (auto simp: display_name_def split: option.splits)

lemma hook_forms_example:
  "unmarshal_hook (Mapping_node (Some [(''ops'', ''https://hooks.example/x'')]) 3) =
     Inr \<lparr>ch_name = ''ops'', ch_url = ''https://hooks.example/x''\<rparr>"
  using hook_forms [of "[(''ops'', ''https://hooks.example/x'')]"] by simp

text \<open>With two keys the entry depends on the order of iteration, which Go leaves open.\<close>

lemma two_keys_ambiguous:
  "mset [(a, u), (b, v)] = mset [(b, v), (a, u)]"
  "unmarshal_hook (Mapping_node (Some [(a, u), (b, v)]) line) = Inr \<lparr>ch_name = a, ch_url = u\<rparr>"
  "unmarshal_hook (Mapping_node (Some [(b, v), (a, u)]) line) = Inr \<lparr>ch_name = b, ch_url = v\<rparr>"
  by simp_all

end
