(* ===== verification/Regex.thy ===== *)
theory Regex
  imports Prelude
begin

text \<open>
  The part of Go's \<open>regexp\<close> that the program uses: patterns over bytes with capturing groups,
  bounded and unbounded repetition of a character class (greedy or lazy), alternation and the two
  anchors, matched leftmost-first.  \<open>rmatch\<close> lists every way to match at a position in the order of
  preference, so its head is the match Go reports; \<open>rfind\<close> takes the leftmost position that matches.
  All classes of the program are sets of ASCII bytes or the complement of one or two ASCII bytes, and
  an ASCII byte never occurs inside the encoding of another rune, so matching bytes and matching runes
  agree.
\<close>

datatype rx =
    Lit string
  | Rep "char \<Rightarrow> bool" nat "nat option" bool  \<comment> \<open>class, least, most, greedy\<close>
  | Grp rx
  | Seq rx rx
  | Alt rx rx
  | Bol
  | Eol

type_synonym rmatch = "string list \<times> nat \<times> string"

fun ngroups :: "rx \<Rightarrow> nat" where
  "ngroups (Grp r) = Suc (ngroups r)"
| "ngroups (Seq a b) = ngroups a + ngroups b"
| "ngroups (Alt a b) = ngroups a + ngroups b"
| "ngroups _ = 0"

text \<open>How many bytes a repetition may take at \<open>s\<close>, preferred first.\<close>

definition rep_counts :: "(char \<Rightarrow> bool) \<Rightarrow> nat \<Rightarrow> nat option \<Rightarrow> bool \<Rightarrow> string \<Rightarrow> nat list" where
  "rep_counts p lo hi greedy s =
     (let m = length (takeWhile p (case hi of None \<Rightarrow> s | Some h \<Rightarrow> take h s));
          ks = [lo..<Suc m]
      in if greedy then rev ks else ks)"

text \<open>Captures, the new position and the rest; groups of an alternative not taken are empty.\<close>

fun rmatch :: "rx \<Rightarrow> nat \<Rightarrow> string \<Rightarrow> rmatch list" where
  "rmatch (Lit w) i s = (if prefix w s then [([], i + length w, drop (length w) s)] else [])"
| "rmatch (Rep p lo hi greedy) i s =
     map (\<lambda>k. ([], i + k, drop k s)) (rep_counts p lo hi greedy s)"
| "rmatch (Grp r) i s = map (\<lambda>(cs, j, t). (take (j - i) s # cs, j, t)) (rmatch r i s)"
| "rmatch (Seq a b) i s =
     concat (map (\<lambda>(cs, j, t). map (\<lambda>(ds, k, u). (cs @ ds, k, u)) (rmatch b j t)) (rmatch a i s))"
| "rmatch (Alt a b) i s =
     map (\<lambda>(cs, j, t). (cs @ replicate (ngroups b) [], j, t)) (rmatch a i s)
     @ map (\<lambda>(cs, j, t). (replicate (ngroups a) [] @ cs, j, t)) (rmatch b i s)"
| "rmatch Bol i s = (if i = 0 then [([], i, s)] else [])"
| "rmatch Eol i s = (if s = [] then [([], i, s)] else [])"

fun rfind :: "rx \<Rightarrow> nat \<Rightarrow> string \<Rightarrow> (nat \<times> rmatch) option" where
  "rfind r i [] = (case rmatch r i [] of m # _ \<Rightarrow> Some (i, m) | [] \<Rightarrow> None)"
| "rfind r i (c # s) =
     (case rmatch r i (c # s) of m # _ \<Rightarrow> Some (i, m) | [] \<Rightarrow> rfind r (Suc i) s)"

text \<open>\<open>FindStringSubmatch\<close> without the whole match, and \<open>MatchString\<close>.\<close>

definition submatch :: "rx \<Rightarrow> string \<Rightarrow> string list option" where
  "submatch r s = map_option (\<lambda>(_, cs, _). cs) (rfind r 0 s)"

definition matches :: "rx \<Rightarrow> string \<Rightarrow> bool" where
  "matches r s \<longleftrightarrow> rfind r 0 s \<noteq> None"

text \<open>The successive matches of a pattern that never matches the empty string, each starting where
  the last one ended, with the text between them.\<close>

function rfind_all :: "rx \<Rightarrow> nat \<Rightarrow> string \<Rightarrow> (string \<times> string list) list \<times> string" where
  "rfind_all r i s =
     (case rfind r i s of
        None \<Rightarrow> ([], s)
      | Some (j, cs, k, t) \<Rightarrow>
          if length t < length s
          then let (ms, rest) = rfind_all r k t in ((take (j - i) s, cs) # ms, rest)
          else ([], s))"
  by pat_completeness auto
termination
  by (relation "measure (\<lambda>(r, i, s). length s)") auto

declare rfind_all.simps [simp del]

text \<open>\<open>FindAllStringSubmatch(_, -1)\<close>, and \<open>ReplaceAllString\<close> with the group \<open>$g\<close>.\<close>

definition submatch_all :: "rx \<Rightarrow> string \<Rightarrow> string list list" where
  "submatch_all r s = map snd (fst (rfind_all r 0 s))"

definition replace_all :: "rx \<Rightarrow> nat \<Rightarrow> string \<Rightarrow> string" where
  "replace_all r g s =
     (let (ms, rest) = rfind_all r 0 s in concat (map (\<lambda>(pre, cs). pre @ cs ! (g - 1)) ms) @ rest)"

text \<open>Sequences and the usual shapes.\<close>

fun rseq :: "rx list \<Rightarrow> rx" where
  "rseq [] = Lit []"
| "rseq [r] = r"
| "rseq (r # rs) = Seq r (rseq rs)"

abbreviation exactly :: "nat \<Rightarrow> (char \<Rightarrow> bool) \<Rightarrow> rx" where
  "exactly n p \<equiv> Rep p n (Some n) True"

definition one_of :: "string \<Rightarrow> char \<Rightarrow> bool" where
  "one_of cs c \<longleftrightarrow> c \<in> set cs"

definition upper :: "char \<Rightarrow> bool" where
  "upper c \<longleftrightarrow> 65 \<le> (of_char c :: nat) \<and> (of_char c :: nat) \<le> 90"


section \<open>Matching soundness\<close>

text \<open>A match consumes a prefix and its position counts the bytes.\<close>

lemma rmatch_consumes:
  "(cs, j, t) \<in> set (rmatch r i s) \<Longrightarrow> i \<le> j \<and> j - i \<le> length s \<and> t = drop (j - i) s"
proof (induction r arbitrary: cs i j s t)
  case (Rep p lo hi g)
  then obtain k where k: "k \<in> set (rep_counts p lo hi g s)" "j = i + k" "t = drop k s" by auto
  then have "k \<le> length (takeWhile p (case hi of None \<Rightarrow> s | Some h \<Rightarrow> take h s))"
    by (auto simp: rep_counts_def Let_def split: if_splits)
  also have "\<dots> \<le> length s"
    by (cases hi) (auto intro: order.trans [OF length_takeWhile_le])
  finally show ?case using k by simp
next
  case (Seq a b)
  then obtain cs1 j1 t1 cs2 where "(cs1, j1, t1) \<in> set (rmatch a i s)"
    "(cs2, j, t) \<in> set (rmatch b j1 t1)" by auto
  with Seq.IH show ?case by (fastforce simp: drop_drop)
qed (auto simp: prefix_length_le split: if_splits)

text \<open>What each group of a match is known to be.\<close>

fun group_preds :: "rx \<Rightarrow> (string \<Rightarrow> bool) list" where
  "group_preds (Grp (Rep p lo hi g)) =
     [\<lambda>w. list_all p w \<and> lo \<le> length w \<and> (case hi of None \<Rightarrow> True | Some h \<Rightarrow> length w \<le> h)]"
| "group_preds (Grp r) = (\<lambda>_. True) # group_preds r"
| "group_preds (Seq a b) = group_preds a @ group_preds b"
| "group_preds (Alt a b) =
     map (\<lambda>P w. P w \<or> w = []) (group_preds a) @ map (\<lambda>P w. P w \<or> w = []) (group_preds b)"
| "group_preds _ = []"

definition groups_ok :: "rx \<Rightarrow> string list \<Rightarrow> bool" where
  "groups_ok r cs \<longleftrightarrow> list_all2 (\<lambda>P w. P w) (group_preds r) cs"

lemma length_group_preds [simp]: "length (group_preds r) = ngroups r"
proof (induction r)
  case (Grp r)
  then show ?case by (cases r) auto
qed auto

lemma rep_counts_take:
  assumes "k \<in> set (rep_counts p lo hi g s)"
  shows "list_all p (take k s) \<and> lo \<le> k \<and> k \<le> length s \<and> (case hi of None \<Rightarrow> True | Some h \<Rightarrow> k \<le> h)"
proof -
  define s' where "s' = (case hi of None \<Rightarrow> s | Some h \<Rightarrow> take h s)"
  have k: "lo \<le> k" "k \<le> length (takeWhile p s')"
    using assms by (auto simp: rep_counts_def Let_def s'_def split: if_splits)
  have len: "length (takeWhile p s') \<le> length s'" by (rule length_takeWhile_le)
  have "take k s' = take k (takeWhile p s')"
    using k(2) by (metis takeWhile_eq_take length_takeWhile_le min.absorb1 take_take)
  then have "list_all p (take k s')"
    by (metis in_set_takeD list_all_iff set_takeWhileD)
  moreover have "take k s' = take k s" "k \<le> length s" "case hi of None \<Rightarrow> True | Some h \<Rightarrow> k \<le> h"
    using k len by (auto simp: s'_def split: option.splits)
  ultimately show ?thesis using k(1) by simp
qed

lemma list_all2_weaken:
  "list_all2 (\<lambda>P w. P w) Ps ws \<Longrightarrow> list_all2 (\<lambda>P w. P w) (map (\<lambda>P w. P w \<or> w = []) Ps) ws"
  by (simp add: list_all2_map1 list_all2_mono)

lemma list_all2_empties:
  "n = length Ps \<Longrightarrow> list_all2 (\<lambda>P w. P w) (map (\<lambda>P w. P w \<or> w = []) Ps) (replicate n [])"
  by (simp add: list_all2_conv_all_nth)

lemma rmatch_groups: "(cs, j, t) \<in> set (rmatch r i s) \<Longrightarrow> groups_ok r cs"
proof (induction r arbitrary: cs i j s t)
  case (Grp r)
  then obtain ds where m: "(ds, j, t) \<in> set (rmatch r i s)" and cs: "cs = take (j - i) s # ds"
    by auto
  from Grp.IH [OF m] have "groups_ok r ds" .
  with m cs show ?case
    by (cases r) (auto simp: groups_ok_def dest: rep_counts_take split: option.splits)
next
  case (Seq a b)
  then show ?case by (fastforce simp: groups_ok_def intro: list_all2_appendI)
next
  case (Alt a b)
  then show ?case
    by (auto simp: groups_ok_def intro!: list_all2_appendI list_all2_weaken list_all2_empties)
qed (auto simp: groups_ok_def split: if_splits)

lemma rfind_rmatch:
  "rfind r i s = Some (j, m) \<Longrightarrow>
     i \<le> j \<and> j - i \<le> length s \<and> m \<in> set (rmatch r j (drop (j - i) s))"
proof (induction r i s rule: rfind.induct)
  case (2 r i c s)
  show ?case
  proof (cases "rmatch r i (c # s)")
    case Nil
    with 2 have h: "Suc i \<le> j \<and> j - Suc i \<le> length s \<and> m \<in> set (rmatch r j (drop (j - Suc i) s))"
      by simp
    then have "drop (j - i) (c # s) = drop (j - Suc i) s" by (metis Suc_diff_Suc Suc_le_lessD drop_Suc_Cons)
    with h show ?thesis by auto
  qed (use 2 in auto)
qed (auto split: list.splits)

lemma submatch_groups: "submatch r s = Some cs \<Longrightarrow> groups_ok r cs"
  by (auto simp: submatch_def dest!: rfind_rmatch rmatch_groups)

lemma rfind_all_groups: "(pre, cs) \<in> set (fst (rfind_all r i s)) \<Longrightarrow> groups_ok r cs"
proof (induction r i s rule: rfind_all.induct)
  case (1 r i s)
  from 1(2) obtain j ds k t where f: "rfind r i s = Some (j, ds, k, t)" and l: "length t < length s"
    and m: "(pre, cs) = (take (j - i) s, ds) \<or> (pre, cs) \<in> set (fst (rfind_all r k t))"
    by (subst (asm) rfind_all.simps) (auto simp: Let_def split: option.splits if_splits prod.splits)
  from f have "groups_ok r ds" by (auto dest!: rfind_rmatch rmatch_groups)
  with m "1.IH" [OF f refl refl refl l] show ?case by auto
qed

lemma submatch_all_groups: "cs \<in> set (submatch_all r s) \<Longrightarrow> groups_ok r cs"
  by (auto simp: submatch_all_def dest: rfind_all_groups)


section \<open>Matching a text of known shape\<close>

text \<open>\<open>first r i s m\<close>: the match that is preferred at this position is \<open>m\<close>.\<close>

definition first :: "rx \<Rightarrow> nat \<Rightarrow> string \<Rightarrow> rmatch \<Rightarrow> bool" where
  "first r i s m \<longleftrightarrow> (\<exists>ms. rmatch r i s = m # ms)"

lemma first_Lit: "first (Lit w) i (w @ t) ([], i + length w, t)"
  by (simp add: first_def)

lemma takeWhile_full: "n \<le> length (takeWhile p (take n s)) \<longleftrightarrow> n \<le> length s \<and> list_all p (take n s)"
proof
  assume n: "n \<le> length (takeWhile p (take n s))"
  also have "\<dots> \<le> length (take n s)" by (rule length_takeWhile_le)
  finally have "n \<le> length s" by simp
  moreover have "takeWhile p (take n s) = take n s"
    by (metis n takeWhile_eq_take take_all_iff take_take min.idem min_def)
  ultimately show "n \<le> length s \<and> list_all p (take n s)"
    by (metis list_all_iff set_takeWhileD)
next
  assume h: "n \<le> length s \<and> list_all p (take n s)"
  then have "takeWhile p (take n s) = take n s"
    by (metis list_all_iff takeWhile_eq_all_conv)
  then have "length (takeWhile p (take n s)) = length (take n s)" by (rule arg_cong)
  also have "\<dots> = n" using h by simp
  finally show "n \<le> length (takeWhile p (take n s))" by simp
qed

lemma rep_counts_exactly:
  "rep_counts p n (Some n) True s = (if n \<le> length s \<and> list_all p (take n s) then [n] else [])"
proof -
  define m where "m = length (takeWhile p (take n s))"
  have "m \<le> length (take n s)" unfolding m_def by (rule length_takeWhile_le)
  then have "m \<le> n" by simp
  then have "rev [n..<Suc m] = (if n \<le> m then [n] else [])" by auto
  moreover have "rep_counts p n (Some n) True s = rev [n..<Suc m]"
    unfolding rep_counts_def m_def Let_def by (simp only: option.case if_True)
  ultimately show ?thesis unfolding m_def takeWhile_full by simp
qed

lemma first_exactly:
  "length w = n \<Longrightarrow> list_all p w \<Longrightarrow> first (Grp (exactly n p)) i (w @ t) ([w], i + n, t)"
  by (simp add: first_def rep_counts_exactly)

lemma rmatch_exactly_Nil [simp]:
  "rmatch (Grp (exactly n p)) i s = [] \<longleftrightarrow> \<not> (n \<le> length s \<and> list_all p (take n s))"
  by (simp add: rep_counts_exactly)

lemma first_greedy:
  assumes "w \<noteq> []" "list_all p w" "t = [] \<or> \<not> p (hd t)"
  shows "first (Grp (Rep p 1 None True)) i (w @ t) ([w], i + length w, t)"
proof -
  have "takeWhile p (w @ t) = w"
    using assms by (cases t) (auto simp: list_all_iff takeWhile_append)
  moreover have "rev [1..<Suc (length w)] = length w # rev [1..<length w]"
    using assms(1) by (cases w) (auto simp: upt_Suc_append)
  ultimately show ?thesis by (simp add: first_def rep_counts_def Let_def)
qed

lemma first_Seq:
  "first a i s (cs, j, t) \<Longrightarrow> first b j t (ds, k, u) \<Longrightarrow> first (Seq a b) i s (cs @ ds, k, u)"
  by (auto simp: first_def)

lemma first_rfind: "first r i s m \<Longrightarrow> rfind r i s = Some (i, m)"
  by (cases s) (auto simp: first_def)

lemma first_submatch: "first r 0 s (cs, j, t) \<Longrightarrow> submatch r s = Some cs"
  by (simp add: submatch_def first_rfind)

text \<open>Each literal of a sequence occurs in every text that matches, so a text without it does not
  match.\<close>

fun literals :: "rx \<Rightarrow> string set" where
  "literals (Lit w) = {w}"
| "literals (Grp r) = literals r"
| "literals (Seq a b) = literals a \<union> literals b"
| "literals _ = {}"

lemma rmatch_literals: "m \<in> set (rmatch r i s) \<Longrightarrow> w \<in> literals r \<Longrightarrow> sublist w s"
proof (induction r arbitrary: i s m)
  case (Seq a b)
  then obtain cs1 j1 t1 m2 where a: "(cs1, j1, t1) \<in> set (rmatch a i s)"
    and b: "m2 \<in> set (rmatch b j1 t1)" by auto
  from rmatch_consumes [OF a] have "sublist t1 s" by (auto intro: suffix_imp_sublist suffix_drop)
  with Seq.IH(1) [OF a] Seq.IH(2) [OF b] Seq.prems(2) show ?case
    by (auto intro: sublist_order.order.trans)
qed (auto intro: prefix_imp_sublist split: if_splits)

lemma rfind_literals: "rfind r i s = Some (j, m) \<Longrightarrow> w \<in> literals r \<Longrightarrow> sublist w s"
  by (drule rfind_rmatch)
    (auto dest!: rmatch_literals intro: sublist_order.order.trans suffix_imp_sublist [OF suffix_drop])

lemma submatch_None: "w \<in> literals r \<Longrightarrow> \<not> sublist w s \<Longrightarrow> submatch r s = None"
  by (cases "rfind r 0 s") (auto simp: submatch_def dest: rfind_literals)

lemma submatch_all_None: "w \<in> literals r \<Longrightarrow> \<not> sublist w s \<Longrightarrow> submatch_all r s = []"
proof -
  assume "w \<in> literals r" "\<not> sublist w s"
  then have "rfind r 0 s = None" using rfind_literals by (cases "rfind r 0 s") auto
  then show ?thesis by (simp add: submatch_all_def rfind_all.simps [of r 0 s])
qed

lemma rfind_Bol: "0 < i \<Longrightarrow> rfind (Seq Bol r) i s = None"
  by (induction s arbitrary: i) auto

lemma submatch_Bol:
  "submatch (Seq Bol r) s = (case rmatch r 0 s of [] \<Rightarrow> None | m # _ \<Rightarrow> Some (fst m))"
proof (cases s)
  case (Cons c t)
  then show ?thesis
    by (cases "rmatch r 0 s") (auto simp: submatch_def rfind_Bol map_eq_Cons_conv split: prod.splits)
qed (auto simp: submatch_def split: list.splits prod.splits)

text \<open>Skipping bytes a pattern cannot start with, and the matches of a text of separated items.\<close>

lemma rfind_skip:
  assumes "\<And>c u j. c \<in> set pre \<Longrightarrow> rmatch r j (c # u) = []"
  shows "rfind r i (pre @ s) = rfind r (i + length pre) s"
  using assms
proof (induction pre arbitrary: i)
  case (Cons c pre)
  then have "rmatch r i (c # pre @ s) = []" by simp
  with Cons show ?case by simp
qed simp

lemma rfind_all_skip_end:
  assumes "\<And>c u j. c \<in> set s \<Longrightarrow> rmatch r j (c # u) = []" "\<And>j. rmatch r j [] = []"
  shows "fst (rfind_all r i s) = []"
proof -
  have "rfind r i s = None"
    using rfind_skip [of s r i "[]"] assms by simp
  then show ?thesis by (subst rfind_all.simps) simp
qed

lemma rfind_all_items:
  assumes start: "\<And>c u j. \<not> p c \<Longrightarrow> rmatch r j (c # u) = []" and empty: "\<And>j. rmatch r j [] = []"
    and items: "\<And>sep x u j. (sep, x) \<in> set items \<Longrightarrow>
      (\<forall>c \<in> set sep. \<not> p c) \<and> text x \<noteq> [] \<and> first r j (text x @ u) (caps x, j + length (text x), u)"
    and tail: "\<forall>c \<in> set tail. \<not> p c"
  shows "map snd (fst (rfind_all r i (concat (map (\<lambda>(sep, x). sep @ text x) items) @ tail))) =
    map (caps \<circ> snd) items"
  using items
proof (induction items arbitrary: i)
  case Nil
  then show ?case using rfind_all_skip_end [of tail r i] start empty tail by simp
next
  case (Cons it items)
  obtain sep x where it: "it = (sep, x)" by (cases it)
  let ?rest = "concat (map (\<lambda>(sep, x). sep @ text x) items) @ tail"
  have sep: "\<forall>c \<in> set sep. \<not> p c" and ne: "text x \<noteq> []"
    and f: "first r (i + length sep) (text x @ ?rest) (caps x, i + length sep + length (text x), ?rest)"
    using Cons.prems [of sep x "i + length sep" ?rest] it by auto
  have "rfind r i (sep @ text x @ ?rest) =
      Some (i + length sep, caps x, i + length sep + length (text x), ?rest)"
    using rfind_skip [of sep r i "text x @ ?rest"] start sep first_rfind [OF f] by simp
  moreover have "map snd (fst (rfind_all r (i + length sep + length (text x)) ?rest)) =
      map (caps \<circ> snd) items"
  proof (rule Cons.IH)
    fix sep y u j
    assume "(sep, y) \<in> set items"
    then show "(\<forall>c \<in> set sep. \<not> p c) \<and> text y \<noteq> []
        \<and> first r j (text y @ u) (caps y, j + length (text y), u)"
      by (intro Cons.prems) simp
  qed
  ultimately show ?case
    using ne by (subst rfind_all.simps) (auto simp: it Let_def split: prod.splits)
qed

end
