(* ===== verification/Tables.thy ===== *)
theory Tables
  imports Prelude
begin

text \<open>
  \<open>internal/decoder/tables_gen.go\<close>: the code tables of the telegram format, entry by entry.  A table
  is an association list from the code to its text, the text by its code points; a code that is not
  in a table reads as the empty string, as a missing key of a Go map does.  The two long tables are
  given in parts.
\<close>

type_synonym table = "(string \<times> string) list"

definition lookup :: "table \<Rightarrow> string \<Rightarrow> string" where
  "lookup t k = (case map_of t k of None \<Rightarrow> [] | Some v \<Rightarrow> v)"

definition CodeType :: table where
  "CodeType = [
    (''35'', utf8 [0x6700, 0x5927, 0x4E88, 0x6E2C, 0x9707, 0x5EA6, 0x306E, 0x307F]),
    (''36'', utf8 [0x4D, 0x3001, 0x6700, 0x5927, 0x4E88, 0x6E2C, 0x9707, 0x5EA6, 0x53CA, 0x3073, 0x4E3B, 0x8981, 0x52D5, 0x5230, 0x9054, 0x4E88, 0x6E2C, 0x6642, 0x523B]),
    (''37'', utf8 [0x4D, 0x3001, 0x6700, 0x5927, 0x4E88, 0x6E2C, 0x9707, 0x5EA6, 0x53CA, 0x3073, 0x4E3B, 0x8981, 0x52D5, 0x5230, 0x9054, 0x4E88, 0x6E2C, 0x6642, 0x523B, 0xFF08, 0x78BA, 0x5EA6, 0x5927, 0xFF09]),
    (''39'', utf8 [0x30AD, 0x30E3, 0x30F3, 0x30BB, 0x30EB, 0x5831]),
    (''47'', utf8 [0x4E00, 0x822C, 0x5411, 0x3051, 0x901F, 0x5831]),
    (''48'', utf8 [0x30AD, 0x30E3, 0x30F3, 0x30BB, 0x30EB, 0x5831])]"

definition Section :: table where
  "Section = [
    (''01'', utf8 [0x672D, 0x5E4C, 0x7BA1, 0x533A, 0x6C17, 0x8C61, 0x53F0]),
    (''02'', utf8 [0x4ED9, 0x53F0, 0x7BA1, 0x533A, 0x6C17, 0x8C61, 0x53F0]),
    (''03'', utf8 [0x6C17, 0x8C61, 0x5E81, 0x672C, 0x5E81]),
    (''04'', utf8 [0x5927, 0x962A, 0x7BA1, 0x533A, 0x6C17, 0x8C61, 0x53F0]),
    (''05'', utf8 [0x798F, 0x5CA1, 0x7BA1, 0x533A, 0x6C17, 0x8C61, 0x53F0]),
    (''06'', utf8 [0x6C96, 0x7E04, 0x6C17, 0x8C61, 0x53F0])]"

definition MsgType :: table where
  "MsgType = [
    (''00'', utf8 [0x901A, 0x5E38]),
    (''01'', utf8 [0x8A13, 0x7DF4]),
    (''10'', utf8 [0x53D6, 0x308A, 0x6D88, 0x3057]),
    (''11'', utf8 [0x8A13, 0x7DF4, 0x53D6, 0x308A, 0x6D88, 0x3057]),
    (''20'', utf8 [0x53C2, 0x8003, 0x2F, 0x30C6, 0x30B9, 0x30C8]),
    (''30'', utf8 [0x30B3, 0x30FC, 0x30C9, 0x306E, 0x307F, 0x914D, 0x4FE1, 0x8A66, 0x9A13])]"

definition NCNType :: table where
  "NCNType = [
    (''/'', utf8 [0x672A, 0x8A2D, 0x5B9A, 0x6642]),
    (''0'', utf8 [0x901A, 0x5E38]),
    (''6'', utf8 [0x60C5, 0x5831, 0x5185, 0x5BB9, 0x3092, 0x8A02, 0x6B63]),
    (''7'', utf8 [0x30AD, 0x30E3, 0x30F3, 0x30BB, 0x30EB, 0x5831, 0x3092, 0x8AA4, 0x3063, 0x3066, 0x767A, 0x8868, 0x3057, 0x305F, 0x5834, 0x5408, 0x306E, 0x8A02, 0x6B63]),
    (''8'', utf8 [0x8A02, 0x6B63, 0x4E8B, 0x9805, 0x3092, 0x76DB, 0x308A, 0x8FBC, 0x3093, 0x3060, 0x6700, 0x7D42, 0x306E, 0x9AD8, 0x5EA6, 0x5229, 0x7528, 0x8005, 0x5411, 0x3051, 0x7DCA, 0x6025, 0x5730, 0x9707, 0x901F, 0x5831]),
    (''9'', utf8 [0x6700, 0x7D42, 0x306E, 0x9AD8, 0x5EA6, 0x5229, 0x7528, 0x8005, 0x5411, 0x3051, 0x7DCA, 0x6025, 0x5730, 0x9707, 0x901F, 0x5831])]"

definition Shindo :: table where
  "Shindo = [
    (''//'', utf8 [0x4E0D, 0x660E]),
    (''01'', ''1''),
    (''02'', ''2''),
    (''03'', ''3''),
    (''04'', ''4''),
    (''07'', ''7''),
    (''5+'', utf8 [0x35, 0x5F37]),
    (''5-'', utf8 [0x35, 0x5F31]),
    (''6+'', utf8 [0x36, 0x5F37]),
    (''6-'', utf8 [0x36, 0x5F31])]"

definition RK1 :: table where
  "RK1 = [
    (''/'', utf8 [0x4E0D, 0x660E, 0x3001, 0x672A, 0x8A2D, 0x5B9A, 0x6642, 0x3001, 0x30AD, 0x30E3, 0x30F3, 0x30BB, 0x30EB, 0x6642]),
    (''1'', utf8 [0x50, 0x6CE2, 0x2F, 0x53, 0x6CE2, 0x30EC, 0x30D9, 0x30EB, 0x8D8A, 0x3048, 0x3001, 0x307E, 0x305F, 0x306F, 0x30C6, 0x30EA, 0x30C8, 0x30EA, 0x30FC, 0x6CD5, 0x28, 0x31, 0x70B9, 0x29]),
    (''2'', utf8 [0x30C6, 0x30EA, 0x30C8, 0x30EA, 0x30FC, 0x6CD5, 0x28, 0x32, 0x70B9, 0x29]),
    (''3'', utf8 [0x30B0, 0x30EA, 0x30C3, 0x30C9, 0x30B5, 0x30FC, 0x30C1, 0x6CD5, 0x28, 0x33, 0x70B9, 0x2F, 0x34, 0x70B9, 0x29]),
    (''4'', utf8 [0x30B0, 0x30EA, 0x30C3, 0x30C9, 0x30B5, 0x30FC, 0x30C1, 0x6CD5, 0x28, 0x35, 0x70B9, 0x29]),
    (''5'', utf8 [0x9632, 0x707D, 0x79D1, 0x7814, 0x30B7, 0x30B9, 0x30C6, 0x30E0, 0x28, 0x34, 0x70B9, 0x4EE5, 0x4E0B, 0x3001, 0x307E, 0x305F, 0x306F, 0x7CBE, 0x5EA6, 0x60C5, 0x5831, 0x306A, 0x3057, 0x29]),
    (''6'', utf8 [0x9632, 0x707D, 0x79D1, 0x7814, 0x30B7, 0x30B9, 0x30C6, 0x30E0, 0x28, 0x35, 0x70B9, 0x4EE5, 0x4E0A, 0x29]),
    (''7'', utf8 [0x45, 0x50, 0x4F, 0x53, 0x28, 0x6D77, 0x57DF, 0x5B, 0x89B3, 0x6E2C, 0x7DB2, 0x5916, 0x5D, 0x29]),
    (''8'', utf8 [0x45, 0x50, 0x4F, 0x53, 0x28, 0x5185, 0x9678, 0x5B, 0x89B3, 0x6E2C, 0x7DB2, 0x5185, 0x5D, 0x29]),
    (''9'', utf8 [0x4E88, 0x5099])]"

definition RK2 :: table where
  "RK2 = [
    (''/'', utf8 [0x4E0D, 0x660E, 0x3001, 0x672A, 0x8A2D, 0x5B9A, 0x6642, 0x3001, 0x30AD, 0x30E3, 0x30F3, 0x30BB, 0x30EB, 0x6642]),
    (''1'', utf8 [0x50, 0x6CE2, 0x2F, 0x53, 0x6CE2, 0x30EC, 0x30D9, 0x30EB, 0x8D8A, 0x3048, 0x3001, 0x307E, 0x305F, 0x306F, 0x30C6, 0x30EA, 0x30C8, 0x30EA, 0x30FC, 0x6CD5, 0x28, 0x31, 0x70B9, 0x29]),
    (''2'', utf8 [0x30C6, 0x30EA, 0x30C8, 0x30EA, 0x30FC, 0x6CD5, 0x28, 0x32, 0x70B9, 0x29]),
    (''3'', utf8 [0x30B0, 0x30EA, 0x30C3, 0x30C9, 0x30B5, 0x30FC, 0x30C1, 0x6CD5, 0x28, 0x33, 0x70B9, 0x2F, 0x34, 0x70B9, 0x29]),
    (''4'', utf8 [0x30B0, 0x30EA, 0x30C3, 0x30C9, 0x30B5, 0x30FC, 0x30C1, 0x6CD5, 0x28, 0x35, 0x70B9, 0x29]),
    (''5'', utf8 [0x9632, 0x707D, 0x79D1, 0x7814, 0x30B7, 0x30B9, 0x30C6, 0x30E0, 0x28, 0x34, 0x70B9, 0x4EE5, 0x4E0B, 0x3001, 0x307E, 0x305F, 0x306F, 0x7CBE, 0x5EA6, 0x60C5, 0x5831, 0x306A, 0x3057, 0x29]),
    (''6'', utf8 [0x9632, 0x707D, 0x79D1, 0x7814, 0x30B7, 0x30B9, 0x30C6, 0x30E0, 0x28, 0x35, 0x70B9, 0x4EE5, 0x4E0A, 0x29]),
    (''7'', utf8 [0x45, 0x50, 0x4F, 0x53, 0x28, 0x6D77, 0x57DF, 0x5B, 0x89B3, 0x6E2C, 0x7DB2, 0x5916, 0x5D, 0x29]),
    (''8'', utf8 [0x45, 0x50, 0x4F, 0x53, 0x28, 0x5185, 0x9678, 0x5B, 0x89B3, 0x6E2C, 0x7DB2, 0x5185, 0x5D, 0x29]),
    (''9'', utf8 [0x4E88, 0x5099])]"

definition RK3 :: table where
  "RK3 = [
    (''/'', utf8 [0x4E0D, 0x660E, 0x3001, 0x672A, 0x8A2D, 0x5B9A, 0x6642, 0x3001, 0x30AD, 0x30E3, 0x30F3, 0x30BB, 0x30EB, 0x6642]),
    (''1'', utf8 [0x672A, 0x5B9A, 0x7FA9]),
    (''2'', utf8 [0x9632, 0x707D, 0x79D1, 0x7814, 0x30B7, 0x30B9, 0x30C6, 0x30E0]),
    (''3'', utf8 [0x5168, 0x70B9, 0x28, 0x6700, 0x5927, 0x35, 0x70B9, 0x29, 0x50, 0x76F8]),
    (''4'', utf8 [0x50, 0x76F8, 0x2F, 0x5168, 0x76F8, 0x6DF7, 0x5728]),
    (''5'', utf8 [0x5168, 0x70B9, 0x28, 0x6700, 0x5927, 0x35, 0x70B9, 0x29, 0x5168, 0x76F8]),
    (''6'', ''EPOS''),
    (''7'', utf8 [0x672A, 0x5B9A, 0x7FA9]),
    (''8'', utf8 [0x50, 0x6CE2, 0x2F, 0x53, 0x6CE2, 0x30EC, 0x30D9, 0x30EB, 0x8D8A, 0x3048]),
    (''9'', utf8 [0x4E88, 0x5099])]"

definition RT1 :: table where
  "RT1 = [
    (''/'', utf8 [0x4E0D, 0x660E]),
    (''0'', utf8 [0x9678]),
    (''1'', utf8 [0x6D77])]"

definition RC1 :: table where
  "RC1 = [
    (''/'', utf8 [0x4E0D, 0x660E, 0x3001, 0x672A, 0x8A2D, 0x5B9A, 0x6642, 0x3001, 0x30AD, 0x30E3, 0x30F3, 0x30BB, 0x30EB, 0x6642]),
    (''0'', utf8 [0x307B, 0x3068, 0x3093, 0x3069, 0x5909, 0x5316, 0x306A, 0x3057]),
    (''1'', utf8 [0x6700, 0x5927, 0x4E88, 0x6E2C, 0x9707, 0x5EA6, 0x304C, 0x31, 0x2E, 0x30, 0x4EE5, 0x4E0A, 0x5927, 0x304D, 0x304F, 0x306A, 0x3063, 0x305F, 0x3002]),
    (''2'', utf8 [0x6700, 0x5927, 0x4E88, 0x6E2C, 0x9707, 0x5EA6, 0x304C, 0x31, 0x2E, 0x30, 0x4EE5, 0x4E0A, 0x5C0F, 0x3055, 0x304F, 0x306A, 0x3063, 0x305F, 0x3002])]"

definition RC2 :: table where
  "RC2 = [
    (''/'', utf8 [0x4E0D, 0x660E, 0x3001, 0x672A, 0x8A2D, 0x5B9A, 0x6642, 0x3001, 0x30AD, 0x30E3, 0x30F3, 0x30BB, 0x30EB, 0x6642]),
    (''0'', utf8 [0x5909, 0x5316, 0x306A, 0x3057]),
    (''1'', utf8 [0x4E3B, 0x3068, 0x3057, 0x3066, 0x4D, 0x304C, 0x5909, 0x5316, 0x3057, 0x305F, 0x305F, 0x3081, 0x28, 0x31, 0x2E, 0x30, 0x4EE5, 0x4E0A, 0x29]),
    (''2'', utf8 [0x4E3B, 0x3068, 0x3057, 0x3066, 0x9707, 0x6E90, 0x4F4D, 0x7F6E, 0x304C, 0x5909, 0x5316, 0x3057, 0x305F, 0x305F, 0x3081, 0x28, 0x31, 0x30, 0x6B, 0x6D, 0x4EE5, 0x4E0A, 0x29]),
    (''3'', utf8 [0x4D, 0x53CA, 0x3073, 0x9707, 0x6E90, 0x4F4D, 0x7F6E, 0x304C, 0x5909, 0x5316, 0x3057, 0x305F, 0x305F, 0x3081]),
    (''4'', utf8 [0x9707, 0x6E90, 0x306E, 0x6DF1, 0x3055, 0x304C, 0x5909, 0x5316, 0x3057, 0x305F, 0x305F, 0x3081, 0x28, 0x4E0A, 0x8A18, 0x306E, 0x3044, 0x305A, 0x308C, 0x306B, 0x3082, 0x3042, 0x3066, 0x306F, 0x307E, 0x3089, 0x305A, 0x3001, 0x33, 0x30, 0x6B, 0x6D, 0x20, 0x4EE5, 0x4E0A, 0x306E, 0x5909, 0x5316, 0x29])]"

definition EBIY1 :: table where
  "EBIY1 = [
    (''0'', utf8 [0x8B66, 0x5831, 0x306A, 0x3057]),
    (''1'', utf8 [0x8B66, 0x5831, 0x5730, 0x57DF])]"

definition EBIY2 :: table where
  "EBIY2 = [
    (''0'', utf8 [0x672A, 0x5230, 0x9054]),
    (''1'', utf8 [0x65E2, 0x306B, 0x5230, 0x7740, 0x3068, 0x4E88, 0x60F3])]"

definition WarnType :: table where
  "WarnType = [
    (''CAI'', utf8 [0x65B0, 0x305F, 0x306B, 0x8FFD, 0x52A0, 0x3055, 0x308C, 0x305F, 0x5F37, 0x3044, 0x63FA, 0x308C, 0x304C, 0x63A8, 0x5B9A, 0x3055, 0x308C, 0x308B, 0x5730, 0x65B9]),
    (''CBI'', utf8 [0x65B0, 0x305F, 0x306B, 0x8FFD, 0x52A0, 0x3055, 0x308C, 0x305F, 0x5F37, 0x3044, 0x63FA, 0x308C, 0x304C, 0x63A8, 0x5B9A, 0x3055, 0x308C, 0x308B, 0x5730, 0x57DF]),
    (''CPI'', utf8 [0x65B0, 0x305F, 0x306B, 0x8FFD, 0x52A0, 0x3055, 0x308C, 0x305F, 0x5F37, 0x3044, 0x63FA, 0x308C, 0x304C, 0x63A8, 0x5B9A, 0x3055, 0x308C, 0x308B, 0x770C]),
    (''EBI'', utf8 [0x4E88, 0x60F3, 0x9707, 0x5EA6, 0x3068, 0x5230, 0x9054, 0x6642, 0x9593]),
    (''NCN'', utf8 [0x9AD8, 0x5EA6, 0x5229, 0x7528, 0x8005, 0x5411, 0x3051]),
    (''NCPN'', utf8 [0x4E00, 0x822C, 0x5411, 0x3051]),
    (''NPN'', utf8 [0x4E00, 0x822C, 0x5411, 0x3051]),
    (''PAI'', utf8 [0x5F37, 0x3044, 0x63FA, 0x308C, 0x304C, 0x63A8, 0x5B9A, 0x3055, 0x308C, 0x308B, 0x5730, 0x65B9]),
    (''PBI'', utf8 [0x5F37, 0x3044, 0x63FA, 0x308C, 0x304C, 0x63A8, 0x5B9A, 0x3055, 0x308C, 0x308B, 0x5730, 0x57DF]),
    (''PPI'', utf8 [0x5F37, 0x3044, 0x63FA, 0x308C, 0x304C, 0x63A8, 0x5B9A, 0x3055, 0x308C, 0x308B, 0x770C]),
    (''PRC'', utf8 [0x5F37, 0x3044, 0x63FA, 0x308C, 0x304C, 0x63A8, 0x5B9A, 0x3055, 0x308C, 0x308B, 0x5730, 0x57DF, 0x306E, 0x8FFD, 0x52A0])]"

definition EpicenterCode_1 :: table where
  "EpicenterCode_1 = [
    (''///'', utf8 [0x672A, 0x8A2D, 0x5B9A, 0x28, 0x30AD, 0x30E3, 0x30F3, 0x30BB, 0x30EB, 0x6642, 0x29]),
    (''011'', utf8 [0x5317, 0x6D77, 0x9053, 0x5730, 0x65B9]),
    (''012'', utf8 [0x6771, 0x5317, 0x5730, 0x65B9]),
    (''013'', utf8 [0x5317, 0x9678, 0x5730, 0x65B9]),
    (''014'', utf8 [0x95A2, 0x6771, 0x7532, 0x4FE1, 0x5730, 0x65B9]),
    (''015'', utf8 [0x5C0F, 0x7B20, 0x539F, 0x5730, 0x65B9]),
    (''016'', utf8 [0x6771, 0x6D77, 0x5730, 0x65B9]),
    (''017'', utf8 [0x8FD1, 0x757F, 0x5730, 0x65B9]),
    (''018'', utf8 [0x4E2D, 0x56FD, 0x5730, 0x65B9]),
    (''019'', utf8 [0x56DB, 0x56FD, 0x5730, 0x65B9]),
    (''020'', utf8 [0x4E5D, 0x5DDE, 0x5730, 0x65B9]),
    (''021'', utf8 [0x6C96, 0x7E04, 0x5730, 0x65B9]),
    (''100'', utf8 [0x77F3, 0x72E9, 0x5730, 0x65B9, 0x5317, 0x90E8]),
    (''101'', utf8 [0x77F3, 0x72E9, 0x5730, 0x65B9, 0x4E2D, 0x90E8]),
    (''102'', utf8 [0x77F3, 0x72E9, 0x5730, 0x65B9, 0x5357, 0x90E8]),
    (''105'', utf8 [0x6E21, 0x5CF6, 0x5730, 0x65B9, 0x5317, 0x90E8]),
    (''106'', utf8 [0x6E21, 0x5CF6, 0x5730, 0x65B9, 0x6771, 0x90E8]),
    (''107'', utf8 [0x6E21, 0x5CF6, 0x5730, 0x65B9, 0x897F, 0x90E8]),
    (''110'', utf8 [0x6A9C, 0x5C71, 0x5730, 0x65B9]),
    (''115'', utf8 [0x5F8C, 0x5FD7, 0x5730, 0x65B9, 0x5317, 0x90E8]),
    (''116'', utf8 [0x5F8C, 0x5FD7, 0x5730, 0x65B9, 0x6771, 0x90E8]),
    (''117'', utf8 [0x5F8C, 0x5FD7, 0x5730, 0x65B9, 0x897F, 0x90E8]),
    (''120'', utf8 [0x7A7A, 0x77E5, 0x5730, 0x65B9, 0x5317, 0x90E8]),
    (''121'', utf8 [0x7A7A, 0x77E5, 0x5730, 0x65B9, 0x4E2D, 0x90E8]),
    (''122'', utf8 [0x7A7A, 0x77E5, 0x5730, 0x65B9, 0x5357, 0x90E8]),
    (''125'', utf8 [0x4E0A, 0x5DDD, 0x5730, 0x65B9, 0x5317, 0x90E8]),
    (''126'', utf8 [0x4E0A, 0x5DDD, 0x5730, 0x65B9, 0x4E2D, 0x90E8]),
    (''127'', utf8 [0x4E0A, 0x5DDD, 0x5730, 0x65B9, 0x5357, 0x90E8]),
    (''130'', utf8 [0x7559, 0x840C, 0x5730, 0x65B9, 0x4E2D, 0x5317, 0x90E8]),
    (''131'', utf8 [0x7559, 0x840C, 0x5730, 0x65B9, 0x5357, 0x90E8]),
    (''135'', utf8 [0x5B97, 0x8C37, 0x5730, 0x65B9, 0x5317, 0x90E8]),
    (''136'', utf8 [0x5B97, 0x8C37, 0x5730, 0x65B9, 0x5357, 0x90E8]),
    (''140'', utf8 [0x7DB2, 0x8D70, 0x5730, 0x65B9]),
    (''141'', utf8 [0x5317, 0x898B, 0x5730, 0x65B9]),
    (''142'', utf8 [0x7D0B, 0x5225, 0x5730, 0x65B9]),
    (''145'', utf8 [0x80C6, 0x632F, 0x5730, 0x65B9, 0x897F, 0x90E8]),
    (''146'', utf8 [0x80C6, 0x632F, 0x5730, 0x65B9, 0x4E2D, 0x6771, 0x90E8]),
    (''150'', utf8 [0x65E5, 0x9AD8, 0x5730, 0x65B9, 0x897F, 0x90E8]),
    (''151'', utf8 [0x65E5, 0x9AD8, 0x5730, 0x65B9, 0x4E2D, 0x90E8]),
    (''152'', utf8 [0x65E5, 0x9AD8, 0x5730, 0x65B9, 0x6771, 0x90E8]),
    (''155'', utf8 [0x5341, 0x52DD, 0x5730, 0x65B9, 0x5317, 0x90E8]),
    (''156'', utf8 [0x5341, 0x52DD, 0x5730, 0x65B9, 0x4E2D, 0x90E8]),
    (''157'', utf8 [0x5341, 0x52DD, 0x5730, 0x65B9, 0x5357, 0x90E8]),
    (''160'', utf8 [0x91E7, 0x8DEF, 0x5730, 0x65B9, 0x5317, 0x90E8]),
    (''161'', utf8 [0x91E7, 0x8DEF, 0x5730, 0x65B9, 0x4E2D, 0x5357, 0x90E8]),
    (''165'', utf8 [0x6839, 0x5BA4, 0x5730, 0x65B9, 0x5317, 0x90E8]),
    (''166'', utf8 [0x6839, 0x5BA4, 0x5730, 0x65B9, 0x4E2D, 0x90E8]),
    (''167'', utf8 [0x6839, 0x5BA4, 0x5730, 0x65B9, 0x5357, 0x90E8]),
    (''180'', utf8 [0x5317, 0x6D77, 0x9053, 0x5357, 0x897F, 0x6C96]),
    (''181'', utf8 [0x5317, 0x6D77, 0x9053, 0x897F, 0x65B9, 0x6C96]),
    (''182'', utf8 [0x77F3, 0x72E9, 0x6E7E]),
    (''183'', utf8 [0x5317, 0x6D77, 0x9053, 0x5317, 0x897F, 0x6C96]),
    (''184'', utf8 [0x5B97, 0x8C37, 0x6D77, 0x5CE1]),
    (''186'', utf8 [0x56FD, 0x5F8C, 0x5CF6, 0x4ED8, 0x8FD1]),
    (''187'', utf8 [0x629E, 0x6349, 0x5CF6, 0x4ED8, 0x8FD1]),
    (''188'', utf8 [0x5317, 0x6D77, 0x9053, 0x6771, 0x65B9, 0x6C96]),
    (''189'', utf8 [0x6839, 0x5BA4, 0x534A, 0x5CF6, 0x5357, 0x6771, 0x6C96]),
    (''190'', utf8 [0x91E7, 0x8DEF, 0x6C96]),
    (''191'', utf8 [0x5341, 0x52DD, 0x6C96]),
    (''192'', utf8 [0x6D66, 0x6CB3, 0x6C96]),
    (''193'', utf8 [0x82EB, 0x5C0F, 0x7267, 0x6C96]),
    (''194'', utf8 [0x5185, 0x6D66, 0x6E7E]),
    (''195'', utf8 [0x5B97, 0x8C37, 0x6771, 0x65B9, 0x6C96]),
    (''196'', utf8 [0x7DB2, 0x8D70, 0x6C96]),
    (''197'', utf8 [0x629E, 0x6349, 0x5CF6, 0x5357, 0x6771, 0x6C96]),
    (''200'', utf8 [0x9752, 0x68EE, 0x770C, 0x6D25, 0x8EFD, 0x5317, 0x90E8]),
    (''201'', utf8 [0x9752, 0x68EE, 0x770C, 0x6D25, 0x8EFD, 0x5357, 0x90E8]),
    (''202'', utf8 [0x9752, 0x68EE, 0x770C, 0x4E09, 0x516B, 0x4E0A, 0x5317, 0x5730, 0x65B9]),
    (''203'', utf8 [0x9752, 0x68EE, 0x770C, 0x4E0B, 0x5317, 0x5730, 0x65B9]),
    (''210'', utf8 [0x5CA9, 0x624B, 0x770C, 0x6CBF, 0x5CB8, 0x5317, 0x90E8]),
    (''211'', utf8 [0x5CA9, 0x624B, 0x770C, 0x6CBF, 0x5CB8, 0x5357, 0x90E8]),
    (''212'', utf8 [0x5CA9, 0x624B, 0x770C, 0x5185, 0x9678, 0x5317, 0x90E8]),
    (''213'', utf8 [0x5CA9, 0x624B, 0x770C, 0x5185, 0x9678, 0x5357, 0x90E8]),
    (''220'', utf8 [0x5BAE, 0x57CE, 0x770C, 0x5317, 0x90E8]),
    (''221'', utf8 [0x5BAE, 0x57CE, 0x770C, 0x5357, 0x90E8]),
    (''222'', utf8 [0x5BAE, 0x57CE, 0x770C, 0x4E2D, 0x90E8]),
    (''230'', utf8 [0x79CB, 0x7530, 0x770C, 0x6CBF, 0x5CB8, 0x5317, 0x90E8]),
    (''231'', utf8 [0x79CB, 0x7530, 0x770C, 0x6CBF, 0x5CB8, 0x5357, 0x90E8]),
    (''232'', utf8 [0x79CB, 0x7530, 0x770C, 0x5185, 0x9678, 0x5317, 0x90E8]),
    (''233'', utf8 [0x79CB, 0x7530, 0x770C, 0x5185, 0x9678, 0x5357, 0x90E8]),
    (''240'', utf8 [0x5C71, 0x5F62, 0x770C, 0x5E84, 0x5185, 0x5730, 0x65B9]),
    (''241'', utf8 [0x5C71, 0x5F62, 0x770C, 0x6700, 0x4E0A, 0x5730, 0x65B9]),
    (''242'', utf8 [0x5C71, 0x5F62, 0x770C, 0x6751, 0x5C71, 0x5730, 0x65B9]),
    (''243'', utf8 [0x5C71, 0x5F62, 0x770C, 0x7F6E, 0x8CDC, 0x5730, 0x65B9]),
    (''250'', utf8 [0x798F, 0x5CF6, 0x770C, 0x4E2D, 0x901A, 0x308A]),
    (''251'', utf8 [0x798F, 0x5CF6, 0x770C, 0x6D5C, 0x901A, 0x308A]),
    (''252'', utf8 [0x798F, 0x5CF6, 0x770C, 0x4F1A, 0x6D25]),
    (''280'', utf8 [0x6D25, 0x8EFD, 0x6D77, 0x5CE1]),
    (''281'', utf8 [0x5C71, 0x5F62, 0x770C, 0x6C96]),
    (''282'', utf8 [0x79CB, 0x7530, 0x770C, 0x6C96]),
    (''283'', utf8 [0x9752, 0x68EE, 0x770C, 0x897F, 0x65B9, 0x6C96]),
    (''284'', utf8 [0x9678, 0x5965, 0x6E7E]),
    (''285'', utf8 [0x9752, 0x68EE, 0x770C, 0x6771, 0x65B9, 0x6C96]),
    (''286'', utf8 [0x5CA9, 0x624B, 0x770C, 0x6C96]),
    (''287'', utf8 [0x5BAE, 0x57CE, 0x770C, 0x6C96]),
    (''288'', utf8 [0x4E09, 0x9678, 0x6C96]),
    (''289'', utf8 [0x798F, 0x5CF6, 0x770C, 0x6C96]),
    (''300'', utf8 [0x8328, 0x57CE, 0x770C, 0x5317, 0x90E8]),
    (''301'', utf8 [0x8328, 0x57CE, 0x770C, 0x5357, 0x90E8]),
    (''309'', utf8 [0x5343, 0x8449, 0x770C, 0x5357, 0x6771, 0x6C96]),
    (''310'', utf8 [0x6803, 0x6728, 0x770C, 0x5317, 0x90E8]),
    (''311'', utf8 [0x6803, 0x6728, 0x770C, 0x5357, 0x90E8]),
    (''320'', utf8 [0x7FA4, 0x99AC, 0x770C, 0x5317, 0x90E8]),
    (''321'', utf8 [0x7FA4, 0x99AC, 0x770C, 0x5357, 0x90E8]),
    (''330'', utf8 [0x57FC, 0x7389, 0x770C, 0x5317, 0x90E8]),
    (''331'', utf8 [0x57FC, 0x7389, 0x770C, 0x5357, 0x90E8]),
    (''332'', utf8 [0x57FC, 0x7389, 0x770C, 0x79E9, 0x7236, 0x5730, 0x65B9]),
    (''340'', utf8 [0x5343, 0x8449, 0x770C, 0x5317, 0x6771, 0x90E8]),
    (''341'', utf8 [0x5343, 0x8449, 0x770C, 0x5317, 0x897F, 0x90E8]),
    (''342'', utf8 [0x5343, 0x8449, 0x770C, 0x5357, 0x90E8]),
    (''349'', utf8 [0x623F, 0x7DCF, 0x534A, 0x5CF6, 0x5357, 0x65B9, 0x6C96]),
    (''350'', utf8 [0x6771, 0x4EAC, 0x90FD, 0x32, 0x33, 0x533A]),
    (''351'', utf8 [0x6771, 0x4EAC, 0x90FD, 0x591A, 0x6469, 0x6771, 0x90E8]),
    (''352'', utf8 [0x6771, 0x4EAC, 0x90FD, 0x591A, 0x6469, 0x897F, 0x90E8])]"

definition EpicenterCode_2 :: table where
  "EpicenterCode_2 = [
    (''360'', utf8 [0x795E, 0x5948, 0x5DDD, 0x770C, 0x6771, 0x90E8]),
    (''361'', utf8 [0x795E, 0x5948, 0x5DDD, 0x770C, 0x897F, 0x90E8]),
    (''370'', utf8 [0x65B0, 0x6F5F, 0x770C, 0x4E0A, 0x8D8A, 0x5730, 0x65B9]),
    (''371'', utf8 [0x65B0, 0x6F5F, 0x770C, 0x4E2D, 0x8D8A, 0x5730, 0x65B9]),
    (''372'', utf8 [0x65B0, 0x6F5F, 0x770C, 0x4E0B, 0x8D8A, 0x5730, 0x65B9]),
    (''378'', utf8 [0x65B0, 0x6F5F, 0x770C, 0x4E0B, 0x8D8A, 0x6C96]),
    (''379'', utf8 [0x65B0, 0x6F5F, 0x770C, 0x4E0A, 0x4E2D, 0x8D8A, 0x6C96]),
    (''380'', utf8 [0x5BCC, 0x5C71, 0x770C, 0x6771, 0x90E8]),
    (''381'', utf8 [0x5BCC, 0x5C71, 0x770C, 0x897F, 0x90E8]),
    (''390'', utf8 [0x77F3, 0x5DDD, 0x770C, 0x80FD, 0x767B, 0x5730, 0x65B9]),
    (''391'', utf8 [0x77F3, 0x5DDD, 0x770C, 0x52A0, 0x8CC0, 0x5730, 0x65B9]),
    (''400'', utf8 [0x798F, 0x4E95, 0x770C, 0x5DBA, 0x5317]),
    (''401'', utf8 [0x798F, 0x4E95, 0x770C, 0x5DBA, 0x5357]),
    (''411'', utf8 [0x5C71, 0x68A8, 0x770C, 0x4E2D, 0x30FB, 0x897F, 0x90E8]),
    (''412'', utf8 [0x5C71, 0x68A8, 0x770C, 0x6771, 0x90E8, 0x30FB, 0x5BCC, 0x58EB, 0x4E94, 0x6E56]),
    (''420'', utf8 [0x9577, 0x91CE, 0x770C, 0x5317, 0x90E8]),
    (''421'', utf8 [0x9577, 0x91CE, 0x770C, 0x4E2D, 0x90E8]),
    (''422'', utf8 [0x9577, 0x91CE, 0x770C, 0x5357, 0x90E8]),
    (''430'', utf8 [0x5C90, 0x961C, 0x770C, 0x98DB, 0x9A28, 0x5730, 0x65B9]),
    (''431'', utf8 [0x5C90, 0x961C, 0x770C, 0x7F8E, 0x6FC3, 0x6771, 0x90E8]),
    (''432'', utf8 [0x5C90, 0x961C, 0x770C, 0x7F8E, 0x6FC3, 0x4E2D, 0x897F, 0x90E8]),
    (''440'', utf8 [0x9759, 0x5CA1, 0x770C, 0x4F0A, 0x8C46, 0x5730, 0x65B9]),
    (''441'', utf8 [0x9759, 0x5CA1, 0x770C, 0x6771, 0x90E8]),
    (''442'', utf8 [0x9759, 0x5CA1, 0x770C, 0x4E2D, 0x90E8]),
    (''443'', utf8 [0x9759, 0x5CA1, 0x770C, 0x897F, 0x90E8]),
    (''450'', utf8 [0x611B, 0x77E5, 0x770C, 0x6771, 0x90E8]),
    (''451'', utf8 [0x611B, 0x77E5, 0x770C, 0x897F, 0x90E8]),
    (''460'', utf8 [0x4E09, 0x91CD, 0x770C, 0x5317, 0x90E8]),
    (''461'', utf8 [0x4E09, 0x91CD, 0x770C, 0x4E2D, 0x90E8]),
    (''462'', utf8 [0x4E09, 0x91CD, 0x770C, 0x5357, 0x90E8]),
    (''469'', utf8 [0x4E09, 0x91CD, 0x770C, 0x5357, 0x6771, 0x6C96]),
    (''471'', utf8 [0x8328, 0x57CE, 0x770C, 0x6C96]),
    (''472'', utf8 [0x95A2, 0x6771, 0x6771, 0x65B9, 0x6C96]),
    (''473'', utf8 [0x5343, 0x8449, 0x770C, 0x6771, 0x65B9, 0x6C96]),
    (''475'', utf8 [0x516B, 0x4E08, 0x5CF6, 0x6771, 0x65B9, 0x6C96]),
    (''476'', utf8 [0x516B, 0x4E08, 0x5CF6, 0x8FD1, 0x6D77]),
    (''477'', utf8 [0x6771, 0x4EAC, 0x6E7E]),
    (''478'', utf8 [0x76F8, 0x6A21, 0x6E7E]),
    (''480'', utf8 [0x4F0A, 0x8C46, 0x5927, 0x5CF6, 0x8FD1, 0x6D77]),
    (''481'', utf8 [0x4F0A, 0x8C46, 0x534A, 0x5CF6, 0x6771, 0x65B9, 0x6C96]),
    (''482'', utf8 [0x4E09, 0x5B85, 0x5CF6, 0x8FD1, 0x6D77]),
    (''483'', utf8 [0x65B0, 0x5CF6, 0x30FB, 0x795E, 0x6D25, 0x5CF6, 0x8FD1, 0x6D77]),
    (''485'', utf8 [0x99FF, 0x6CB3, 0x6E7E]),
    (''486'', utf8 [0x99FF, 0x6CB3, 0x6E7E, 0x5357, 0x65B9, 0x6C96]),
    (''487'', utf8 [0x9060, 0x5DDE, 0x7058]),
    (''489'', utf8 [0x4E09, 0x6CB3, 0x6E7E]),
    (''490'', utf8 [0x4F0A, 0x52E2, 0x6E7E]),
    (''492'', utf8 [0x82E5, 0x72ED, 0x6E7E]),
    (''493'', utf8 [0x798F, 0x4E95, 0x770C, 0x6C96]),
    (''494'', utf8 [0x77F3, 0x5DDD, 0x770C, 0x897F, 0x65B9, 0x6C96]),
    (''495'', utf8 [0x80FD, 0x767B, 0x534A, 0x5CF6, 0x6C96]),
    (''497'', utf8 [0x5BCC, 0x5C71, 0x6E7E]),
    (''498'', utf8 [0x4F50, 0x6E21, 0x4ED8, 0x8FD1]),
    (''499'', utf8 [0x6771, 0x6D77, 0x9053, 0x5357, 0x65B9, 0x6C96]),
    (''500'', utf8 [0x6ECB, 0x8CC0, 0x770C, 0x5317, 0x90E8]),
    (''501'', utf8 [0x6ECB, 0x8CC0, 0x770C, 0x5357, 0x90E8]),
    (''510'', utf8 [0x4EAC, 0x90FD, 0x5E9C, 0x5317, 0x90E8]),
    (''511'', utf8 [0x4EAC, 0x90FD, 0x5E9C, 0x5357, 0x90E8]),
    (''520'', utf8 [0x5927, 0x962A, 0x5E9C, 0x5317, 0x90E8]),
    (''521'', utf8 [0x5927, 0x962A, 0x5E9C, 0x5357, 0x90E8]),
    (''530'', utf8 [0x5175, 0x5EAB, 0x770C, 0x5317, 0x90E8]),
    (''531'', utf8 [0x5175, 0x5EAB, 0x770C, 0x5357, 0x6771, 0x90E8]),
    (''532'', utf8 [0x5175, 0x5EAB, 0x770C, 0x5357, 0x897F, 0x90E8]),
    (''540'', utf8 [0x5948, 0x826F, 0x770C]),
    (''550'', utf8 [0x548C, 0x6B4C, 0x5C71, 0x770C, 0x5317, 0x90E8]),
    (''551'', utf8 [0x548C, 0x6B4C, 0x5C71, 0x770C, 0x5357, 0x90E8]),
    (''560'', utf8 [0x9CE5, 0x53D6, 0x770C, 0x6771, 0x90E8]),
    (''562'', utf8 [0x9CE5, 0x53D6, 0x770C, 0x4E2D, 0x90E8]),
    (''563'', utf8 [0x9CE5, 0x53D6, 0x770C, 0x897F, 0x90E8]),
    (''570'', utf8 [0x5CF6, 0x6839, 0x770C, 0x6771, 0x90E8]),
    (''571'', utf8 [0x5CF6, 0x6839, 0x770C, 0x897F, 0x90E8]),
    (''580'', utf8 [0x5CA1, 0x5C71, 0x770C, 0x5317, 0x90E8]),
    (''581'', utf8 [0x5CA1, 0x5C71, 0x770C, 0x5357, 0x90E8]),
    (''590'', utf8 [0x5E83, 0x5CF6, 0x770C, 0x5317, 0x90E8]),
    (''591'', utf8 [0x5E83, 0x5CF6, 0x770C, 0x5357, 0x6771, 0x90E8]),
    (''592'', utf8 [0x5E83, 0x5CF6, 0x770C, 0x5357, 0x897F, 0x90E8]),
    (''600'', utf8 [0x5FB3, 0x5CF6, 0x770C, 0x5317, 0x90E8]),
    (''601'', utf8 [0x5FB3, 0x5CF6, 0x770C, 0x5357, 0x90E8]),
    (''610'', utf8 [0x9999, 0x5DDD, 0x770C, 0x6771, 0x90E8]),
    (''611'', utf8 [0x9999, 0x5DDD, 0x770C, 0x897F, 0x90E8]),
    (''620'', utf8 [0x611B, 0x5A9B, 0x770C, 0x6771, 0x4E88]),
    (''621'', utf8 [0x611B, 0x5A9B, 0x770C, 0x4E2D, 0x4E88]),
    (''622'', utf8 [0x611B, 0x5A9B, 0x770C, 0x5357, 0x4E88]),
    (''630'', utf8 [0x9AD8, 0x77E5, 0x770C, 0x6771, 0x90E8]),
    (''631'', utf8 [0x9AD8, 0x77E5, 0x770C, 0x4E2D, 0x90E8]),
    (''632'', utf8 [0x9AD8, 0x77E5, 0x770C, 0x897F, 0x90E8]),
    (''673'', utf8 [0x571F, 0x4F50, 0x6E7E]),
    (''674'', utf8 [0x7D00, 0x4F0A, 0x6C34, 0x9053]),
    (''675'', utf8 [0x5927, 0x962A, 0x6E7E]),
    (''676'', utf8 [0x64AD, 0x78E8, 0x7058]),
    (''677'', utf8 [0x702C, 0x6238, 0x5185, 0x6D77, 0x4E2D, 0x90E8]),
    (''678'', utf8 [0x5B89, 0x82B8, 0x7058]),
    (''679'', utf8 [0x5468, 0x9632, 0x7058]),
    (''680'', utf8 [0x4F0A, 0x4E88, 0x7058]),
    (''681'', utf8 [0x8C4A, 0x5F8C, 0x6C34, 0x9053]),
    (''682'', utf8 [0x5C71, 0x53E3, 0x770C, 0x5317, 0x897F, 0x6C96]),
    (''683'', utf8 [0x5CF6, 0x6839, 0x770C, 0x6C96]),
    (''684'', utf8 [0x9CE5, 0x53D6, 0x770C, 0x6C96]),
    (''685'', utf8 [0x96A0, 0x5C90, 0x5CF6, 0x8FD1, 0x6D77]),
    (''686'', utf8 [0x5175, 0x5EAB, 0x770C, 0x5317, 0x65B9, 0x6C96]),
    (''687'', utf8 [0x4EAC, 0x90FD, 0x5E9C, 0x6C96]),
    (''688'', utf8 [0x6DE1, 0x8DEF, 0x5CF6, 0x4ED8, 0x8FD1]),
    (''689'', utf8 [0x548C, 0x6B4C, 0x5C71, 0x770C, 0x5357, 0x65B9, 0x6C96]),
    (''700'', utf8 [0x5C71, 0x53E3, 0x770C, 0x5317, 0x90E8]),
    (''701'', utf8 [0x5C71, 0x53E3, 0x770C, 0x6771, 0x90E8]),
    (''702'', utf8 [0x5C71, 0x53E3, 0x770C, 0x897F, 0x90E8]),
    (''710'', utf8 [0x798F, 0x5CA1, 0x770C, 0x798F, 0x5CA1, 0x5730, 0x65B9]),
    (''711'', utf8 [0x798F, 0x5CA1, 0x770C, 0x5317, 0x4E5D, 0x5DDE, 0x5730, 0x65B9]),
    (''712'', utf8 [0x798F, 0x5CA1, 0x770C, 0x7B51, 0x8C4A, 0x5730, 0x65B9]),
    (''713'', utf8 [0x798F, 0x5CA1, 0x770C, 0x7B51, 0x5F8C, 0x5730, 0x65B9]),
    (''720'', utf8 [0x4F50, 0x8CC0, 0x770C, 0x5317, 0x90E8]),
    (''721'', utf8 [0x4F50, 0x8CC0, 0x770C, 0x5357, 0x90E8]),
    (''730'', utf8 [0x9577, 0x5D0E, 0x770C, 0x5317, 0x90E8]),
    (''731'', utf8 [0x9577, 0x5D0E, 0x770C, 0x5357, 0x897F, 0x90E8])]"

definition EpicenterCode_3 :: table where
  "EpicenterCode_3 = [
    (''732'', utf8 [0x9577, 0x5D0E, 0x770C, 0x5CF6, 0x539F, 0x534A, 0x5CF6]),
    (''740'', utf8 [0x718A, 0x672C, 0x770C, 0x963F, 0x8607, 0x5730, 0x65B9]),
    (''741'', utf8 [0x718A, 0x672C, 0x770C, 0x718A, 0x672C, 0x5730, 0x65B9]),
    (''742'', utf8 [0x718A, 0x672C, 0x770C, 0x7403, 0x78E8, 0x5730, 0x65B9]),
    (''743'', utf8 [0x718A, 0x672C, 0x770C, 0x5929, 0x8349, 0x30FB, 0x82A6, 0x5317, 0x5730, 0x65B9]),
    (''750'', utf8 [0x5927, 0x5206, 0x770C, 0x5317, 0x90E8]),
    (''751'', utf8 [0x5927, 0x5206, 0x770C, 0x4E2D, 0x90E8]),
    (''752'', utf8 [0x5927, 0x5206, 0x770C, 0x5357, 0x90E8]),
    (''753'', utf8 [0x5927, 0x5206, 0x770C, 0x897F, 0x90E8]),
    (''760'', utf8 [0x5BAE, 0x5D0E, 0x770C, 0x5317, 0x90E8, 0x5E73, 0x91CE, 0x90E8]),
    (''761'', utf8 [0x5BAE, 0x5D0E, 0x770C, 0x5317, 0x90E8, 0x5C71, 0x6CBF, 0x3044]),
    (''762'', utf8 [0x5BAE, 0x5D0E, 0x770C, 0x5357, 0x90E8, 0x5E73, 0x91CE, 0x90E8]),
    (''763'', utf8 [0x5BAE, 0x5D0E, 0x770C, 0x5357, 0x90E8, 0x5C71, 0x6CBF, 0x3044]),
    (''770'', utf8 [0x9E7F, 0x5150, 0x5CF6, 0x770C, 0x85A9, 0x6469, 0x5730, 0x65B9]),
    (''771'', utf8 [0x9E7F, 0x5150, 0x5CF6, 0x770C, 0x5927, 0x9685, 0x5730, 0x65B9]),
    (''783'', utf8 [0x4E94, 0x5CF6, 0x5217, 0x5CF6, 0x8FD1, 0x6D77]),
    (''784'', utf8 [0x5929, 0x8349, 0x7058]),
    (''785'', utf8 [0x6709, 0x660E, 0x6D77]),
    (''786'', utf8 [0x6A58, 0x6E7E]),
    (''787'', utf8 [0x9E7F, 0x5150, 0x5CF6, 0x6E7E]),
    (''790'', utf8 [0x7A2E, 0x5B50, 0x5CF6, 0x8FD1, 0x6D77]),
    (''791'', utf8 [0x65E5, 0x5411, 0x7058]),
    (''793'', utf8 [0x5944, 0x7F8E, 0x5927, 0x5CF6, 0x8FD1, 0x6D77]),
    (''795'', utf8 [0x58F1, 0x5C90, 0x30FB, 0x5BFE, 0x99AC, 0x8FD1, 0x6D77]),
    (''796'', utf8 [0x798F, 0x5CA1, 0x770C, 0x5317, 0x897F, 0x6C96]),
    (''797'', utf8 [0x85A9, 0x6469, 0x534A, 0x5CF6, 0x897F, 0x65B9, 0x6C96]),
    (''798'', utf8 [0x30C8, 0x30AB, 0x30E9, 0x5217, 0x5CF6, 0x8FD1, 0x6D77]),
    (''799'', utf8 [0x5944, 0x7F8E, 0x5927, 0x5CF6, 0x5317, 0x897F, 0x6C96]),
    (''820'', utf8 [0x5927, 0x9685, 0x534A, 0x5CF6, 0x6771, 0x65B9, 0x6C96]),
    (''821'', utf8 [0x4E5D, 0x5DDE, 0x5730, 0x65B9, 0x5357, 0x6771, 0x6C96]),
    (''822'', utf8 [0x7A2E, 0x5B50, 0x5CF6, 0x5357, 0x6771, 0x6C96]),
    (''823'', utf8 [0x5944, 0x7F8E, 0x5927, 0x5CF6, 0x5317, 0x6771, 0x6C96]),
    (''850'', utf8 [0x6C96, 0x7E04, 0x672C, 0x5CF6, 0x8FD1, 0x6D77]),
    (''851'', utf8 [0x5357, 0x5927, 0x6771, 0x5CF6, 0x8FD1, 0x6D77]),
    (''852'', utf8 [0x6C96, 0x7E04, 0x672C, 0x5CF6, 0x5357, 0x65B9, 0x6C96]),
    (''853'', utf8 [0x5BAE, 0x53E4, 0x5CF6, 0x8FD1, 0x6D77]),
    (''854'', utf8 [0x77F3, 0x57A3, 0x5CF6, 0x8FD1, 0x6D77]),
    (''855'', utf8 [0x77F3, 0x57A3, 0x5CF6, 0x5357, 0x65B9, 0x6C96]),
    (''856'', utf8 [0x897F, 0x8868, 0x5CF6, 0x4ED8, 0x8FD1]),
    (''857'', utf8 [0x4E0E, 0x90A3, 0x56FD, 0x5CF6, 0x8FD1, 0x6D77]),
    (''858'', utf8 [0x6C96, 0x7E04, 0x672C, 0x5CF6, 0x5317, 0x897F, 0x6C96]),
    (''859'', utf8 [0x5BAE, 0x53E4, 0x5CF6, 0x5317, 0x897F, 0x6C96]),
    (''860'', utf8 [0x77F3, 0x57A3, 0x5CF6, 0x5317, 0x897F, 0x6C96]),
    (''900'', utf8 [0x53F0, 0x6E7E, 0x4ED8, 0x8FD1]),
    (''901'', utf8 [0x6771, 0x30B7, 0x30CA, 0x6D77]),
    (''902'', utf8 [0x56DB, 0x56FD, 0x6C96]),
    (''903'', utf8 [0x9CE5, 0x5CF6, 0x8FD1, 0x6D77]),
    (''904'', utf8 [0x9CE5, 0x5CF6, 0x6771, 0x65B9, 0x6C96]),
    (''905'', utf8 [0x30AA, 0x30DB, 0x30FC, 0x30C4, 0x30AF, 0x6D77, 0x5357, 0x90E8]),
    (''906'', utf8 [0x30B5, 0x30CF, 0x30EA, 0x30F3, 0x897F, 0x65B9, 0x6C96]),
    (''907'', utf8 [0x65E5, 0x672C, 0x6D77, 0x5317, 0x90E8]),
    (''908'', utf8 [0x65E5, 0x672C, 0x6D77, 0x4E2D, 0x90E8]),
    (''909'', utf8 [0x65E5, 0x672C, 0x6D77, 0x897F, 0x90E8]),
    (''911'', utf8 [0x7236, 0x5CF6, 0x8FD1, 0x6D77]),
    (''912'', utf8 [0x5343, 0x5CF6, 0x5217, 0x5CF6]),
    (''913'', utf8 [0x5343, 0x5CF6, 0x5217, 0x5CF6, 0x5357, 0x6771, 0x6C96]),
    (''914'', utf8 [0x5317, 0x6D77, 0x9053, 0x5357, 0x6771, 0x6C96]),
    (''915'', utf8 [0x6771, 0x5317, 0x5730, 0x65B9, 0x6771, 0x65B9, 0x6C96]),
    (''916'', utf8 [0x5C0F, 0x7B20, 0x539F, 0x8AF8, 0x5CF6, 0x897F, 0x65B9, 0x6C96]),
    (''917'', utf8 [0x786B, 0x9EC4, 0x5CF6, 0x8FD1, 0x6D77]),
    (''918'', utf8 [0x5C0F, 0x7B20, 0x539F, 0x8AF8, 0x5CF6, 0x6771, 0x65B9, 0x6C96]),
    (''919'', utf8 [0x5357, 0x6D77, 0x9053, 0x5357, 0x65B9, 0x6C96]),
    (''920'', utf8 [0x85A9, 0x5357, 0x8AF8, 0x5CF6, 0x6771, 0x65B9, 0x6C96]),
    (''921'', utf8 [0x672C, 0x5DDE, 0x5357, 0x65B9, 0x6C96]),
    (''922'', utf8 [0x30B5, 0x30CF, 0x30EA, 0x30F3, 0x5357, 0x90E8, 0x4ED8, 0x8FD1]),
    (''930'', utf8 [0x5317, 0x897F, 0x592A, 0x5E73, 0x6D0B]),
    (''932'', utf8 [0x30DE, 0x30EA, 0x30A2, 0x30CA, 0x8AF8, 0x5CF6]),
    (''933'', utf8 [0x9EC4, 0x6D77]),
    (''934'', utf8 [0x671D, 0x9BAE, 0x534A, 0x5CF6, 0x5357, 0x90E8]),
    (''935'', utf8 [0x671D, 0x9BAE, 0x534A, 0x5CF6, 0x5317, 0x90E8]),
    (''936'', utf8 [0x4E2D, 0x56FD, 0x6771, 0x5317, 0x90E8]),
    (''937'', utf8 [0x30A6, 0x30E9, 0x30B8, 0x30AA, 0x30B9, 0x30C8, 0x30AF, 0x4ED8, 0x8FD1]),
    (''938'', utf8 [0x30B7, 0x30D9, 0x30EA, 0x30A2, 0x5357, 0x90E8]),
    (''939'', utf8 [0x30B5, 0x30CF, 0x30EA, 0x30F3, 0x8FD1, 0x6D77]),
    (''940'', utf8 [0x30A2, 0x30EA, 0x30E5, 0x30FC, 0x30B7, 0x30E3, 0x30F3, 0x5217, 0x5CF6]),
    (''941'', utf8 [0x30AB, 0x30E0, 0x30C1, 0x30E3, 0x30C4, 0x30AB, 0x534A, 0x5CF6, 0x4ED8, 0x8FD1]),
    (''942'', utf8 [0x5317, 0x7C73, 0x897F, 0x90E8]),
    (''943'', utf8 [0x5317, 0x7C73, 0x4E2D, 0x90E8]),
    (''944'', utf8 [0x5317, 0x7C73, 0x6771, 0x90E8]),
    (''945'', utf8 [0x4E2D, 0x7C73]),
    (''946'', utf8 [0x5357, 0x7C73, 0x897F, 0x90E8]),
    (''947'', utf8 [0x5357, 0x7C73, 0x4E2D, 0x90E8]),
    (''948'', utf8 [0x5357, 0x7C73, 0x6771, 0x90E8]),
    (''949'', utf8 [0x5317, 0x6771, 0x592A, 0x5E73, 0x6D0B]),
    (''950'', utf8 [0x5357, 0x592A, 0x5E73, 0x6D0B]),
    (''951'', utf8 [0x30A4, 0x30F3, 0x30C9, 0x30B7, 0x30CA, 0x534A, 0x5CF6, 0x4ED8, 0x8FD1]),
    (''952'', utf8 [0x30D5, 0x30A3, 0x30EA, 0x30D4, 0x30F3, 0x4ED8, 0x8FD1]),
    (''953'', utf8 [0x30A4, 0x30F3, 0x30C9, 0x30CD, 0x30B7, 0x30A2, 0x4ED8, 0x8FD1]),
    (''954'', utf8 [0x30B0, 0x30A2, 0x30E0, 0x4ED8, 0x8FD1]),
    (''955'', utf8 [0x30CB, 0x30E5, 0x30FC, 0x30AE, 0x30CB, 0x30A2, 0x4ED8, 0x8FD1]),
    (''956'', utf8 [0x30CB, 0x30E5, 0x30FC, 0x30B8, 0x30FC, 0x30E9, 0x30F3, 0x30C9, 0x4ED8, 0x8FD1]),
    (''957'', utf8 [0x30AA, 0x30FC, 0x30B9, 0x30C8, 0x30E9, 0x30EA, 0x30A2, 0x4ED8, 0x8FD1]),
    (''958'', utf8 [0x30B7, 0x30D9, 0x30EA, 0x30A2, 0x4ED8, 0x8FD1]),
    (''959'', utf8 [0x30ED, 0x30B7, 0x30A2, 0x897F, 0x90E8]),
    (''960'', utf8 [0x30ED, 0x30B7, 0x30A2, 0x4E2D, 0x90E8]),
    (''961'', utf8 [0x30ED, 0x30B7, 0x30A2, 0x6771, 0x90E8]),
    (''962'', utf8 [0x4E2D, 0x592E, 0x30A2, 0x30B8, 0x30A2]),
    (''963'', utf8 [0x4E2D, 0x56FD, 0x897F, 0x90E8]),
    (''964'', utf8 [0x4E2D, 0x56FD, 0x4E2D, 0x90E8]),
    (''965'', utf8 [0x4E2D, 0x56FD, 0x6771, 0x90E8]),
    (''966'', utf8 [0x30A4, 0x30F3, 0x30C9, 0x4ED8, 0x8FD1]),
    (''967'', utf8 [0x30A4, 0x30F3, 0x30C9, 0x6D0B]),
    (''968'', utf8 [0x4E2D, 0x6771]),
    (''969'', utf8 [0x30E8, 0x30FC, 0x30ED, 0x30C3, 0x30D1, 0x897F, 0x90E8]),
    (''970'', utf8 [0x30E8, 0x30FC, 0x30ED, 0x30C3, 0x30D1, 0x4E2D, 0x90E8]),
    (''971'', utf8 [0x30E8, 0x30FC, 0x30ED, 0x30C3, 0x30D1, 0x6771, 0x90E8]),
    (''972'', utf8 [0x5730, 0x4E2D, 0x6D77]),
    (''973'', utf8 [0x30A2, 0x30D5, 0x30EA, 0x30AB, 0x897F, 0x90E8]),
    (''974'', utf8 [0x30A2, 0x30D5, 0x30EA, 0x30AB, 0x4E2D, 0x90E8]),
    (''975'', utf8 [0x30A2, 0x30D5, 0x30EA, 0x30AB, 0x6771, 0x90E8]),
    (''976'', utf8 [0x5317, 0x5927, 0x897F, 0x6D0B]),
    (''977'', utf8 [0x5357, 0x5927, 0x897F, 0x6D0B]),
    (''978'', utf8 [0x5317, 0x6975, 0x4ED8, 0x8FD1]),
    (''979'', utf8 [0x5357, 0x6975, 0x4ED8, 0x8FD1])]"

definition EpicenterCode :: table where
  "EpicenterCode = EpicenterCode_1 @ EpicenterCode_2 @ EpicenterCode_3"

definition AreaCode_1 :: table where
  "AreaCode_1 = [
    (''100'', utf8 [0x77F3, 0x72E9, 0x5730, 0x65B9, 0x5317, 0x90E8]),
    (''101'', utf8 [0x77F3, 0x72E9, 0x5730, 0x65B9, 0x4E2D, 0x90E8]),
    (''102'', utf8 [0x77F3, 0x72E9, 0x5730, 0x65B9, 0x5357, 0x90E8]),
    (''105'', utf8 [0x6E21, 0x5CF6, 0x5730, 0x65B9, 0x5317, 0x90E8]),
    (''106'', utf8 [0x6E21, 0x5CF6, 0x5730, 0x65B9, 0x6771, 0x90E8]),
    (''107'', utf8 [0x6E21, 0x5CF6, 0x5730, 0x65B9, 0x897F, 0x90E8]),
    (''110'', utf8 [0x6A9C, 0x5C71, 0x5730, 0x65B9]),
    (''115'', utf8 [0x5F8C, 0x5FD7, 0x5730, 0x65B9, 0x5317, 0x90E8]),
    (''116'', utf8 [0x5F8C, 0x5FD7, 0x5730, 0x65B9, 0x6771, 0x90E8]),
    (''117'', utf8 [0x5F8C, 0x5FD7, 0x5730, 0x65B9, 0x897F, 0x90E8]),
    (''119'', utf8 [0x5317, 0x6D77, 0x9053, 0x5965, 0x5C3B, 0x5CF6]),
    (''120'', utf8 [0x7A7A, 0x77E5, 0x5730, 0x65B9, 0x5317, 0x90E8]),
    (''121'', utf8 [0x7A7A, 0x77E5, 0x5730, 0x65B9, 0x4E2D, 0x90E8]),
    (''122'', utf8 [0x7A7A, 0x77E5, 0x5730, 0x65B9, 0x5357, 0x90E8]),
    (''125'', utf8 [0x4E0A, 0x5DDD, 0x5730, 0x65B9, 0x5317, 0x90E8]),
    (''126'', utf8 [0x4E0A, 0x5DDD, 0x5730, 0x65B9, 0x4E2D, 0x90E8]),
    (''127'', utf8 [0x4E0A, 0x5DDD, 0x5730, 0x65B9, 0x5357, 0x90E8]),
    (''130'', utf8 [0x7559, 0x840C, 0x5730, 0x65B9, 0x4E2D, 0x5317, 0x90E8]),
    (''131'', utf8 [0x7559, 0x840C, 0x5730, 0x65B9, 0x5357, 0x90E8]),
    (''135'', utf8 [0x5B97, 0x8C37, 0x5730, 0x65B9, 0x5317, 0x90E8]),
    (''136'', utf8 [0x5B97, 0x8C37, 0x5730, 0x65B9, 0x5357, 0x90E8]),
    (''139'', utf8 [0x5317, 0x6D77, 0x9053, 0x5229, 0x5C3B, 0x793C, 0x6587]),
    (''140'', utf8 [0x7DB2, 0x8D70, 0x5730, 0x65B9]),
    (''141'', utf8 [0x5317, 0x898B, 0x5730, 0x65B9]),
    (''142'', utf8 [0x7D0B, 0x5225, 0x5730, 0x65B9]),
    (''145'', utf8 [0x80C6, 0x632F, 0x5730, 0x65B9, 0x897F, 0x90E8]),
    (''146'', utf8 [0x80C6, 0x632F, 0x5730, 0x65B9, 0x4E2D, 0x6771, 0x90E8]),
    (''150'', utf8 [0x65E5, 0x9AD8, 0x5730, 0x65B9, 0x897F, 0x90E8]),
    (''151'', utf8 [0x65E5, 0x9AD8, 0x5730, 0x65B9, 0x4E2D, 0x90E8]),
    (''152'', utf8 [0x65E5, 0x9AD8, 0x5730, 0x65B9, 0x6771, 0x90E8]),
    (''155'', utf8 [0x5341, 0x52DD, 0x5730, 0x65B9, 0x5317, 0x90E8]),
    (''156'', utf8 [0x5341, 0x52DD, 0x5730, 0x65B9, 0x4E2D, 0x90E8]),
    (''157'', utf8 [0x5341, 0x52DD, 0x5730, 0x65B9, 0x5357, 0x90E8]),
    (''160'', utf8 [0x91E7, 0x8DEF, 0x5730, 0x65B9, 0x5317, 0x90E8]),
    (''161'', utf8 [0x91E7, 0x8DEF, 0x5730, 0x65B9, 0x4E2D, 0x5357, 0x90E8]),
    (''165'', utf8 [0x6839, 0x5BA4, 0x5730, 0x65B9, 0x5317, 0x90E8]),
    (''166'', utf8 [0x6839, 0x5BA4, 0x5730, 0x65B9, 0x4E2D, 0x90E8]),
    (''167'', utf8 [0x6839, 0x5BA4, 0x5730, 0x65B9, 0x5357, 0x90E8]),
    (''200'', utf8 [0x9752, 0x68EE, 0x770C, 0x6D25, 0x8EFD, 0x5317, 0x90E8]),
    (''201'', utf8 [0x9752, 0x68EE, 0x770C, 0x6D25, 0x8EFD, 0x5357, 0x90E8]),
    (''202'', utf8 [0x9752, 0x68EE, 0x770C, 0x4E09, 0x516B, 0x4E0A, 0x5317]),
    (''203'', utf8 [0x9752, 0x68EE, 0x770C, 0x4E0B, 0x5317]),
    (''210'', utf8 [0x5CA9, 0x624B, 0x770C, 0x6CBF, 0x5CB8, 0x5317, 0x90E8]),
    (''211'', utf8 [0x5CA9, 0x624B, 0x770C, 0x6CBF, 0x5CB8, 0x5357, 0x90E8]),
    (''212'', utf8 [0x5CA9, 0x624B, 0x770C, 0x5185, 0x9678, 0x5317, 0x90E8]),
    (''213'', utf8 [0x5CA9, 0x624B, 0x770C, 0x5185, 0x9678, 0x5357, 0x90E8]),
    (''220'', utf8 [0x5BAE, 0x57CE, 0x770C, 0x5317, 0x90E8]),
    (''221'', utf8 [0x5BAE, 0x57CE, 0x770C, 0x5357, 0x90E8]),
    (''222'', utf8 [0x5BAE, 0x57CE, 0x770C, 0x4E2D, 0x90E8]),
    (''230'', utf8 [0x79CB, 0x7530, 0x770C, 0x6CBF, 0x5CB8, 0x5317, 0x90E8]),
    (''231'', utf8 [0x79CB, 0x7530, 0x770C, 0x6CBF, 0x5CB8, 0x5357, 0x90E8]),
    (''232'', utf8 [0x79CB, 0x7530, 0x770C, 0x5185, 0x9678, 0x5317, 0x90E8]),
    (''233'', utf8 [0x79CB, 0x7530, 0x770C, 0x5185, 0x9678, 0x5357, 0x90E8]),
    (''240'', utf8 [0x5C71, 0x5F62, 0x770C, 0x5E84, 0x5185]),
    (''241'', utf8 [0x5C71, 0x5F62, 0x770C, 0x6700, 0x4E0A]),
    (''242'', utf8 [0x5C71, 0x5F62, 0x770C, 0x6751, 0x5C71]),
    (''243'', utf8 [0x5C71, 0x5F62, 0x770C, 0x7F6E, 0x8CDC]),
    (''250'', utf8 [0x798F, 0x5CF6, 0x770C, 0x4E2D, 0x901A, 0x308A]),
    (''251'', utf8 [0x798F, 0x5CF6, 0x770C, 0x6D5C, 0x901A, 0x308A]),
    (''252'', utf8 [0x798F, 0x5CF6, 0x770C, 0x4F1A, 0x6D25]),
    (''300'', utf8 [0x8328, 0x57CE, 0x770C, 0x5317, 0x90E8]),
    (''301'', utf8 [0x8328, 0x57CE, 0x770C, 0x5357, 0x90E8]),
    (''310'', utf8 [0x6803, 0x6728, 0x770C, 0x5317, 0x90E8]),
    (''311'', utf8 [0x6803, 0x6728, 0x770C, 0x5357, 0x90E8]),
    (''320'', utf8 [0x7FA4, 0x99AC, 0x770C, 0x5317, 0x90E8]),
    (''321'', utf8 [0x7FA4, 0x99AC, 0x770C, 0x5357, 0x90E8]),
    (''330'', utf8 [0x57FC, 0x7389, 0x770C, 0x5317, 0x90E8]),
    (''331'', utf8 [0x57FC, 0x7389, 0x770C, 0x5357, 0x90E8]),
    (''332'', utf8 [0x57FC, 0x7389, 0x770C, 0x79E9, 0x7236]),
    (''340'', utf8 [0x5343, 0x8449, 0x770C, 0x5317, 0x6771, 0x90E8]),
    (''341'', utf8 [0x5343, 0x8449, 0x770C, 0x5317, 0x897F, 0x90E8]),
    (''342'', utf8 [0x5343, 0x8449, 0x770C, 0x5357, 0x90E8]),
    (''350'', utf8 [0x6771, 0x4EAC, 0x90FD, 0xFF12, 0xFF13, 0x533A]),
    (''351'', utf8 [0x6771, 0x4EAC, 0x90FD, 0x591A, 0x6469, 0x6771, 0x90E8]),
    (''352'', utf8 [0x6771, 0x4EAC, 0x90FD, 0x591A, 0x6469, 0x897F, 0x90E8]),
    (''354'', utf8 [0x795E, 0x6D25, 0x5CF6]),
    (''355'', utf8 [0x4F0A, 0x8C46, 0x5927, 0x5CF6]),
    (''356'', utf8 [0x65B0, 0x5CF6]),
    (''357'', utf8 [0x4E09, 0x5B85, 0x5CF6]),
    (''358'', utf8 [0x516B, 0x4E08, 0x5CF6]),
    (''359'', utf8 [0x5C0F, 0x7B20, 0x539F]),
    (''360'', utf8 [0x795E, 0x5948, 0x5DDD, 0x770C, 0x6771, 0x90E8]),
    (''361'', utf8 [0x795E, 0x5948, 0x5DDD, 0x770C, 0x897F, 0x90E8]),
    (''370'', utf8 [0x65B0, 0x6F5F, 0x770C, 0x4E0A, 0x8D8A]),
    (''371'', utf8 [0x65B0, 0x6F5F, 0x770C, 0x4E2D, 0x8D8A]),
    (''372'', utf8 [0x65B0, 0x6F5F, 0x770C, 0x4E0B, 0x8D8A]),
    (''375'', utf8 [0x65B0, 0x6F5F, 0x770C, 0x4F50, 0x6E21]),
    (''380'', utf8 [0x5BCC, 0x5C71, 0x770C, 0x6771, 0x90E8]),
    (''381'', utf8 [0x5BCC, 0x5C71, 0x770C, 0x897F, 0x90E8]),
    (''390'', utf8 [0x77F3, 0x5DDD, 0x770C, 0x80FD, 0x767B]),
    (''391'', utf8 [0x77F3, 0x5DDD, 0x770C, 0x52A0, 0x8CC0]),
    (''400'', utf8 [0x798F, 0x4E95, 0x770C, 0x5DBA, 0x5317]),
    (''401'', utf8 [0x798F, 0x4E95, 0x770C, 0x5DBA, 0x5357]),
    (''411'', utf8 [0x5C71, 0x68A8, 0x770C, 0x4E2D, 0x30FB, 0x897F, 0x90E8])]"

definition AreaCode_2 :: table where
  "AreaCode_2 = [
    (''412'', utf8 [0x5C71, 0x68A8, 0x770C, 0x6771, 0x90E8, 0x30FB, 0x5BCC, 0x58EB, 0x4E94, 0x6E56]),
    (''420'', utf8 [0x9577, 0x91CE, 0x770C, 0x5317, 0x90E8]),
    (''421'', utf8 [0x9577, 0x91CE, 0x770C, 0x4E2D, 0x90E8]),
    (''422'', utf8 [0x9577, 0x91CE, 0x770C, 0x5357, 0x90E8]),
    (''430'', utf8 [0x5C90, 0x961C, 0x770C, 0x98DB, 0x9A28]),
    (''431'', utf8 [0x5C90, 0x961C, 0x770C, 0x7F8E, 0x6FC3, 0x6771, 0x90E8]),
    (''432'', utf8 [0x5C90, 0x961C, 0x770C, 0x7F8E, 0x6FC3, 0x4E2D, 0x897F, 0x90E8]),
    (''440'', utf8 [0x9759, 0x5CA1, 0x770C, 0x4F0A, 0x8C46]),
    (''441'', utf8 [0x9759, 0x5CA1, 0x770C, 0x6771, 0x90E8]),
    (''442'', utf8 [0x9759, 0x5CA1, 0x770C, 0x4E2D, 0x90E8]),
    (''443'', utf8 [0x9759, 0x5CA1, 0x770C, 0x897F, 0x90E8]),
    (''450'', utf8 [0x611B, 0x77E5, 0x770C, 0x6771, 0x90E8]),
    (''451'', utf8 [0x611B, 0x77E5, 0x770C, 0x897F, 0x90E8]),
    (''460'', utf8 [0x4E09, 0x91CD, 0x770C, 0x5317, 0x90E8]),
    (''461'', utf8 [0x4E09, 0x91CD, 0x770C, 0x4E2D, 0x90E8]),
    (''462'', utf8 [0x4E09, 0x91CD, 0x770C, 0x5357, 0x90E8]),
    (''500'', utf8 [0x6ECB, 0x8CC0, 0x770C, 0x5317, 0x90E8]),
    (''501'', utf8 [0x6ECB, 0x8CC0, 0x770C, 0x5357, 0x90E8]),
    (''510'', utf8 [0x4EAC, 0x90FD, 0x5E9C, 0x5317, 0x90E8]),
    (''511'', utf8 [0x4EAC, 0x90FD, 0x5E9C, 0x5357, 0x90E8]),
    (''520'', utf8 [0x5927, 0x962A, 0x5E9C, 0x5317, 0x90E8]),
    (''521'', utf8 [0x5927, 0x962A, 0x5E9C, 0x5357, 0x90E8]),
    (''530'', utf8 [0x5175, 0x5EAB, 0x770C, 0x5317, 0x90E8]),
    (''531'', utf8 [0x5175, 0x5EAB, 0x770C, 0x5357, 0x6771, 0x90E8]),
    (''532'', utf8 [0x5175, 0x5EAB, 0x770C, 0x5357, 0x897F, 0x90E8]),
    (''535'', utf8 [0x5175, 0x5EAB, 0x770C, 0x6DE1, 0x8DEF, 0x5CF6]),
    (''540'', utf8 [0x5948, 0x826F, 0x770C]),
    (''550'', utf8 [0x548C, 0x6B4C, 0x5C71, 0x770C, 0x5317, 0x90E8]),
    (''551'', utf8 [0x548C, 0x6B4C, 0x5C71, 0x770C, 0x5357, 0x90E8]),
    (''560'', utf8 [0x9CE5, 0x53D6, 0x770C, 0x6771, 0x90E8]),
    (''562'', utf8 [0x9CE5, 0x53D6, 0x770C, 0x4E2D, 0x90E8]),
    (''563'', utf8 [0x9CE5, 0x53D6, 0x770C, 0x897F, 0x90E8]),
    (''570'', utf8 [0x5CF6, 0x6839, 0x770C, 0x6771, 0x90E8]),
    (''571'', utf8 [0x5CF6, 0x6839, 0x770C, 0x897F, 0x90E8]),
    (''575'', utf8 [0x5CF6, 0x6839, 0x770C, 0x96A0, 0x5C90]),
    (''580'', utf8 [0x5CA1, 0x5C71, 0x770C, 0x5317, 0x90E8]),
    (''581'', utf8 [0x5CA1, 0x5C71, 0x770C, 0x5357, 0x90E8]),
    (''590'', utf8 [0x5E83, 0x5CF6, 0x770C, 0x5317, 0x90E8]),
    (''591'', utf8 [0x5E83, 0x5CF6, 0x770C, 0x5357, 0x6771, 0x90E8]),
    (''592'', utf8 [0x5E83, 0x5CF6, 0x770C, 0x5357, 0x897F, 0x90E8]),
    (''600'', utf8 [0x5FB3, 0x5CF6, 0x770C, 0x5317, 0x90E8]),
    (''601'', utf8 [0x5FB3, 0x5CF6, 0x770C, 0x5357, 0x90E8]),
    (''610'', utf8 [0x9999, 0x5DDD, 0x770C, 0x6771, 0x90E8]),
    (''611'', utf8 [0x9999, 0x5DDD, 0x770C, 0x897F, 0x90E8]),
    (''620'', utf8 [0x611B, 0x5A9B, 0x770C, 0x6771, 0x4E88]),
    (''621'', utf8 [0x611B, 0x5A9B, 0x770C, 0x4E2D, 0x4E88]),
    (''622'', utf8 [0x611B, 0x5A9B, 0x770C, 0x5357, 0x4E88]),
    (''630'', utf8 [0x9AD8, 0x77E5, 0x770C, 0x6771, 0x90E8]),
    (''631'', utf8 [0x9AD8, 0x77E5, 0x770C, 0x4E2D, 0x90E8]),
    (''632'', utf8 [0x9AD8, 0x77E5, 0x770C, 0x897F, 0x90E8]),
    (''700'', utf8 [0x5C71, 0x53E3, 0x770C, 0x5317, 0x90E8]),
    (''701'', utf8 [0x5C71, 0x53E3, 0x770C, 0x6771, 0x90E8]),
    (''702'', utf8 [0x5C71, 0x53E3, 0x770C, 0x897F, 0x90E8]),
    (''710'', utf8 [0x798F, 0x5CA1, 0x770C, 0x798F, 0x5CA1]),
    (''711'', utf8 [0x798F, 0x5CA1, 0x770C, 0x5317, 0x4E5D, 0x5DDE]),
    (''712'', utf8 [0x798F, 0x5CA1, 0x770C, 0x7B51, 0x8C4A]),
    (''713'', utf8 [0x798F, 0x5CA1, 0x770C, 0x7B51, 0x5F8C]),
    (''720'', utf8 [0x4F50, 0x8CC0, 0x770C, 0x5317, 0x90E8]),
    (''721'', utf8 [0x4F50, 0x8CC0, 0x770C, 0x5357, 0x90E8]),
    (''730'', utf8 [0x9577, 0x5D0E, 0x770C, 0x5317, 0x90E8]),
    (''731'', utf8 [0x9577, 0x5D0E, 0x770C, 0x5357, 0x897F, 0x90E8]),
    (''732'', utf8 [0x9577, 0x5D0E, 0x770C, 0x5CF6, 0x539F, 0x534A, 0x5CF6]),
    (''735'', utf8 [0x9577, 0x5D0E, 0x770C, 0x5BFE, 0x99AC]),
    (''736'', utf8 [0x9577, 0x5D0E, 0x770C, 0x58F1, 0x5C90]),
    (''737'', utf8 [0x9577, 0x5D0E, 0x770C, 0x4E94, 0x5CF6]),
    (''740'', utf8 [0x718A, 0x672C, 0x770C, 0x963F, 0x8607]),
    (''741'', utf8 [0x718A, 0x672C, 0x770C, 0x718A, 0x672C]),
    (''742'', utf8 [0x718A, 0x672C, 0x770C, 0x7403, 0x78E8]),
    (''743'', utf8 [0x718A, 0x672C, 0x770C, 0x5929, 0x8349, 0x30FB, 0x82A6, 0x5317]),
    (''750'', utf8 [0x5927, 0x5206, 0x770C, 0x5317, 0x90E8]),
    (''751'', utf8 [0x5927, 0x5206, 0x770C, 0x4E2D, 0x90E8]),
    (''752'', utf8 [0x5927, 0x5206, 0x770C, 0x5357, 0x90E8]),
    (''753'', utf8 [0x5927, 0x5206, 0x770C, 0x897F, 0x90E8]),
    (''760'', utf8 [0x5BAE, 0x5D0E, 0x770C, 0x5317, 0x90E8, 0x5E73, 0x91CE, 0x90E8]),
    (''761'', utf8 [0x5BAE, 0x5D0E, 0x770C, 0x5317, 0x90E8, 0x5C71, 0x6CBF, 0x3044]),
    (''762'', utf8 [0x5BAE, 0x5D0E, 0x770C, 0x5357, 0x90E8, 0x5E73, 0x91CE, 0x90E8]),
    (''763'', utf8 [0x5BAE, 0x5D0E, 0x770C, 0x5357, 0x90E8, 0x5C71, 0x6CBF, 0x3044]),
    (''770'', utf8 [0x9E7F, 0x5150, 0x5CF6, 0x770C, 0x85A9, 0x6469]),
    (''771'', utf8 [0x9E7F, 0x5150, 0x5CF6, 0x770C, 0x5927, 0x9685]),
    (''774'', utf8 [0x9E7F, 0x5150, 0x5CF6, 0x770C, 0x5341, 0x5CF6, 0x6751]),
    (''775'', utf8 [0x9E7F, 0x5150, 0x5CF6, 0x770C, 0x7511, 0x5CF6]),
    (''776'', utf8 [0x9E7F, 0x5150, 0x5CF6, 0x770C, 0x7A2E, 0x5B50, 0x5CF6]),
    (''777'', utf8 [0x9E7F, 0x5150, 0x5CF6, 0x770C, 0x5C4B, 0x4E45, 0x5CF6]),
    (''778'', utf8 [0x9E7F, 0x5150, 0x5CF6, 0x770C, 0x5944, 0x7F8E, 0x5317, 0x90E8]),
    (''779'', utf8 [0x9E7F, 0x5150, 0x5CF6, 0x770C, 0x5944, 0x7F8E, 0x5357, 0x90E8]),
    (''800'', utf8 [0x6C96, 0x7E04, 0x770C, 0x672C, 0x5CF6, 0x5317, 0x90E8]),
    (''801'', utf8 [0x6C96, 0x7E04, 0x770C, 0x672C, 0x5CF6, 0x4E2D, 0x5357, 0x90E8]),
    (''802'', utf8 [0x6C96, 0x7E04, 0x770C, 0x4E45, 0x7C73, 0x5CF6]),
    (''803'', utf8 [0x6C96, 0x7E04, 0x770C, 0x5927, 0x6771, 0x5CF6]),
    (''804'', utf8 [0x6C96, 0x7E04, 0x770C, 0x5BAE, 0x53E4, 0x5CF6]),
    (''805'', utf8 [0x6C96, 0x7E04, 0x770C, 0x77F3, 0x57A3, 0x5CF6]),
    (''806'', utf8 [0x6C96, 0x7E04, 0x770C, 0x4E0E, 0x90A3, 0x56FD, 0x5CF6]),
    (''807'', utf8 [0x6C96, 0x7E04, 0x770C, 0x897F, 0x8868, 0x5CF6])]"

definition AreaCode :: table where
  "AreaCode = AreaCode_1 @ AreaCode_2"

end
