(* ===== verification/Decoder.thy ===== *)
theory Decoder
  imports Regex Tables "HOL-Library.AList"
begin

text \<open>
  \<open>internal/decoder/decoder.go\<close>: the telegram parser.  \<open>Telegram\<close> and \<open>EBIEntry\<close> are records with the
  source's fields; the three \<open>float64\<close> fields are integers divided by 10 and are kept as that integer
  (the comment at \<open>fmt_1f\<close> says why nothing is lost).  Each \<open>try\<close> function is a function to an option:
  \<open>None\<close> where it returns false, the updated telegram where it returns true.  The map \<open>EBI\<close> is an
  association list without duplicate keys, empty where the Go map is nil.
\<close>


section \<open>Data\<close>

record ebi_entry =
  ename :: string
  eshindo1 :: string
  eshindo1_code :: string
  eshindo2 :: string
  eshindo2_code :: string
  etime :: string
  eis_warnded :: string
  eis_warnded_code :: string
  earrive :: string
  earrive_code :: string

record telegram =
  code_type :: string
  code :: string
  section_text :: string
  section_code :: string
  msg_type :: string
  msg_type_code :: int
  warn_time :: string
  command_code :: string
  eq_time :: string
  eq_id :: string
  warn_type :: string
  warn_code :: string
  ncn_type :: int
  warn_num :: int
  center_code :: string
  center_name :: string
  center_lat :: int  \<comment> \<open>tenths\<close>
  center_lng :: int  \<comment> \<open>tenths\<close>
  center_depth :: int
  magnitude :: int  \<comment> \<open>tenths\<close>
  shindo :: string
  shindo_code :: string
  center_accurate_code :: string
  center_accurate :: string
  depth_accurate_code :: string
  depth_accurate :: string
  magnitude_accurate_code :: string
  magnitude_accurate :: string
  is_sea_code :: string
  is_sea :: string
  is_warnded :: string
  ebi :: "(string \<times> ebi_entry) list"

definition empty_telegram :: telegram where
  "empty_telegram = \<lparr>code_type = [], code = [], section_text = [], section_code = [], msg_type = [],
     msg_type_code = 0, warn_time = [], command_code = [], eq_time = [], eq_id = [], warn_type = [],
     warn_code = [], ncn_type = 0, warn_num = 0, center_code = [], center_name = [], center_lat = 0,
     center_lng = 0, center_depth = 0, magnitude = 0, shindo = [], shindo_code = [],
     center_accurate_code = [], center_accurate = [], depth_accurate_code = [], depth_accurate = [],
     magnitude_accurate_code = [], magnitude_accurate = [], is_sea_code = [], is_sea = [],
     is_warnded = [], ebi = []\<rparr>"

definition is_final :: "telegram \<Rightarrow> bool" where
  "is_final t \<longleftrightarrow> 0 < ncn_type t"

definition is_cancellation :: "telegram \<Rightarrow> bool" where
  "is_cancellation t \<longleftrightarrow> msg_type_code t = 10"


section \<open>Patterns\<close>

definition headerRE :: rx where
  "headerRE = rseq [Grp (exactly 2 is_digit), Lit '' '', Grp (exactly 2 is_digit), Lit '' '',
     Grp (exactly 2 is_digit), Lit '' '', Grp (exactly 12 is_digit), Lit '' C'',
     Grp (exactly 2 is_digit)]"

definition eqTimeRE :: rx where
  "eqTimeRE = rseq [Bol, Grp (exactly 12 is_digit)]"

definition ndRE :: rx where
  "ndRE = rseq [Lit ''ND'', Grp (exactly 14 is_digit), Lit '' '', Grp (Rep upper 1 None True),
     Grp (Rep is_digit 1 None True)]"

definition digit_slash :: "char \<Rightarrow> bool" where
  "digit_slash c \<longleftrightarrow> is_digit c \<or> c = CHR ''/''"

definition hypocenterRE :: rx where
  "hypocenterRE = rseq [Grp (exactly 3 digit_slash), Lit '' N'', Grp (exactly 3 digit_slash),
     Lit '' E'', Grp (exactly 4 digit_slash), Lit '' '', Grp (exactly 3 digit_slash), Lit '' '',
     Grp (exactly 2 digit_slash), Lit '' '', Grp (exactly 2 (one_of ''01234567-+/'')),
     Lit '' RK'', Grp (exactly 5 digit_slash), Lit '' RT'', Grp (exactly 5 digit_slash),
     Lit '' RC'', Grp (exactly 5 digit_slash)]"

definition ebiRE :: rx where
  "ebiRE = rseq [Grp (exactly 3 is_digit), Lit '' S'', Grp (exactly 2 (one_of ''01234567-+'')),
     Grp (exactly 2 (one_of ''01234567-+/'')), Lit '' '', Grp (exactly 6 digit_slash), Lit '' '',
     Grp (exactly 2 (one_of ''01''))]"


section \<open>Decoding\<close>

text \<open>\<open>strings.FieldsFunc\<close>: the maximal runs of bytes that are no separators.\<close>

function fields_func :: "(char \<Rightarrow> bool) \<Rightarrow> string \<Rightarrow> string list" where
  "fields_func f s =
     (let s' = dropWhile f s
      in if s' = [] then []
         else takeWhile (\<lambda>c. \<not> f c) s' # fields_func f (dropWhile (\<lambda>c. \<not> f c) s'))"
  by pat_completeness auto
termination
proof (relation "measure (\<lambda>(f, s). length s)")
  fix f :: "char \<Rightarrow> bool" and s s' :: string
  assume "s' = dropWhile f s" "s' \<noteq> []"
  then have "\<not> f (hd s')" by (metis hd_dropWhile)
  with \<open>s' \<noteq> []\<close> have "length (dropWhile (\<lambda>c. \<not> f c) s') < length s'"
    by (cases s') (auto simp: length_dropWhile_le less_Suc_eq_le)
  also have "\<dots> \<le> length s" using \<open>s' = dropWhile f s\<close> by (simp add: length_dropWhile_le)
  finally show "((f, dropWhile (\<lambda>c. \<not> f c) s'), f, s) \<in> measure (\<lambda>(f, s). length s)" by simp
qed simp

declare fields_func.simps [simp del]

definition split_lines :: "string \<Rightarrow> string list" where
  "split_lines s = fields_func (\<lambda>c. c = cr \<or> c = nl) s"

definition char_at :: "string \<Rightarrow> nat \<Rightarrow> string" where
  "char_at s i = (if i < length s then [s ! i] else [])"

definition parse_int_or_zero :: "string \<Rightarrow> int" where
  "parse_int_or_zero s = (case atoi (trim_space s) of None \<Rightarrow> 0 | Some n \<Rightarrow> n)"

definition try_header :: "telegram \<Rightarrow> string \<Rightarrow> telegram option" where
  "try_header t line =
     (case submatch headerRE line of
        None \<Rightarrow> None
      | Some m \<Rightarrow> Some (t\<lparr>code := m ! 0, code_type := lookup CodeType (m ! 0),
          section_code := m ! 1, section_text := lookup Section (m ! 1),
          msg_type_code := parse_int_or_zero (m ! 2), msg_type := lookup MsgType (m ! 2),
          warn_time := m ! 3, command_code := m ! 4\<rparr>))"

definition try_eq_time :: "telegram \<Rightarrow> string \<Rightarrow> telegram option" where
  "try_eq_time t line =
     (case submatch eqTimeRE line of None \<Rightarrow> None | Some m \<Rightarrow> Some (t\<lparr>eq_time := m ! 0\<rparr>))"

definition try_nd :: "telegram \<Rightarrow> string \<Rightarrow> telegram option" where
  "try_nd t line =
     (case submatch ndRE line of
        None \<Rightarrow> None
      | Some m \<Rightarrow>
          let t1 = t\<lparr>eq_id := m ! 0, warn_code := m ! 1, warn_type := lookup WarnType (m ! 1)\<rparr>;
              trailing = m ! 2;
              t2 = t1\<lparr>ncn_type := parse_int_or_zero (take 1 trailing)\<rparr>
          in Some
            (if 3 \<le> length trailing then t2\<lparr>warn_num := parse_int_or_zero (take 2 (drop 1 trailing))\<rparr>
             else if 1 < length trailing then t2\<lparr>warn_num := parse_int_or_zero (drop 1 trailing)\<rparr>
             else t2))"

definition try_hypocenter :: "telegram \<Rightarrow> string \<Rightarrow> telegram option" where
  "try_hypocenter t line =
     (case submatch hypocenterRE line of
        None \<Rightarrow> None
      | Some m \<Rightarrow>
          let rk = m ! 6; rt = m ! 7
          in Some (t\<lparr>center_code := m ! 0, center_name := lookup EpicenterCode (m ! 0),
            center_lat := parse_int_or_zero (m ! 1), center_lng := parse_int_or_zero (m ! 2),
            center_depth := parse_int_or_zero (m ! 3), magnitude := parse_int_or_zero (m ! 4),
            shindo_code := m ! 5, shindo := lookup Shindo (m ! 5),
            center_accurate_code := char_at rk 0, center_accurate := lookup RK1 (char_at rk 0),
            depth_accurate_code := char_at rk 1, depth_accurate := lookup RK2 (char_at rk 1),
            magnitude_accurate_code := char_at rk 2, magnitude_accurate := lookup RK3 (char_at rk 2),
            is_sea_code := char_at rt 0, is_sea := lookup RT1 (char_at rt 0),
            is_warnded := char_at rt 1\<rparr>))"

definition ebi_of_match :: "string list \<Rightarrow> ebi_entry" where
  "ebi_of_match m = \<lparr>ename = lookup AreaCode (m ! 0), eshindo1 = lookup Shindo (m ! 1),
     eshindo1_code = m ! 1, eshindo2 = lookup Shindo (m ! 2), eshindo2_code = m ! 2, etime = m ! 3,
     eis_warnded = lookup EBIY1 (char_at (m ! 4) 0), eis_warnded_code = char_at (m ! 4) 0,
     earrive = lookup EBIY2 (char_at (m ! 4) 1), earrive_code = char_at (m ! 4) 1\<rparr>"

definition try_ebi :: "telegram \<Rightarrow> string \<Rightarrow> telegram option" where
  "try_ebi t line =
     (let ms = submatch_all ebiRE line
      in if ms = [] then None
         else Some (t\<lparr>ebi := foldl (\<lambda>m x. AList.update (x ! 0) (ebi_of_match x) m) (ebi t) ms\<rparr>))"

text \<open>The \<open>switch\<close> of the loop: at most one of the five applies.\<close>

definition decode_line :: "telegram \<Rightarrow> string \<Rightarrow> telegram" where
  "decode_line t line =
     (case try_header t line of Some t' \<Rightarrow> t' | None \<Rightarrow>
     (case try_eq_time t line of Some t' \<Rightarrow> t' | None \<Rightarrow>
     (case try_nd t line of Some t' \<Rightarrow> t' | None \<Rightarrow>
     (case try_hypocenter t line of Some t' \<Rightarrow> t' | None \<Rightarrow>
     (case try_ebi t line of Some t' \<Rightarrow> t' | None \<Rightarrow> t)))))"

definition decode :: "bytes \<Rightarrow> telegram" where
  "decode raw = foldl decode_line empty_telegram (split_lines raw)"


section \<open>What a decoded telegram looks like\<close>

lemma digit_slash_graphic: "digit_slash c \<Longrightarrow> graphic c"
  by (auto simp: digit_slash_def graphic_def is_digit_def)

lemma parse_digit_slash_bound:
  assumes "list_all digit_slash w" "length w \<le> n" "n \<le> 18"
  shows "0 \<le> parse_int_or_zero w \<and> parse_int_or_zero w < 10 ^ n"
proof (cases "w \<noteq> [] \<and> list_all is_digit w")
  case False
  have "atoi w = None"
  proof (cases w)
    case (Cons c r)
    then have "digit_slash c" using assms(1) by simp
    then have "c \<noteq> CHR ''-''" "c \<noteq> CHR ''+''" by (auto simp: digit_slash_def is_digit_def)
    with False Cons show ?thesis by (auto simp: atoi_def)
  qed (simp add: atoi_def)
  moreover have "trim_space w = w"
    using assms(1) by (cases "w = []") (auto intro!: trim_space_graphic digit_slash_graphic simp: list_all_iff)
  ultimately show ?thesis by (simp add: parse_int_or_zero_def)
next
  case True
  then have "trim_space w = w"
    by (intro trim_space_graphic) (auto simp: list_all_iff)
  moreover have "dec_val w < 10 ^ n"
    using dec_val_bound [of w] True assms(2)
    by (meson less_le_trans one_le_numeral power_increasing)
  moreover have "(10 :: nat) ^ n \<le> 10 ^ 18" using assms(3) by (intro power_increasing) auto
  ultimately show ?thesis
    using True atoi_digits [of w] by (auto simp: parse_int_or_zero_def)
qed

definition opt_len :: "(char \<Rightarrow> bool) \<Rightarrow> nat \<Rightarrow> string \<Rightarrow> bool" where
  "opt_len p n s \<longleftrightarrow> s = [] \<or> list_all p s \<and> length s = n"

definition wf_ebi :: "string \<times> ebi_entry \<Rightarrow> bool" where
  "wf_ebi x \<longleftrightarrow> (case x of (area, e) \<Rightarrow>
     list_all is_digit area \<and> length area = 3 \<and> ename e = lookup AreaCode area
     \<and> length (eshindo1_code e) = 2 \<and> eshindo1 e = lookup Shindo (eshindo1_code e)
     \<and> length (eshindo2_code e) = 2 \<and> eshindo2 e = lookup Shindo (eshindo2_code e)
     \<and> list_all digit_slash (etime e) \<and> length (etime e) = 6
     \<and> eis_warnded_code e \<in> {''0'', ''1''} \<and> earrive_code e \<in> {''0'', ''1''})"

text \<open>Everything the formatters, the archive and the viewer rely on.\<close>

definition wf_telegram :: "telegram \<Rightarrow> bool" where
  "wf_telegram t \<longleftrightarrow>
     opt_len is_digit 2 (code t) \<and> opt_len is_digit 12 (warn_time t) \<and> opt_len is_digit 12 (eq_time t)
     \<and> opt_len is_digit 14 (eq_id t) \<and> list_all upper (warn_code t)
     \<and> 0 \<le> msg_type_code t \<and> msg_type_code t < 100
     \<and> 0 \<le> ncn_type t \<and> ncn_type t < 10 \<and> 0 \<le> warn_num t \<and> warn_num t < 100
     \<and> opt_len digit_slash 3 (center_code t)
     \<and> 0 \<le> center_lat t \<and> center_lat t < 1000 \<and> 0 \<le> center_lng t \<and> center_lng t < 10000
     \<and> 0 \<le> center_depth t \<and> center_depth t < 1000 \<and> 0 \<le> magnitude t \<and> magnitude t < 100
     \<and> code_type t = lookup CodeType (code t) \<and> section_text t = lookup Section (section_code t)
     \<and> warn_type t = lookup WarnType (warn_code t)
     \<and> center_name t = lookup EpicenterCode (center_code t) \<and> shindo t = lookup Shindo (shindo_code t)
     \<and> center_accurate t = lookup RK1 (center_accurate_code t)
     \<and> depth_accurate t = lookup RK2 (depth_accurate_code t)
     \<and> magnitude_accurate t = lookup RK3 (magnitude_accurate_code t)
     \<and> is_sea t = lookup RT1 (is_sea_code t)
     \<and> distinct (map fst (ebi t)) \<and> list_all wf_ebi (ebi t)"

text \<open>No table has an entry for the empty code.\<close>

lemma lookup_NilI: "list_all (\<lambda>x. fst x \<noteq> []) t \<Longrightarrow> lookup t [] = []"
  by (induction t) (auto simp: lookup_def)

lemma long_table_keys:
  "list_all (\<lambda>x. fst x \<noteq> []) EpicenterCode_1" "list_all (\<lambda>x. fst x \<noteq> []) EpicenterCode_2"
  "list_all (\<lambda>x. fst x \<noteq> []) EpicenterCode_3" "list_all (\<lambda>x. fst x \<noteq> []) AreaCode_1"
  "list_all (\<lambda>x. fst x \<noteq> []) AreaCode_2"
  by (simp_all only: EpicenterCode_1_def EpicenterCode_2_def EpicenterCode_3_def AreaCode_1_def
      AreaCode_2_def list.pred_inject fst_conv list.distinct simp_thms)

lemma lookup_Nil [simp]:
  "lookup CodeType [] = []" "lookup Section [] = []" "lookup WarnType [] = []" "lookup Shindo [] = []"
  "lookup RK1 [] = []" "lookup RK2 [] = []" "lookup RK3 [] = []" "lookup RT1 [] = []"
  "lookup EpicenterCode [] = []" "lookup AreaCode [] = []"
  by (rule lookup_NilI; simp add: CodeType_def Section_def WarnType_def Shindo_def RK1_def RK2_def
      RK3_def RT1_def EpicenterCode_def AreaCode_def long_table_keys)+

lemmas pattern_defs = headerRE_def eqTimeRE_def ndRE_def hypocenterRE_def ebiRE_def

lemma group_preds_header: "groups_ok headerRE m \<Longrightarrow> \<exists>a b c d e. m = [a, b, c, d, e]
    \<and> list_all is_digit a \<and> length a = 2 \<and> list_all is_digit c \<and> length c = 2
    \<and> list_all is_digit d \<and> length d = 12"
  by (auto simp: groups_ok_def headerRE_def list_all2_Cons1)

lemma group_preds_eq_time: "groups_ok eqTimeRE m \<Longrightarrow> \<exists>a. m = [a] \<and> list_all is_digit a \<and> length a = 12"
  by (auto simp: groups_ok_def eqTimeRE_def list_all2_Cons1)

lemma group_preds_nd: "groups_ok ndRE m \<Longrightarrow> \<exists>a b c. m = [a, b, c]
    \<and> list_all is_digit a \<and> length a = 14 \<and> list_all upper b \<and> list_all is_digit c \<and> 1 \<le> length c"
  by (auto simp: groups_ok_def ndRE_def list_all2_Cons1)

lemma group_preds_hypocenter: "groups_ok hypocenterRE m \<Longrightarrow> \<exists>a b c d e f g h i.
    m = [a, b, c, d, e, f, g, h, i] \<and> list_all digit_slash a \<and> length a = 3
    \<and> list_all digit_slash b \<and> length b = 3 \<and> list_all digit_slash c \<and> length c = 4
    \<and> list_all digit_slash d \<and> length d = 3 \<and> list_all digit_slash e \<and> length e = 2"
  by (auto simp: groups_ok_def hypocenterRE_def list_all2_Cons1)

lemma group_preds_ebi: "groups_ok ebiRE m \<Longrightarrow> \<exists>a b c d e. m = [a, b, c, d, e]
    \<and> list_all is_digit a \<and> length a = 3 \<and> length b = 2 \<and> length c = 2
    \<and> list_all digit_slash d \<and> length d = 6 \<and> list_all (one_of ''01'') e \<and> length e = 2"
  by (auto simp: groups_ok_def ebiRE_def list_all2_Cons1)

lemma digits_digit_slash: "list_all is_digit w \<Longrightarrow> list_all digit_slash w"
  by (auto simp: list_all_iff digit_slash_def)

lemma parse_bounds:
  "list_all digit_slash w \<Longrightarrow> length w \<le> 1 \<Longrightarrow> 0 \<le> parse_int_or_zero w \<and> parse_int_or_zero w < 10"
  "list_all digit_slash w \<Longrightarrow> length w \<le> 2 \<Longrightarrow> 0 \<le> parse_int_or_zero w \<and> parse_int_or_zero w < 100"
  "list_all digit_slash w \<Longrightarrow> length w \<le> 3 \<Longrightarrow> 0 \<le> parse_int_or_zero w \<and> parse_int_or_zero w < 1000"
  "list_all digit_slash w \<Longrightarrow> length w \<le> 4 \<Longrightarrow> 0 \<le> parse_int_or_zero w \<and> parse_int_or_zero w < 10000"
  using parse_digit_slash_bound [of w 1] parse_digit_slash_bound [of w 2]
    parse_digit_slash_bound [of w 3] parse_digit_slash_bound [of w 4]
  by simp_all

lemma wf_empty: "wf_telegram empty_telegram"
  by (simp add: wf_telegram_def empty_telegram_def opt_len_def)

lemma opt_lenI: "list_all p s \<Longrightarrow> length s = n \<Longrightarrow> opt_len p n s"
  by (simp add: opt_len_def)

lemma wf_try_header:
  assumes "wf_telegram t" "try_header t l = Some t'"
  shows "wf_telegram t'"
proof -
  obtain m where m: "submatch headerRE l = Some m"
    using assms(2) by (auto simp: try_header_def split: option.splits)
  from group_preds_header [OF submatch_groups [OF m]] obtain a b c d e
    where ms: "m = [a, b, c, d, e]" "opt_len is_digit 2 a" "opt_len is_digit 12 d"
      and c: "list_all digit_slash c" "length c \<le> 2"
    by (elim exE conjE) (simp add: opt_lenI digits_digit_slash)
  have t': "t' = t\<lparr>code := a, code_type := lookup CodeType a, section_code := b,
      section_text := lookup Section b, msg_type_code := parse_int_or_zero c,
      msg_type := lookup MsgType c, warn_time := d, command_code := e\<rparr>"
    using assms(2) m ms(1) by (simp add: try_header_def)
  show ?thesis using assms(1) ms(2,3) parse_bounds(2) [OF c] by (simp add: t' wf_telegram_def)
qed

lemma wf_try_eq_time:
  assumes "wf_telegram t" "try_eq_time t l = Some t'"
  shows "wf_telegram t'"
proof -
  obtain m where m: "submatch eqTimeRE l = Some m"
    using assms(2) by (auto simp: try_eq_time_def split: option.splits)
  then obtain a where "m = [a]" "opt_len is_digit 12 a"
    by (auto dest!: submatch_groups group_preds_eq_time intro: opt_lenI)
  then show ?thesis using assms m by (auto simp: try_eq_time_def wf_telegram_def)
qed

lemma list_all_take_drop: "list_all p w \<Longrightarrow> list_all p (take n w) \<and> list_all p (drop n w)"
  by (auto simp: list_all_iff dest: in_set_takeD in_set_dropD)

lemma wf_try_nd:
  assumes "wf_telegram t" "try_nd t l = Some t'"
  shows "wf_telegram t'"
proof -
  obtain m where m: "submatch ndRE l = Some m"
    using assms(2) by (auto simp: try_nd_def split: option.splits)
  then obtain a b c where ms: "m = [a, b, c]" "opt_len is_digit 14 a" "list_all upper b"
    and c: "list_all digit_slash c"
    by (auto dest!: submatch_groups group_preds_nd intro: opt_lenI digits_digit_slash)
  have 1: "0 \<le> parse_int_or_zero (take 1 c) \<and> parse_int_or_zero (take 1 c) < 10"
    using c by (intro parse_bounds(1)) (auto simp: list_all_take_drop)
  have 2: "0 \<le> parse_int_or_zero (take 2 (drop 1 c)) \<and> parse_int_or_zero (take 2 (drop 1 c)) < 100"
    using c by (intro parse_bounds(2)) (auto simp: list_all_take_drop)
  have 3: "length c < 3 \<Longrightarrow> 0 \<le> parse_int_or_zero (drop 1 c) \<and> parse_int_or_zero (drop 1 c) < 100"
    using c by (intro parse_bounds(2)) (auto simp: list_all_take_drop)
  have t': "t' = (let t2 = t\<lparr>eq_id := a, warn_code := b, warn_type := lookup WarnType b,
        ncn_type := parse_int_or_zero (take 1 c)\<rparr>
      in if 3 \<le> length c then t2\<lparr>warn_num := parse_int_or_zero (take 2 (drop 1 c))\<rparr>
         else if 1 < length c then t2\<lparr>warn_num := parse_int_or_zero (drop 1 c)\<rparr> else t2)"
    using assms(2) m ms(1) by (simp add: try_nd_def Let_def)
  have 4: "\<not> 1 < length c \<Longrightarrow> 0 \<le> parse_int_or_zero c \<and> parse_int_or_zero c < 10"
    using 1 by simp
  show ?thesis using assms(1) ms(2,3) 1 2 3 4 by (simp add: t' wf_telegram_def Let_def)
qed

lemma wf_try_hypocenter:
  assumes "wf_telegram t" "try_hypocenter t l = Some t'"
  shows "wf_telegram t'"
proof -
  obtain m where m: "submatch hypocenterRE l = Some m"
    using assms(2) by (auto simp: try_hypocenter_def split: option.splits)
  from group_preds_hypocenter [OF submatch_groups [OF m]] obtain a b c d e f g h i
    where ms: "m = [a, b, c, d, e, f, g, h, i]" "opt_len digit_slash 3 a"
    and f: "list_all digit_slash b" "length b \<le> 3" "list_all digit_slash c" "length c \<le> 4"
      "list_all digit_slash d" "length d \<le> 3" "list_all digit_slash e" "length e \<le> 2"
    by (elim exE conjE) (simp add: opt_lenI)
  have "t' = t\<lparr>center_code := a, center_name := lookup EpicenterCode a,
      center_lat := parse_int_or_zero b, center_lng := parse_int_or_zero c,
      center_depth := parse_int_or_zero d, magnitude := parse_int_or_zero e,
      shindo_code := f, shindo := lookup Shindo f,
      center_accurate_code := char_at g 0, center_accurate := lookup RK1 (char_at g 0),
      depth_accurate_code := char_at g 1, depth_accurate := lookup RK2 (char_at g 1),
      magnitude_accurate_code := char_at g 2, magnitude_accurate := lookup RK3 (char_at g 2),
      is_sea_code := char_at h 0, is_sea := lookup RT1 (char_at h 0), is_warnded := char_at h 1\<rparr>"
    using assms(2) m ms(1) by (simp add: try_hypocenter_def Let_def)
  then show ?thesis
    using assms(1) ms(2) parse_bounds(3) [OF f(1,2)] parse_bounds(4) [OF f(3,4)]
      parse_bounds(3) [OF f(5,6)] parse_bounds(2) [OF f(7,8)]
    by (simp add: wf_telegram_def)
qed

lemma wf_ebi_of_match: "groups_ok ebiRE m \<Longrightarrow> wf_ebi (m ! 0, ebi_of_match m)"
proof (drule group_preds_ebi, clarify)
  fix a b c d e :: string
  assume "list_all (one_of ''01'') e" "length e = 2"
  then obtain x y where e: "e = [x, y]" "x \<in> {CHR ''0'', CHR ''1''}" "y \<in> {CHR ''0'', CHR ''1''}"
    by (auto simp: numeral_2_eq_2 length_Suc_conv one_of_def)
  assume "list_all is_digit a" "length a = 3" "length b = 2" "length c = 2"
    "list_all digit_slash d" "length d = 6"
  then show "wf_ebi ([a, b, c, d, e] ! 0, ebi_of_match [a, b, c, d, e])"
    using e by (auto simp: wf_ebi_def ebi_of_match_def char_at_def)
qed

lemma set_AList_update: "set (AList.update k e m) \<subseteq> insert (k, e) (set m)"
  by (induction m) auto

lemma wf_ebi_update:
  "distinct (map fst m) \<and> list_all wf_ebi m \<Longrightarrow> wf_ebi (k, e) \<Longrightarrow>
     distinct (map fst (AList.update k e m)) \<and> list_all wf_ebi (AList.update k e m)"
  using set_AList_update by (fastforce simp: list_all_iff distinct_update)

lemma wf_try_ebi:
  assumes "wf_telegram t" "try_ebi t l = Some t'"
  shows "wf_telegram t'"
proof -
  have "distinct (map fst (foldl (\<lambda>m x. AList.update (x ! 0) (ebi_of_match x) m) al ms))
      \<and> list_all wf_ebi (foldl (\<lambda>m x. AList.update (x ! 0) (ebi_of_match x) m) al ms)"
    if "distinct (map fst al) \<and> list_all wf_ebi al" "\<forall>x \<in> set ms. groups_ok ebiRE x" for al ms
    using that
  proof (induction ms arbitrary: al)
    case (Cons m ms)
    then have "distinct (map fst (AList.update (m ! 0) (ebi_of_match m) al))
        \<and> list_all wf_ebi (AList.update (m ! 0) (ebi_of_match m) al)"
      by (intro wf_ebi_update wf_ebi_of_match) auto
    then show ?case using Cons.prems(2) by (simp add: Cons.IH)
  qed simp
  from this [of "ebi t" "submatch_all ebiRE l"] assms submatch_all_groups show ?thesis
    by (auto simp: try_ebi_def wf_telegram_def Let_def split: if_splits)
qed

lemma wf_decode_line: "wf_telegram t \<Longrightarrow> wf_telegram (decode_line t l)"
  unfolding decode_line_def
  by (auto split: option.splits
      dest: wf_try_header wf_try_eq_time wf_try_nd wf_try_hypocenter wf_try_ebi)

lemma wf_foldl_decode: "wf_telegram t \<Longrightarrow> wf_telegram (foldl decode_line t ls)"
  by (induction ls arbitrary: t) (auto simp: wf_decode_line)

lemma wf_decode: "wf_telegram (decode raw)"
  unfolding decode_def by (rule wf_foldl_decode [OF wf_empty])

end
