(* ===== verification/Limited_Gate.thy ===== *)
theory Limited_Gate
  imports Decoder
begin

text \<open>
  The contract shared by the two dispatchers (\<open>internal/notify/dispatcher.go\<close> for Slack hooks,
  \<open>internal/irc/dispatcher.go\<close> for IRC channels): the destinations of the "all" tier get every telegram,
  those of the "limited" tier get it when the gate fires.  The dispatcher's one piece of state is the
  eq_id it has seen last.
\<close>


section \<open>The gate\<close>

definition fires :: "string \<Rightarrow> telegram \<Rightarrow> bool" where
  "fires prev t \<longleftrightarrow> eq_id t \<noteq> prev \<or> is_cancellation t \<or> is_final t"

text \<open>Whether the gate fires at position \<open>i\<close> of a sequence, said without any state.\<close>

definition limited_at :: "string \<Rightarrow> telegram list \<Rightarrow> nat \<Rightarrow> bool" where
  "limited_at prev ts i \<longleftrightarrow> fires (if i = 0 then prev else eq_id (ts ! (i - 1))) (ts ! i)"

text \<open>A dispatcher run over a sequence of telegrams.\<close>

fun select_all :: "('d \<Rightarrow> telegram \<Rightarrow> 'r \<times> 'd) \<Rightarrow> 'd \<Rightarrow> telegram list \<Rightarrow> 'r list" where
  "select_all sel d [] = []"
| "select_all sel d (t # ts) = fst (sel d t) # select_all sel (snd (sel d t)) ts"

lemma length_select_all [simp]: "length (select_all sel d ts) = length ts"
  by (induction ts arbitrary: d) auto

lemma limited_at_Suc: "limited_at prev (t # ts) (Suc i) = limited_at (eq_id t) ts i"
  by (cases i) (auto simp: limited_at_def)


section \<open>The contract\<close>

locale limited_gate =
  fixes sel :: "'d \<Rightarrow> telegram \<Rightarrow> 'r \<times> 'd"
    and seen :: "'d \<Rightarrow> string"
    and config :: "'d \<Rightarrow> 'c"
    and answer :: "'c \<Rightarrow> bool \<Rightarrow> telegram \<Rightarrow> 'r"
  assumes sel_answer: "fst (sel d t) = answer (config d) (fires (seen d) t) t"
    and sel_seen: "seen (snd (sel d t)) = (if fires (seen d) t then eq_id t else seen d)"
    and sel_config: "config (snd (sel d t)) = config d"
begin

text \<open>Where the gate stays shut the telegram's eq_id is the one seen last already.\<close>

lemma seen_is_last: "seen (snd (sel d t)) = eq_id t"
  by (auto simp: sel_seen fires_def)

lemma select_all_closed_form:
  "select_all sel d ts = map (\<lambda>i. answer (config d) (limited_at (seen d) ts i) (ts ! i)) [0..<length ts]"
proof (induction ts arbitrary: d)
  case (Cons t ts)
  have "[0..<length (t # ts)] = 0 # map Suc [0..<length ts]"
    by (simp add: upt_conv_Cons map_Suc_upt del: upt_Suc)
  then show ?case
    by (simp add: Cons.IH sel_answer sel_config seen_is_last limited_at_Suc comp_def del: upt_Suc)
      (simp add: limited_at_def)
qed simp

text \<open>Within the reports of one earthquake, the tier gets the first one and the final or cancelling ones.\<close>

lemma one_quake:
  assumes "\<forall>t \<in> set ts. eq_id t = e" "i < length ts"
  shows "limited_at prev ts i \<longleftrightarrow> (i = 0 \<and> prev \<noteq> e) \<or> is_cancellation (ts ! i) \<or> is_final (ts ! i)"
proof -
  have "eq_id (ts ! j) = e" if "j < length ts" for j using assms(1) that by simp
  then show ?thesis using assms(2) by (auto simp: limited_at_def fires_def)
qed

end

end
