(* ===== verification/Notify.thy ===== *)
theory Notify
  imports Limited_Gate
begin

text \<open>
  \<open>internal/notify/dispatcher.go\<close>: which Slack hooks a telegram goes to.
\<close>

text \<open>\<open>slack.Hook\<close>, and its label for log and error messages.\<close>

record hook =
  hook_name :: string
  hook_url :: string

definition label :: "hook \<Rightarrow> string" where
  "label h = (if hook_name h \<noteq> [] then hook_name h else hook_url h)"

record dispatcher =
  d_all :: "hook list"
  d_limited :: "hook list"
  d_last :: string

definition new_dispatcher :: "hook list \<Rightarrow> hook list \<Rightarrow> dispatcher" where
  "new_dispatcher all lim = \<lparr>d_all = all, d_limited = lim, d_last = []\<rparr>"

definition hooks_for :: "dispatcher \<Rightarrow> telegram \<Rightarrow> hook list \<times> dispatcher" where
  "hooks_for d t =
     (let hooks = d_all d
      in if eq_id t \<noteq> d_last d \<or> is_cancellation t \<or> is_final t
         then (hooks @ d_limited d, d\<lparr>d_last := eq_id t\<rparr>)
         else (hooks, d))"

interpretation slack: limited_gate hooks_for d_last "\<lambda>d. (d_all d, d_limited d)"
  "\<lambda>(all, lim) f _. all @ (if f then lim else [])"
  by unfold_locales (auto simp: hooks_for_def fires_def Let_def)

text \<open>Over any sequence of telegrams, a dispatcher that has just been made sends the \<open>i\<close>-th one to
  every "all" hook, and also to the "limited" hooks exactly where its eq_id differs from that of the
  telegram just before it (or from the empty id, for the first), or it is a cancellation, or a final or
  amended report.\<close>

lemma slack_tiers:
  "select_all hooks_for (new_dispatcher all lim) ts =
     map (\<lambda>i. all @ (if limited_at [] ts i then lim else [])) [0..<length ts]"
  using slack.select_all_closed_form [of "new_dispatcher all lim" ts]
  by (simp add: new_dispatcher_def)

text \<open>"New earthquake" means "not the earthquake of the telegram just before": while reports of two
  earthquakes alternate, every one of them reaches the "limited" hooks.\<close>

lemma interleaved_quakes_refire:
  assumes "eq_id a \<noteq> eq_id b" "eq_id a \<noteq> []"
  shows "select_all hooks_for (new_dispatcher all lim) [a, b, a, b] = replicate 4 (all @ lim)"
  using assms by (simp add: new_dispatcher_def hooks_for_def Let_def numeral_eq_Suc)

end
