(* ===== verification/Irc_Queue.thy ===== *)
theory Irc_Queue
  imports Prelude
begin

text \<open>
  \<open>internal/irc/queue.go\<close>: the queue of pending notices of one IRC connection.  \<open>queue\<close> is the struct
  without its lock and its condition variable; each method body runs under the lock and is one function.
  The condition variable comes back at the end, where the wake-ups are a step relation.
\<close>


section \<open>Data\<close>

datatype priority = PriorityNormal | PriorityFinal | PriorityCancellation

text \<open>\<open>Priority\<close> is an \<open>int\<close> in the source; the constants are 0, 1 and 2 and ordered so.\<close>

fun priority_rank :: "priority \<Rightarrow> nat" where
  "priority_rank PriorityNormal = 0"
| "priority_rank PriorityFinal = 1"
| "priority_rank PriorityCancellation = 2"

lemma priority_rank_inject: "priority_rank a = priority_rank b \<longleftrightarrow> a = b"
  by (cases a; cases b) auto

instantiation priority :: linorder
begin

definition less_eq_priority :: "priority \<Rightarrow> priority \<Rightarrow> bool" where
  "less_eq_priority a b \<longleftrightarrow> priority_rank a \<le> priority_rank b"

definition less_priority :: "priority \<Rightarrow> priority \<Rightarrow> bool" where
  "less_priority a b \<longleftrightarrow> priority_rank a < priority_rank b"

instance
  by standard (auto simp: less_eq_priority_def less_priority_def priority_rank_inject)

end

lemma priority_least [simp]: "PriorityNormal \<le> p"
  by (simp add: less_eq_priority_def)

lemma priority_cases_le [simp]:
  "PriorityFinal \<le> p \<longleftrightarrow> p \<noteq> PriorityNormal" "PriorityCancellation \<le> p \<longleftrightarrow> p = PriorityCancellation"
  "p \<le> PriorityNormal \<longleftrightarrow> p = PriorityNormal" "p \<le> PriorityCancellation"
  by (cases p; simp add: less_eq_priority_def)+

record notice =
  n_eq :: string
  n_channels :: "string list"
  n_text :: string
  n_priority :: priority

definition zero_notice :: notice where
  "zero_notice = \<lparr>n_eq = [], n_channels = [], n_text = [], n_priority = PriorityNormal\<rparr>"

record queue =
  q_capacity :: int
  q_order :: "string list"
  q_entries :: "string \<rightharpoonup> notice"
  q_closed :: bool

definition new_queue :: "int \<Rightarrow> queue" where
  "new_queue cap = \<lparr>q_capacity = cap, q_order = [], q_entries = Map.empty, q_closed = False\<rparr>"

text \<open>A Go map read at an absent key gives the zero value.\<close>

definition entry :: "queue \<Rightarrow> string \<Rightarrow> notice" where
  "entry q k = (case q_entries q k of None \<Rightarrow> zero_notice | Some n \<Rightarrow> n)"


section \<open>Operations\<close>

definition remove_at :: "nat \<Rightarrow> queue \<Rightarrow> queue" where
  "remove_at i q =
     q\<lparr>q_entries := (q_entries q)(q_order q ! i := None),
       q_order := take i (q_order q) @ drop (Suc i) (q_order q)\<rparr>"

text \<open>The inner loop: the first index whose entry has the wanted priority.\<close>

fun index_of :: "('a \<Rightarrow> bool) \<Rightarrow> 'a list \<Rightarrow> nat option" where
  "index_of p [] = None"
| "index_of p (x # xs) = (if p x then Some 0 else map_option Suc (index_of p xs))"

fun evict_scan :: "priority list \<Rightarrow> queue \<Rightarrow> queue" where
  "evict_scan [] q = q"
| "evict_scan (w # ws) q =
     (case index_of (\<lambda>k. n_priority (entry q k) = w) (q_order q) of
        Some i \<Rightarrow> remove_at i q
      | None \<Rightarrow> evict_scan ws q)"

definition evict_one :: "queue \<Rightarrow> queue" where
  "evict_one q = evict_scan [PriorityNormal, PriorityFinal, PriorityCancellation] q"

definition enqueue :: "notice \<Rightarrow> queue \<Rightarrow> queue" where
  "enqueue n q =
     (if q_closed q then q
      else if q_entries q (n_eq n) \<noteq> None then q\<lparr>q_entries := (q_entries q)(n_eq n \<mapsto> n)\<rparr>
      else let q1 = (if q_capacity q \<le> int (length (q_order q)) then evict_one q else q)
           in q1\<lparr>q_order := q_order q1 @ [n_eq n], q_entries := (q_entries q1)(n_eq n \<mapsto> n)\<rparr>)"

text \<open>One pass of \<open>Dequeue\<close> under the lock: it would wait, it returns \<open>ok = false\<close>, or it returns a
  notice.\<close>

datatype dequeued = Would_wait | Not_ok | Took notice

definition dequeue :: "queue \<Rightarrow> dequeued \<times> queue" where
  "dequeue q =
     (case q_order q of
        [] \<Rightarrow> (if q_closed q then Not_ok else Would_wait, q)
      | k # ks \<Rightarrow> (Took (entry q k), q\<lparr>q_order := ks, q_entries := (q_entries q)(k := None)\<rparr>))"

definition close_queue :: "queue \<Rightarrow> queue" where
  "close_queue q = q\<lparr>q_closed := True\<rparr>"

definition queue_len :: "queue \<Rightarrow> nat" where
  "queue_len q = length (q_order q)"


section \<open>The abstract queue\<close>

text \<open>What is pending, oldest slot first, and the same operations on that list.\<close>

definition pending :: "queue \<Rightarrow> notice list" where
  "pending q = map (entry q) (q_order q)"

fun remove_first :: "('a \<Rightarrow> bool) \<Rightarrow> 'a list \<Rightarrow> 'a list" where
  "remove_first p [] = []"
| "remove_first p (x # xs) = (if p x then xs else x # remove_first p xs)"

text \<open>The oldest of those with the least priority goes.\<close>

definition spec_evict :: "notice list \<Rightarrow> notice list" where
  "spec_evict ns = remove_first (\<lambda>n. \<forall>m \<in> set ns. n_priority n \<le> n_priority m) ns"

definition spec_enqueue :: "int \<Rightarrow> notice \<Rightarrow> notice list \<Rightarrow> notice list" where
  "spec_enqueue cap n ns =
     (if n_eq n \<in> n_eq ` set ns then map (\<lambda>m. if n_eq m = n_eq n then n else m) ns
      else (if cap \<le> int (length ns) then spec_evict ns else ns) @ [n])"

definition queue_inv :: "queue \<Rightarrow> bool" where
  "queue_inv q \<longleftrightarrow> distinct (q_order q) \<and> dom (q_entries q) = set (q_order q)
     \<and> (\<forall>k \<in> set (q_order q). n_eq (entry q k) = k)"

lemma queue_inv_new: "queue_inv (new_queue cap)"
  by (simp add: queue_inv_def new_queue_def)

lemma pending_eqs: "queue_inv q \<Longrightarrow> map n_eq (pending q) = q_order q"
  by (auto simp: queue_inv_def pending_def intro: map_idI)

lemma distinct_pending: "queue_inv q \<Longrightarrow> distinct (map n_eq (pending q))"
  using pending_eqs [of q] by (simp add: queue_inv_def)

lemma mem_pending: "queue_inv q \<Longrightarrow> k \<in> n_eq ` set (pending q) \<longleftrightarrow> q_entries q k \<noteq> None"
  using pending_eqs [of q] by (auto simp: queue_inv_def simp flip: set_map)

lemma pending_cong:
  "q_order q' = q_order q \<Longrightarrow> (\<And>k. k \<in> set (q_order q) \<Longrightarrow> q_entries q' k = q_entries q k) \<Longrightarrow>
     pending q' = pending q"
  by (simp add: pending_def entry_def)

lemma index_of_Some:
  "index_of p xs = Some i \<Longrightarrow> i < length xs \<and> p (xs ! i) \<and> take i xs @ drop (Suc i) xs = remove_first p xs"
  by (induction xs arbitrary: i) (auto split: if_splits)

lemma index_of_None: "index_of p xs = None \<longleftrightarrow> (\<forall>x \<in> set xs. \<not> p x)"
  by (induction xs) auto

lemma remove_first_map: "remove_first p (map f xs) = map f (remove_first (p \<circ> f) xs)"
  by (induction xs) auto

lemma remove_first_cong: "(\<And>x. x \<in> set xs \<Longrightarrow> p x = r x) \<Longrightarrow> remove_first p xs = remove_first r xs"
  by (induction xs) auto

lemma set_remove_first: "set (remove_first p xs) \<subseteq> set xs"
  by (induction xs) auto

lemma length_remove_first: "\<exists>x \<in> set xs. p x \<Longrightarrow> length xs = Suc (length (remove_first p xs))"
  by (induction xs) auto

lemma remove_at_props:
  assumes "queue_inv q" "i < length (q_order q)"
  shows "queue_inv (remove_at i q)"
    and "pending (remove_at i q) = take i (pending q) @ drop (Suc i) (pending q)"
proof -
  have split: "q_order q = take i (q_order q) @ q_order q ! i # drop (Suc i) (q_order q)"
    using assms(2) by (rule id_take_nth_drop)
  have d: "distinct (take i (q_order q) @ q_order q ! i # drop (Suc i) (q_order q))"
    using assms(1) split by (simp add: queue_inv_def)
  then have other: "k \<in> set (take i (q_order q) @ drop (Suc i) (q_order q)) \<Longrightarrow> k \<noteq> q_order q ! i" for k
    by auto
  have same: "entry (remove_at i q) k = entry q k" if "k \<noteq> q_order q ! i" for k
    using that by (simp add: entry_def remove_at_def)
  have ord: "q_order (remove_at i q) = take i (q_order q) @ drop (Suc i) (q_order q)"
    by (simp add: remove_at_def)
  have "set (take i (q_order q) @ drop (Suc i) (q_order q)) = set (q_order q) - {q_order q ! i}"
    using d split by (metis Diff_insert_absorb distinct.simps(2) distinct_append insert_is_Un
        list.simps(15) not_distinct_conv_prefix set_append Un_insert_right Un_iff)
  moreover have "dom (q_entries (remove_at i q)) = dom (q_entries q) - {q_order q ! i}"
    by (simp add: remove_at_def)
  moreover have "\<forall>k \<in> set (q_order (remove_at i q)). n_eq (entry (remove_at i q) k) = k"
    using assms(1) other same unfolding ord queue_inv_def by (metis Un_iff in_set_dropD in_set_takeD set_append)
  ultimately show "queue_inv (remove_at i q)"
    using assms(1) d ord by (auto simp: queue_inv_def)
  show "pending (remove_at i q) = take i (pending q) @ drop (Suc i) (pending q)"
    unfolding pending_def ord using other same by (auto simp: take_map drop_map)
qed

lemma evict_scan_spec:
  assumes "queue_inv q" "ws = filter (\<lambda>w. w0 \<le> w) [PriorityNormal, PriorityFinal, PriorityCancellation]"
    and "\<forall>n \<in> set (pending q). w0 \<le> n_priority n"
  shows "queue_inv (evict_scan ws q) \<and> pending (evict_scan ws q) = spec_evict (pending q)"
  using assms(2,3)
proof (induction ws arbitrary: w0)
  case Nil
  then show ?case by (cases w0) auto
next
  case (Cons w ws)
  have w: "w0 = w" using Cons.prems(1) by (cases w0) auto
  show ?case
  proof (cases "index_of (\<lambda>k. n_priority (entry q k) = w) (q_order q)")
    case None
    then have ne: "\<forall>n \<in> set (pending q). n_priority n \<noteq> w" by (auto simp: index_of_None pending_def)
    show ?thesis
    proof (cases ws)
      case Nil
      then have "w = PriorityCancellation" using Cons.prems(1) w by (cases w) auto
      then have "pending q = []" using ne Cons.prems(2) w by (cases "pending q") auto
      then show ?thesis using None Nil assms(1) by (simp add: spec_evict_def)
    next
      case (Cons w1 ws1)
      have "w # ws = filter (\<lambda>v. w \<le> v) [PriorityNormal, PriorityFinal, PriorityCancellation]"
        using Cons.prems(1) w by simp
      then have "ws = filter (\<lambda>v. w1 \<le> v) [PriorityNormal, PriorityFinal, PriorityCancellation]"
        and "\<And>p. w \<le> p \<Longrightarrow> p \<noteq> w \<Longrightarrow> w1 \<le> p"
        using Cons by (cases w; simp split: if_splits; metis priority.exhaust priority_cases_le)+
      then show ?thesis using Cons.IH [of w1] None ne Cons.prems(2) w by auto
    qed
  next
    case (Some i)
    note i = index_of_Some [OF Some]
    have "pending (remove_at i q) = take i (pending q) @ drop (Suc i) (pending q)"
      using remove_at_props(2) assms(1) i by blast
    also have "\<dots> = map (entry q) (take i (q_order q) @ drop (Suc i) (q_order q))"
      by (simp add: pending_def take_map drop_map)
    also have "\<dots> = remove_first (\<lambda>n. n_priority n = w) (pending q)"
      using i by (simp add: pending_def remove_first_map comp_def del: map_append)
    also have "\<dots> = spec_evict (pending q)"
      unfolding spec_evict_def
    proof (rule remove_first_cong)
      fix n assume n: "n \<in> set (pending q)"
      have "\<exists>m \<in> set (pending q). n_priority m = w" using i by (auto simp: pending_def)
      then show "(n_priority n = w) = (\<forall>m \<in> set (pending q). n_priority n \<le> n_priority m)"
        using Cons.prems(2) w n by (auto intro: order.antisym)
    qed
    finally show ?thesis using Some remove_at_props(1) assms(1) i by simp
  qed
qed

lemma evict_one_spec:
  "queue_inv q \<Longrightarrow> queue_inv (evict_one q) \<and> pending (evict_one q) = spec_evict (pending q)"
  unfolding evict_one_def by (rule evict_scan_spec [of q _ PriorityNormal]) simp_all

lemma set_spec_evict: "set (spec_evict ns) \<subseteq> set ns"
  by (simp add: spec_evict_def set_remove_first)

lemma least_exists:
  assumes "ns \<noteq> []"
  shows "\<exists>n \<in> set ns. \<forall>m \<in> set ns. n_priority n \<le> n_priority m"
proof -
  have "Min (n_priority ` set ns) \<in> n_priority ` set ns" using assms by (intro Min_in) auto
  then obtain n where "n \<in> set ns" "n_priority n = Min (n_priority ` set ns)" by auto
  then have "\<exists>n \<in> set ns. \<forall>m \<in> set ns. n_priority n \<le> n_priority m"
    by (intro bexI [of _ n]) simp_all
  then show ?thesis .
qed

lemma length_spec_evict: "ns \<noteq> [] \<Longrightarrow> length ns = Suc (length (spec_evict ns))"
  unfolding spec_evict_def by (intro length_remove_first least_exists)

lemma evict_scan_fields [simp]:
  "q_closed (evict_scan ws q) = q_closed q" "q_capacity (evict_scan ws q) = q_capacity q"
  by (induction ws) (auto simp: remove_at_def split: option.splits)

lemma evict_one_fields [simp]:
  "q_closed (evict_one q) = q_closed q" "q_capacity (evict_one q) = q_capacity q"
  by (simp_all only: evict_one_def evict_scan_fields)

lemma append_slot:
  assumes "queue_inv q" "n_eq n \<notin> n_eq ` set (pending q)"
  defines "q' \<equiv> q\<lparr>q_order := q_order q @ [n_eq n], q_entries := (q_entries q)(n_eq n \<mapsto> n)\<rparr>"
  shows "queue_inv q' \<and> pending q' = pending q @ [n]"
proof -
  have new: "n_eq n \<notin> set (q_order q)"
    using assms(1,2) pending_eqs [OF assms(1)] by (metis list.set_map)
  then have "pending q' = pending q @ [n]" by (auto simp: q'_def pending_def entry_def)
  moreover have "queue_inv q'"
    using assms(1) new by (auto simp: queue_inv_def q'_def entry_def)
  ultimately show ?thesis by blast
qed

lemma enqueue_spec:
  assumes "queue_inv q" "\<not> q_closed q"
  shows "queue_inv (enqueue n q) \<and> pending (enqueue n q) = spec_enqueue (q_capacity q) n (pending q)"
proof (cases "q_entries q (n_eq n) = None")
  case False
  let ?q = "q\<lparr>q_entries := (q_entries q)(n_eq n \<mapsto> n)\<rparr>"
  have e: "enqueue n q = ?q" using False assms(2) by (simp add: enqueue_def)
  have "pending ?q = map (\<lambda>m. if n_eq m = n_eq n then n else m) (pending q)"
    using assms(1) by (auto simp: pending_def entry_def queue_inv_def)
  moreover have "queue_inv ?q" using assms(1) False by (auto simp: queue_inv_def entry_def)
  ultimately show ?thesis using e False mem_pending [OF assms(1)] by (simp add: spec_enqueue_def)
next
  case True
  define q1 where "q1 = (if q_capacity q \<le> int (length (q_order q)) then evict_one q else q)"
  have q1: "queue_inv q1"
    "pending q1 = (if q_capacity q \<le> int (length (pending q)) then spec_evict (pending q) else pending q)"
    using evict_one_spec [OF assms(1)] assms(1) by (auto simp: q1_def pending_def)
  have no: "n_eq n \<notin> n_eq ` set (pending q)" using True mem_pending [OF assms(1)] by simp
  then have "n_eq n \<notin> n_eq ` set (pending q1)" using q1(2) set_spec_evict by (auto split: if_splits)
  from append_slot [OF q1(1) this] show ?thesis
    using True assms(2) no q1(2) by (simp add: enqueue_def spec_enqueue_def q1_def Let_def)
qed

lemma enqueue_fields [simp]:
  "q_closed (enqueue n q) = q_closed q" "q_capacity (enqueue n q) = q_capacity q"
  by (simp_all add: enqueue_def Let_def)

lemma enqueue_closed: "q_closed q \<Longrightarrow> enqueue n q = q"
  by (simp add: enqueue_def)

lemma dequeue_spec:
  assumes "queue_inv q"
  shows "queue_inv (snd (dequeue q)) \<and> pending (snd (dequeue q)) = tl (pending q)
    \<and> fst (dequeue q) = (case pending q of n # _ \<Rightarrow> Took n
                          | [] \<Rightarrow> if q_closed q then Not_ok else Would_wait)"
proof (cases "q_order q")
  case Nil
  then show ?thesis using assms by (simp add: dequeue_def pending_def)
next
  case (Cons k ks)
  have "remove_at 0 q = snd (dequeue q)" using Cons by (simp add: dequeue_def remove_at_def)
  then show ?thesis
    using remove_at_props [OF assms, of 0] Cons by (auto simp: dequeue_def pending_def drop_Suc)
qed

lemma dequeue_fields [simp]:
  "q_closed (snd (dequeue q)) = q_closed q" "q_capacity (snd (dequeue q)) = q_capacity q"
  by (simp_all add: dequeue_def split: list.splits)

lemma close_spec [simp]:
  "queue_inv (close_queue q) = queue_inv q" "pending (close_queue q) = pending q"
  "q_closed (close_queue q)" "q_capacity (close_queue q) = q_capacity q"
  by (simp_all add: close_queue_def queue_inv_def pending_def entry_def)

lemma set_spec_enqueue: "set (spec_enqueue cap n ns) \<subseteq> insert n (set ns)"
  using set_spec_evict by (auto simp: spec_enqueue_def)

lemma spec_enqueue_has: "n \<in> set (spec_enqueue cap n ns)"
  by (auto simp: spec_enqueue_def)

lemma spec_enqueue_only:
  assumes "m \<in> set (spec_enqueue cap n ns)" "n_eq m = n_eq n"
  shows "m = n"
proof (cases "n_eq n \<in> n_eq ` set ns")
  case True
  then show ?thesis using assms by (auto simp: spec_enqueue_def split: if_splits)
next
  case False
  then have "m \<in> set ns \<or> m = n"
    using assms(1) set_spec_evict [of ns] by (auto simp: spec_enqueue_def split: if_splits)
  then show ?thesis using False assms(2) by (metis image_eqI)
qed

lemma length_spec_enqueue:
  "int (length ns) \<le> max 1 cap \<Longrightarrow> int (length (spec_enqueue cap n ns)) \<le> max 1 cap"
  by (cases ns) (use length_spec_evict [of ns] in \<open>auto simp: spec_enqueue_def spec_evict_def\<close>)


section \<open>The interface the connection uses\<close>

text \<open>A client puts notices in and takes notices out.  The contract: an invariant that every operation
  keeps, putting in leaves the new notice pending as the only one for its earthquake and adds nothing
  else, taking out gives the head of what is pending.\<close>

locale notice_queue =
  fixes ok :: "'q \<Rightarrow> bool"
    and waiting :: "'q \<Rightarrow> notice list"
    and put :: "notice \<Rightarrow> 'q \<Rightarrow> 'q"
    and get :: "'q \<Rightarrow> notice option \<times> 'q"
  assumes ok_put: "ok q \<Longrightarrow> ok (put n q)"
    and ok_get: "ok q \<Longrightarrow> ok (snd (get q))"
    and put_adds: "ok q \<Longrightarrow> set (waiting (put n q)) \<subseteq> insert n (set (waiting q))"
    and put_has: "ok q \<Longrightarrow> n \<in> set (waiting (put n q))"
    and put_only: "ok q \<Longrightarrow> m \<in> set (waiting (put n q)) \<Longrightarrow> n_eq m = n_eq n \<Longrightarrow> m = n"
    and get_head: "ok q \<Longrightarrow> fst (get q) = (case waiting q of [] \<Rightarrow> None | n # _ \<Rightarrow> Some n)"
    and get_rest: "ok q \<Longrightarrow> waiting (snd (get q)) = tl (waiting q)"

text \<open>A run of a client: what it put in or took out, and what it was given.\<close>

datatype queue_op = Put notice | Get

fun run_ops :: "(notice \<Rightarrow> 'q \<Rightarrow> 'q) \<Rightarrow> ('q \<Rightarrow> notice option \<times> 'q) \<Rightarrow> queue_op list \<Rightarrow> 'q
    \<Rightarrow> notice list \<times> 'q" where
  "run_ops put get [] q = ([], q)"
| "run_ops put get (Put n # ops) q = run_ops put get ops (put n q)"
| "run_ops put get (Get # ops) q =
     (let (r, q1) = get q; (ns, q2) = run_ops put get ops q1
      in ((case r of None \<Rightarrow> ns | Some n \<Rightarrow> n # ns), q2))"

definition puts :: "queue_op list \<Rightarrow> notice set" where
  "puts ops = {n. Put n \<in> set ops}"

lemma puts_simps [simp]: "puts [] = {}" "puts (Put n # ops) = insert n (puts ops)" "puts (Get # ops) = puts ops"
  by (auto simp: puts_def)

lemma run_ops_append: "run_ops put get (xs @ ys) q =
    (let (ns, q1) = run_ops put get xs q; (ms, q2) = run_ops put get ys q1 in (ns @ ms, q2))"
  by (induction put get xs q rule: run_ops.induct) (auto simp: Let_def split: prod.splits option.splits)

context notice_queue
begin

lemma get_cases:
  "ok q \<Longrightarrow> get q = (case waiting q of [] \<Rightarrow> None | n # _ \<Rightarrow> Some n, snd (get q))"
  using get_head [of q] by (metis prod.collapse)

lemma run_ops_Get:
  "ok q \<Longrightarrow> run_ops put get (Get # ops) q =
     (take 1 (waiting q) @ fst (run_ops put get ops (snd (get q))), snd (run_ops put get ops (snd (get q))))"
  by (subst run_ops.simps, subst get_cases) (auto simp: Let_def split: list.splits prod.splits)

lemma ok_run: "ok q \<Longrightarrow> ok (snd (run_ops put get ops q))"
proof (induction ops arbitrary: q)
  case (Cons op ops)
  then show ?case by (cases op) (simp_all add: ok_put run_ops_Get ok_get del: run_ops.simps(3))
qed simp

lemma delivered_was_put:
  "ok q \<Longrightarrow> set (fst (run_ops put get ops q)) \<union> set (waiting (snd (run_ops put get ops q)))
     \<subseteq> set (waiting q) \<union> puts ops"
proof (induction ops arbitrary: q)
  case (Cons op ops)
  show ?case
  proof (cases op)
    case (Put n)
    then show ?thesis using Cons.IH [OF ok_put [OF Cons.prems]] put_adds [OF Cons.prems] by force
  next
    case Get
    have "set (tl (waiting q)) \<subseteq> set (waiting q)" by (cases "waiting q") auto
    then show ?thesis
      using Cons.IH [OF ok_get [OF Cons.prems]] get_rest [OF Cons.prems] Cons.prems Get
      by (auto simp: run_ops_Get simp del: run_ops.simps(3) dest: in_set_takeD)
  qed
qed simp

lemma never_stale:
  assumes "ok q" "m \<in> set (fst (run_ops put get ops (put n q)))" "n_eq m = n_eq n"
  shows "m = n \<or> m \<in> puts ops"
  using delivered_was_put [OF ok_put [OF assms(1)], of ops n] assms put_only [OF assms(1)] by blast

lemma drained: "ok q \<Longrightarrow> fst (run_ops put get (replicate (length (waiting q)) Get) q) = waiting q"
proof (induction "waiting q" arbitrary: q)
  case (Cons n ns)
  then have "waiting (snd (get q)) = ns" using get_rest [of q] by (metis list.sel(3))
  moreover have "waiting q = n # ns" using Cons.hyps(2) by simp
  ultimately show ?case
    using Cons.hyps(1) [of "snd (get q)"] Cons.prems ok_get [OF Cons.prems]
    by (simp add: run_ops_Get del: run_ops.simps(3))
qed (metis list.size(3) replicate_0 run_ops.simps(1) fst_conv)

end

definition open_queue :: "queue \<Rightarrow> bool" where
  "open_queue q \<longleftrightarrow> queue_inv q \<and> \<not> q_closed q \<and> int (length (pending q)) \<le> max 1 (q_capacity q)"

definition try_get :: "queue \<Rightarrow> notice option \<times> queue" where
  "try_get q = (case dequeue q of (Took n, q') \<Rightarrow> (Some n, q') | (_, q') \<Rightarrow> (None, q'))"

lemma try_get_snd: "snd (try_get q) = snd (dequeue q)"
  by (auto simp: try_get_def split: prod.splits dequeued.splits)

lemma try_get_fst:
  "queue_inv q \<Longrightarrow> fst (try_get q) = (case pending q of [] \<Rightarrow> None | n # _ \<Rightarrow> Some n)"
  using dequeue_spec [of q] by (auto simp: try_get_def split: prod.splits dequeued.splits list.splits if_splits)

interpretation irc: notice_queue open_queue pending enqueue try_get
proof unfold_locales
  fix q n m assume q: "open_queue q"
  then have i: "queue_inv q" "\<not> q_closed q" "int (length (pending q)) \<le> max 1 (q_capacity q)"
    by (auto simp: open_queue_def)
  note e = enqueue_spec [OF i(1,2), of n] and d = dequeue_spec [OF i(1)]
  show "open_queue (enqueue n q)" using e i length_spec_enqueue by (simp add: open_queue_def)
  show "open_queue (snd (try_get q))" using d i by (simp add: open_queue_def try_get_snd)
  show "set (pending (enqueue n q)) \<subseteq> insert n (set (pending q))" using e set_spec_enqueue by simp
  show "n \<in> set (pending (enqueue n q))" using e spec_enqueue_has by simp
  show "m \<in> set (pending (enqueue n q)) \<Longrightarrow> n_eq m = n_eq n \<Longrightarrow> m = n"
    using e spec_enqueue_only by metis
  show "fst (try_get q) = (case pending q of [] \<Rightarrow> None | n # _ \<Rightarrow> Some n)"
    using i(1) by (rule try_get_fst)
  show "pending (snd (try_get q)) = tl (pending q)" using d by (simp add: try_get_snd)
qed

lemma open_new: "open_queue (new_queue cap)"
  by (simp add: open_queue_def queue_inv_new) (simp add: pending_def new_queue_def)


section \<open>Properties\<close>

definition spec_get :: "notice list \<Rightarrow> notice option \<times> notice list" where
  "spec_get ns = (case ns of [] \<Rightarrow> (None, []) | n # ms \<Rightarrow> (Some n, ms))"

lemma run_refines:
  "open_queue q \<Longrightarrow>
     fst (run_ops enqueue try_get ops q) = fst (run_ops (spec_enqueue (q_capacity q)) spec_get ops (pending q))
     \<and> pending (snd (run_ops enqueue try_get ops q)) =
         snd (run_ops (spec_enqueue (q_capacity q)) spec_get ops (pending q))"
proof (induction ops arbitrary: q)
  case (Cons op ops)
  show ?case
  proof (cases op)
    case (Put n)
    then show ?thesis
      using Cons.IH [OF irc.ok_put [OF Cons.prems]] enqueue_spec [of q n] Cons.prems
      by (simp add: open_queue_def)
  next
    case Get
    have g: "spec_get (pending q) = (fst (try_get q), pending (snd (try_get q)))"
      using irc.get_head [OF Cons.prems] irc.get_rest [OF Cons.prems]
      by (auto simp: spec_get_def split: list.splits)
    show ?thesis
      using Cons.IH [OF irc.ok_get [OF Cons.prems]] Get g
      by (simp add: try_get_snd Let_def case_prod_beta split: option.splits)
  qed
qed simp

text \<open>C8. The queue with its order slice, its map and its in-place removal refines the plain list of
  pending notices: for every capacity and every sequence of enqueue and dequeue operations on a new
  queue, what is delivered and what is left pending are the same as on the list, where a notice for a
  pending earthquake takes the old one's place, and a new earthquake beyond the capacity first drops
  the oldest notice among those of least priority.\<close>

theorem queue_refines_list:
  "let (ns, q) = run_ops enqueue try_get ops (new_queue cap);
       (ms, l) = run_ops (spec_enqueue cap) spec_get ops []
   in ns = ms \<and> pending q = l"
proof -
  have "pending (new_queue cap) = []" "q_capacity (new_queue cap) = cap"
    by (simp_all add: pending_def new_queue_def)
  then show ?thesis using run_refines [OF open_new, of ops cap] by (simp add: case_prod_beta)
qed

lemma capacity_run [simp]: "q_capacity (snd (run_ops enqueue try_get ops q)) = q_capacity q"
proof (induction ops arbitrary: q)
  case (Cons op ops)
  then show ?case by (cases op) (simp_all add: case_prod_beta Let_def try_get_snd)
qed simp

text \<open>C29. The backlog is bounded: after any sequence of operations a queue of capacity \<open>cap\<close> holds at
  most \<open>cap\<close> notices, all for different earthquakes, except that a queue of capacity 0 (or below)
  holds one.  The order slice and the map keep the same earthquakes throughout.\<close>

theorem queue_bounded:
  "let q = snd (run_ops enqueue try_get ops (new_queue cap))
   in int (queue_len q) \<le> max 1 cap \<and> distinct (map n_eq (pending q))
      \<and> dom (q_entries q) = set (q_order q) \<and> queue_len (enqueue n (new_queue 0)) = 1"
proof -
  define q where "q = snd (run_ops enqueue try_get ops (new_queue cap))"
  have o: "open_queue q" unfolding q_def by (rule irc.ok_run [OF open_new])
  then have "int (queue_len q) \<le> max 1 cap"
    by (simp add: open_queue_def pending_def queue_len_def q_def) (simp add: new_queue_def)
  moreover have "queue_len (enqueue n (new_queue 0)) = 1"
    by (simp add: queue_len_def enqueue_def new_queue_def evict_one_def Let_def)
  ultimately show ?thesis
    using o distinct_pending [of q] unfolding q_def [symmetric] Let_def
    by (auto simp: open_queue_def queue_inv_def)
qed

text \<open>A superseded report is never sent: once a notice has been enqueued for an earthquake, every
  notice delivered later for that earthquake is this one or one enqueued after it, whatever happened
  before and whatever else is enqueued and dequeued.\<close>

lemma superseded_never_sent:
  assumes "m \<in> set (fst (run_ops enqueue try_get later
      (enqueue n (snd (run_ops enqueue try_get earlier (new_queue cap))))))"
    and "n_eq m = n_eq n"
  shows "m = n \<or> m \<in> puts later"
  using assms by (rule irc.never_stale [OF irc.ok_run [OF open_new]])

lemma superseded_never_sent_example:
  "let a = zero_notice\<lparr>n_eq := ''q1'', n_text := ''old''\<rparr>; b = zero_notice\<lparr>n_eq := ''q1'', n_text := ''new''\<rparr>
   in fst (run_ops enqueue try_get [Get, Get] (enqueue b (snd (run_ops enqueue try_get [Put a] (new_queue 2))))) = [b]
      \<and> (b = b \<or> b \<in> puts [Get, Get])"
proof -
  let ?a = "zero_notice\<lparr>n_eq := ''q1'', n_text := ''old''\<rparr>"
  let ?b = "zero_notice\<lparr>n_eq := ''q1'', n_text := ''new''\<rparr>"
  have run: "fst (run_ops enqueue try_get [Get, Get]
      (enqueue ?b (snd (run_ops enqueue try_get [Put ?a] (new_queue 2))))) = [?b]"
    by (simp add: enqueue_def new_queue_def try_get_def dequeue_def entry_def Let_def)
  have "?b = ?b \<or> ?b \<in> puts [Get, Get]"
    by (rule superseded_never_sent [of ?b "[Get, Get]" ?b "[Put ?a]" 2]) (simp_all only: run, simp)
  with run show ?thesis by simp
qed

text \<open>C12. Which notice an overflow costs: when a notice for a new earthquake meets a full queue, exactly
  one pending notice is dropped, no pending notice has a lower priority, and the older ones all have a
  higher one; the order of the others is kept.  So a cancellation is dropped only when nothing but
  cancellations is pending.\<close>

theorem overflow_drops_oldest_least:
  assumes "queue_inv q" "\<not> q_closed q" "pending q \<noteq> []"
    and "q_capacity q \<le> int (queue_len q)" "n_eq n \<notin> n_eq ` set (pending q)"
  shows "\<exists>as x bs. pending q = as @ x # bs \<and> pending (enqueue n q) = as @ bs @ [n]
     \<and> (\<forall>m \<in> set as. n_priority x < n_priority m) \<and> (\<forall>m \<in> set bs. n_priority x \<le> n_priority m)"
proof -
  let ?least = "\<lambda>n. \<forall>m \<in> set (pending q). n_priority n \<le> n_priority m"
  have rf: "\<exists>as x bs. ns = as @ x # bs \<and> remove_first p ns = as @ bs \<and> p x \<and> (\<forall>m \<in> set as. \<not> p m)"
    if "\<exists>x \<in> set ns. p x" for p and ns :: "notice list"
    using that
  proof (induction ns)
    case (Cons y ns)
    show ?case
    proof (cases "p y")
      case True
      then show ?thesis by (intro exI [of _ "[]"]) auto
    next
      case False
      with Cons obtain as x bs where "ns = as @ x # bs" "remove_first p ns = as @ bs" "p x"
        "\<forall>m \<in> set as. \<not> p m" by auto
      then show ?thesis using False by (intro exI [of _ "y # as"]) auto
    qed
  qed simp
  have "\<exists>x \<in> set (pending q). ?least x"
    using assms(3) by (rule least_exists)
  then obtain as x bs where s: "pending q = as @ x # bs" "spec_evict (pending q) = as @ bs" "?least x"
    "\<forall>m \<in> set as. \<not> ?least m"
    unfolding spec_evict_def using rf [of "pending q" ?least] by blast
  have "pending (enqueue n q) = as @ bs @ [n]"
    using enqueue_spec [OF assms(1,2), of n] assms(4,5) s(2)
    by (simp add: spec_enqueue_def queue_len_def) (simp add: pending_def)
  moreover have "n_priority x < n_priority m" if "m \<in> set as" for m
    using that s(1,3,4) by (metis Un_iff linorder_not_le order.trans set_append)
  ultimately show ?thesis using s(1,3) by (intro exI [of _ as] exI [of _ x] exI [of _ bs]) auto
qed

lemma overflow_drops_oldest_least_witness:
  "let c = zero_notice\<lparr>n_eq := ''c'', n_priority := PriorityCancellation\<rparr>;
       a = zero_notice\<lparr>n_eq := ''a''\<rparr>; n = zero_notice\<lparr>n_eq := ''n''\<rparr>;
       q = enqueue a (enqueue c (new_queue 2))
   in (\<exists>as x bs. pending q = as @ x # bs \<and> pending (enqueue n q) = as @ bs @ [n]
     \<and> (\<forall>m \<in> set as. n_priority x < n_priority m) \<and> (\<forall>m \<in> set bs. n_priority x \<le> n_priority m))
     \<and> pending (enqueue n q) = [c, n]"
proof -
  let ?c = "zero_notice\<lparr>n_eq := ''c'', n_priority := PriorityCancellation\<rparr>"
  let ?a = "zero_notice\<lparr>n_eq := ''a''\<rparr>" and ?n = "zero_notice\<lparr>n_eq := ''n''\<rparr>"
  let ?q = "enqueue ?a (enqueue ?c (new_queue 2))"
  have q: "q_order ?q = [''c'', ''a'']" "q_entries ?q = [''c'' \<mapsto> ?c, ''a'' \<mapsto> ?a]" "q_capacity ?q = 2"
    "\<not> q_closed ?q"
    by (simp_all add: enqueue_def new_queue_def)
  then have p: "pending ?q = [?c, ?a]" by (simp add: pending_def entry_def)
  have i: "queue_inv ?q" using irc.ok_put irc.ok_put [OF open_new] by (simp add: open_queue_def)
  have len: "queue_len ?q = 2" using q(1) by (simp add: queue_len_def)
  have new: "n_eq ?n \<notin> n_eq ` set (pending ?q)" unfolding p by (simp add: zero_notice_def)
  have "pending (enqueue ?n ?q) = spec_enqueue 2 ?n [?c, ?a]"
    using enqueue_spec [OF i q(4), of ?n] p q(3) by simp
  also have "\<dots> = [?c, ?n]"
    by (simp add: spec_enqueue_def spec_evict_def zero_notice_def)
  finally have drop: "pending (enqueue ?n ?q) = [?c, ?n]" .
  have ne: "pending ?q \<noteq> []" unfolding p by simp
  show ?thesis
    unfolding Let_def
    using overflow_drops_oldest_least [OF i q(4) ne _ new] q(3) len drop by simp
qed


section \<open>Below the capacity\<close>

text \<open>One notice for each earthquake, the last enqueued, in the order of the first.\<close>

definition latest :: "notice list \<Rightarrow> notice list" where
  "latest ns = map (\<lambda>k. last (filter (\<lambda>n. n_eq n = k) ns)) (keep_first [] (map n_eq ns))"

lemma last_filter_eq: "k \<in> set (map f xs) \<Longrightarrow> f (last (filter (\<lambda>x. f x = k) xs)) = k"
proof -
  assume "k \<in> set (map f xs)"
  then have "filter (\<lambda>x. f x = k) xs \<noteq> []" by (auto simp: filter_empty_conv)
  from last_in_set [OF this] show ?thesis by simp
qed

lemma latest_eqs: "map n_eq (latest ns) = keep_first [] (map n_eq ns)"
proof -
  have "n_eq (last (filter (\<lambda>n. n_eq n = k) ns)) = k" if "k \<in> set (keep_first [] (map n_eq ns))" for k
    using that by (intro last_filter_eq) (simp add: set_keep_first)
  then show ?thesis by (simp add: latest_def comp_def map_idI)
qed

lemma latest_snoc:
  "latest (ns @ [n]) = (if n_eq n \<in> n_eq ` set ns then map (\<lambda>m. if n_eq m = n_eq n then n else m) (latest ns)
     else latest ns @ [n])"
proof -
  have k: "last (filter (\<lambda>m. n_eq m = k) (ns @ [n])) =
      (if k = n_eq n then n else last (filter (\<lambda>m. n_eq m = k) ns))" for k by simp
  have e: "n_eq (last (filter (\<lambda>m. n_eq m = k) ns)) = k" if "k \<in> set (keep_first [] (map n_eq ns))" for k
    using that by (intro last_filter_eq) (simp add: set_keep_first)
  show ?thesis
    unfolding latest_def map_append list.map keep_first_snoc k
    by (auto simp: e set_keep_first image_iff)
qed

lemma pending_latest:
  assumes "int (card (n_eq ` set ns)) \<le> cap"
  shows "let q = foldl (\<lambda>q n. enqueue n q) (new_queue cap) ns
     in queue_inv q \<and> \<not> q_closed q \<and> q_capacity q = cap \<and> pending q = latest ns"
  using assms
proof (induction ns rule: rev_induct)
  case Nil
  show ?case by (simp add: queue_inv_new Let_def) (simp add: new_queue_def pending_def latest_def)
next
  case (snoc n ns)
  let ?q = "foldl (\<lambda>q n. enqueue n q) (new_queue cap) ns"
  have "card (n_eq ` set ns) \<le> card (n_eq ` set (ns @ [n]))" by (intro card_mono) auto
  then have q: "queue_inv ?q" "\<not> q_closed ?q" "q_capacity ?q = cap" "pending ?q = latest ns"
    using snoc by (simp_all add: Let_def)
  have eqs: "n_eq ` set (latest ns) = n_eq ` set ns"
    using latest_eqs [of ns] set_keep_first [of "[]" "map n_eq ns"] by (metis set_map Diff_empty empty_set)
  have len: "length (latest ns) = card (n_eq ` set ns)"
    using latest_eqs [of ns] distinct_keep_first [of "[]" "map n_eq ns"] eqs
    by (metis distinct_card length_map set_map)
  have room: "\<not> cap \<le> int (length (latest ns))" if "n_eq n \<notin> n_eq ` set ns"
    using snoc.prems that len by (simp add: card_insert_if)
  show ?case
    using enqueue_spec [OF q(1,2), of n] q eqs room
    by (simp add: Let_def spec_enqueue_def latest_snoc)
qed


section \<open>Waiting and waking\<close>

text \<open>The goroutine that calls \<open>Dequeue\<close> in a loop, against enqueues and a close from other
  goroutines.  Each step holds the lock: an enqueue into an open queue signals, a close broadcasts,
  and the consumer's pass over the loop condition waits, returns or takes.  There is one consumer
  (the connection's \<open>writeLoop\<close>), so a signal and a broadcast wake the same waiter.\<close>

datatype consumer = Calling | Waiting | Woken | Returned dequeued

fun wake :: "consumer \<Rightarrow> consumer" where
  "wake Waiting = Woken"
| "wake c = c"

inductive qstep :: "queue \<times> consumer \<Rightarrow> queue \<times> consumer \<Rightarrow> bool" where
  step_enqueue: "qstep (q, c) (enqueue n q, if q_closed q then c else wake c)"
| step_close: "qstep (q, c) (close_queue q, wake c)"
| step_wait: "c \<in> {Calling, Woken} \<Longrightarrow> dequeue q = (Would_wait, q') \<Longrightarrow> qstep (q, c) (q', Waiting)"
| step_return: "c \<in> {Calling, Woken} \<Longrightarrow> dequeue q = (r, q') \<Longrightarrow> r \<noteq> Would_wait \<Longrightarrow>
     qstep (q, c) (q', Returned r)"
| step_call: "qstep (q, Returned r) (q, Calling)"

inductive_cases qstepE: "qstep (q, c) s"
inductive_simps qstep_waiting: "qstep (q, Waiting) s"

lemma waiting_means_empty:
  assumes "qstep\<^sup>*\<^sup>* (new_queue cap, Calling) s"
  shows "snd s = Waiting \<longrightarrow> q_order (fst s) = [] \<and> \<not> q_closed (fst s)"
  using assms
proof (induction rule: rtranclp_induct)
  case (step s t)
  have wake: "wake c \<noteq> Waiting" for c by (cases c) auto
  show ?case
    using step.hyps(2) step.IH wake
    by (cases rule: qstep.cases)
      (auto simp: enqueue_closed dequeue_def close_queue_def split: list.splits if_splits)
qed simp

text \<open>C9. No wake-up is lost: in every reachable state, if the consumer sleeps in \<open>Dequeue\<close> then
  nothing is pending and the queue is open; so whenever something is pending or the queue is closed, a
  consumer inside \<open>Dequeue\<close> is awake, and its next pass returns the head of what is pending, or
  \<open>ok = false\<close> when nothing is.\<close>

theorem no_lost_wakeup:
  assumes "qstep\<^sup>*\<^sup>* (new_queue cap, Calling) (q, c)"
    and "q_order q \<noteq> [] \<or> q_closed q" and "\<forall>r. c \<noteq> Returned r"
  shows "\<exists>q'. qstep (q, c) (q', Returned (case pending q of n # _ \<Rightarrow> Took n | [] \<Rightarrow> Not_ok))"
proof -
  have "c \<in> {Calling, Woken}"
    using waiting_means_empty [OF assms(1)] assms(2,3) by (cases c) auto
  moreover have "fst (dequeue q) = (case pending q of n # _ \<Rightarrow> Took n | [] \<Rightarrow> Not_ok)"
    using assms(2) by (auto simp: dequeue_def pending_def split: list.splits)
  moreover have "(case pending q of n # _ \<Rightarrow> Took n | [] \<Rightarrow> Not_ok) \<noteq> Would_wait"
    by (simp split: list.splits)
  ultimately show ?thesis
    by (intro exI [of _ "snd (dequeue q)"] step_return) (simp_all add: prod_eq_iff)
qed

lemma no_lost_wakeup_witness:
  "\<exists>q q'. qstep\<^sup>*\<^sup>* (new_queue 1, Calling) (q, Woken)
     \<and> qstep (q, Woken) (q', Returned (case pending q of n # _ \<Rightarrow> Took n | [] \<Rightarrow> Not_ok))"
proof -
  have "qstep (new_queue 1, Calling) (new_queue 1, Waiting)"
    by (rule step_wait) (simp_all add: dequeue_def new_queue_def)
  moreover have "qstep (new_queue 1, Waiting) (enqueue zero_notice (new_queue 1), Woken)"
    using step_enqueue [of "new_queue 1" Waiting zero_notice] by (simp add: new_queue_def)
  ultimately have r: "qstep\<^sup>*\<^sup>* (new_queue 1, Calling) (enqueue zero_notice (new_queue 1), Woken)"
    by (meson converse_rtranclp_into_rtranclp rtranclp.rtrancl_refl)
  moreover have "q_order (enqueue zero_notice (new_queue 1)) \<noteq> []"
    by (simp add: enqueue_def new_queue_def Let_def)
  ultimately show ?thesis using no_lost_wakeup [OF r] by blast
qed

fun drain :: "nat \<Rightarrow> queue \<Rightarrow> dequeued list" where
  "drain 0 q = []"
| "drain (Suc k) q = fst (dequeue q) # drain k (snd (dequeue q))"

text \<open>Shutdown drains: once the queue is closed, further notices are refused, and the following
  calls of \<open>Dequeue\<close> hand out everything that was pending, in order, each once, before the first
  \<open>ok = false\<close>.\<close>

lemma close_drains:
  assumes "queue_inv q"
  shows "drain (Suc (queue_len q)) (enqueue n (close_queue q)) = map Took (pending q) @ [Not_ok]"
proof -
  have "drain (Suc (length (pending q))) q = map Took (pending q) @ [Not_ok]"
    if "queue_inv q" "q_closed q" for q
    using that
  proof (induction "pending q" arbitrary: q)
    case Nil
    then show ?case using dequeue_spec [of q] by simp
  next
    case (Cons n ns)
    have p: "pending q = n # ns" using Cons.hyps(2) by simp
    have d: "queue_inv (snd (dequeue q))" "pending (snd (dequeue q)) = ns" "fst (dequeue q) = Took n"
      using dequeue_spec [OF Cons.prems(1)] p by simp_all
    show ?case using Cons.hyps(1) [of "snd (dequeue q)"] d p Cons.prems(2) by simp
  qed
  from this [of "close_queue q"] assms show ?thesis
    by (simp add: enqueue_closed queue_len_def) (simp add: pending_def)
qed

lemma close_drains_example:
  "drain (Suc (queue_len (new_queue 3))) (enqueue zero_notice (close_queue (new_queue 3))) = [Not_ok]"
  using close_drains [OF queue_inv_new, of 3 zero_notice] by (simp add: pending_def new_queue_def)

end
