(* ===== verification/Irc_Dispatcher.thy ===== *)
theory Irc_Dispatcher
  imports Notify Irc_Queue
begin

text \<open>
  \<open>internal/irc/dispatcher.go\<close>: which channels of one IRC connection a telegram goes to, and with which
  priority it is queued.
\<close>

record irc_dispatcher =
  i_all :: "string list"
  i_limited :: "string list"
  i_last :: string

definition new_irc_dispatcher :: "string list \<Rightarrow> string list \<Rightarrow> irc_dispatcher" where
  "new_irc_dispatcher all lim = \<lparr>i_all = all, i_limited = lim, i_last = []\<rparr>"

definition dedup :: "string list list \<Rightarrow> string list" where
  "dedup chs = keep_first [] (concat chs)"

definition join_channels :: "irc_dispatcher \<Rightarrow> string list" where
  "join_channels d = dedup [i_all d, i_limited d]"

definition priority_for :: "telegram \<Rightarrow> priority" where
  "priority_for t = (if is_cancellation t then PriorityCancellation
     else if is_final t then PriorityFinal else PriorityNormal)"

definition channels_for :: "irc_dispatcher \<Rightarrow> telegram \<Rightarrow> (string list \<times> priority) \<times> irc_dispatcher" where
  "channels_for d t =
     (let limited_fires = (eq_id t \<noteq> i_last d \<or> is_cancellation t \<or> is_final t);
          d' = (if limited_fires then d\<lparr>i_last := eq_id t\<rparr> else d)
      in if limited_fires then ((dedup [i_all d, i_limited d], priority_for t), d')
         else ((dedup [i_all d], priority_for t), d'))"

lemma set_dedup [simp]: "set (dedup ls) = set (concat ls)"
  by (simp add: dedup_def set_keep_first)

lemma distinct_dedup [simp]: "distinct (dedup ls)"
  by (simp add: dedup_def distinct_keep_first)

interpretation irc_gate: limited_gate channels_for i_last "\<lambda>d. (i_all d, i_limited d)"
  "\<lambda>(all, lim) f t. (dedup (if f then [all, lim] else [all]), priority_for t)"
  by unfold_locales (auto simp: channels_for_def fires_def Let_def)


text \<open>Slack and IRC agree on who is told: a Slack dispatcher and an IRC dispatcher, each with its own
  state, configured with the same names (hooks named like the channels), choose the same set of names
  for every telegram of every sequence.\<close>

lemma slack_irc_agree:
  "map (\<lambda>hs. hook_name ` set hs) (select_all hooks_for (new_dispatcher (map h all) (map h lim)) ts) =
     map (\<lambda>(cs, _). (hook_name \<circ> h) ` set cs) (select_all channels_for (new_irc_dispatcher all lim) ts)"
  using slack.select_all_closed_form [of "new_dispatcher (map h all) (map h lim)" ts]
    irc_gate.select_all_closed_form [of "new_irc_dispatcher all lim" ts]
  by (simp add: new_dispatcher_def new_irc_dispatcher_def image_Un image_comp comp_def)

end
