(* ===== verification/Eewmsg.thy ===== *)
theory Eewmsg
  imports Decoder
begin

text \<open>
  \<open>internal/eewmsg/format.go\<close>: the message text and title of a telegram.  Japanese text is given by its
  code points.
\<close>


section \<open>Formatting\<close>

fun split_pairs :: "string \<Rightarrow> string list" where
  "split_pairs (a # b # s) = [a, b] # split_pairs s"
| "split_pairs _ = []"

definition at :: "string list \<Rightarrow> nat \<Rightarrow> string" where
  "at parts i = (if i < length parts then parts ! i else [])"

text \<open>The format \<open>20%s/%s/%s %s:%s:%s\<close>.\<close>

definition stamp :: "string list \<Rightarrow> string" where
  "stamp p = ''20'' @ at p 0 @ ''/'' @ at p 1 @ ''/'' @ at p 2 @ '' '' @ at p 3 @ '':'' @ at p 4
     @ '':'' @ at p 5"

definition map_uri :: "telegram \<Rightarrow> string" where
  "map_uri t = ''http://maps.google.com/maps?q='' @ fmt_1f (center_lat t) @ '','' @ fmt_1f (center_lng t)"

definition coordinates :: "telegram \<Rightarrow> string" where
  "coordinates t = ''N'' @ fmt_1f (center_lat t) @ ''/E'' @ fmt_1f (center_lng t)"

definition format_times :: "telegram \<Rightarrow> string" where
  "format_times t = '' '' @ utf8 [0x7B2C] @ itoa (warn_num t) @ utf8 [0x5831]
     @ (if is_final t then ''('' @ utf8 [0x6700, 0x7D42] @ '')'' else [])"

definition format :: "telegram \<Rightarrow> string \<times> string" where
  "format t =
     (let warn_parts = split_pairs (warn_time t);
          eq_parts = split_pairs (eq_time t);
          warnmsg = stamp warn_parts;
          eqmsg = stamp eq_parts;
          times = format_times t;
          text =
            (if is_cancellation t then
               warnmsg @ times @ '' ('' @ eqmsg @ utf8 [0x767A, 0x751F] @ '') ''
                 @ utf8 [0x53D6, 0x308A, 0x6D88, 0x3055, 0x308C, 0x307E, 0x3057, 0x305F]
             else
               let center = utf8 [0x9707, 0x592E] @ '':<'' @ map_uri t @ ''|'' @ coordinates t @ ''>(''
                     @ center_name t @ '')'' @ utf8 [0x6DF1, 0x3055] @ itoa (center_depth t) @ ''km'';
                   magnitude_msg = '' '' @ utf8 [0x6700, 0x5927] @ '':M'' @ fmt_1f (magnitude t) @ '' ''
                     @ utf8 [0x9707, 0x5EA6] @ shindo t
               in warnmsg @ times @ '' ('' @ eqmsg @ utf8 [0x767A, 0x751F] @ '')'' @ center @ magnitude_msg);
          title = utf8 [0x7DCA, 0x6025, 0x5730, 0x9707, 0x901F, 0x5831]
      in (text, if warn_type t \<noteq> [] then warn_type t @ title else title))"


section \<open>The bytes of a message\<close>

text \<open>Every ASCII byte of an encoded text is one of its code points.\<close>

lemma utf8_rune_ascii:
  assumes c: "(of_char c :: nat) < 128" and k: "k < 0x110000"
  shows "c \<in> set (utf8_rune k) \<longleftrightarrow> k = of_char c"
proof (cases "k < 128")
  case True
  then show ?thesis using c by (auto simp: utf8_rune_def)
next
  case False
  have high: "c \<noteq> char_of n" if "128 \<le> n" "n < 256" for n :: nat
    using that c by auto
  have cont: "c \<noteq> char_of (128 + x mod 64)" for x :: nat
    by (rule high) (simp_all add: trans_less_add1)
  have "c \<notin> set (utf8_rune k)"
  proof -
    have "k < 0x800 \<Longrightarrow> c \<noteq> char_of (0xC0 + k div 64)" by (rule high) auto
    moreover have "k < 0x10000 \<Longrightarrow> c \<noteq> char_of (0xE0 + k div 4096)" by (rule high) auto
    moreover have "c \<noteq> char_of (0xF0 + k div 262144)" using k by (intro high) auto
    ultimately show ?thesis using False cont by (simp add: utf8_rune_def)
  qed
  then show ?thesis using False c by auto
qed

lemma utf8_ascii:
  "(of_char c :: nat) < 128 \<Longrightarrow> list_all (\<lambda>k. k < 0x110000) cs \<Longrightarrow>
     c \<in> set (utf8 cs) \<longleftrightarrow> of_char c \<in> set cs"
  by (induction cs) (auto simp: utf8_def utf8_rune_ascii)

text \<open>The bytes that would open a link do not occur in the texts of the tables.\<close>

definition no_markup :: "string \<Rightarrow> bool" where
  "no_markup s \<longleftrightarrow> CHR ''<'' \<notin> set s"

lemma no_markup_simps [simp]:
  "no_markup []" "no_markup (c # s) \<longleftrightarrow> c \<noteq> CHR ''<'' \<and> no_markup s"
  "no_markup (s @ t) \<longleftrightarrow> no_markup s \<and> no_markup t"
  by (auto simp: no_markup_def)

lemma no_markup_utf8 [simp]:
  "list_all (\<lambda>k. k < 0x110000) cs \<Longrightarrow> no_markup (utf8 cs) \<longleftrightarrow> 60 \<notin> set cs"
  by (simp add: no_markup_def utf8_ascii)

lemma no_markup_lookup: "list_all (\<lambda>x. no_markup (snd x)) t \<Longrightarrow> no_markup (lookup t k)"
  by (induction t) (auto simp: lookup_def)

lemma table_markup:
  "list_all (\<lambda>x. no_markup (snd x)) EpicenterCode_1" "list_all (\<lambda>x. no_markup (snd x)) EpicenterCode_2"
  "list_all (\<lambda>x. no_markup (snd x)) EpicenterCode_3" "list_all (\<lambda>x. no_markup (snd x)) Shindo"
  by (simp_all add: EpicenterCode_1_def EpicenterCode_2_def EpicenterCode_3_def Shindo_def)

lemma no_markup_epicenter: "no_markup (lookup EpicenterCode k)"
  by (rule no_markup_lookup) (simp add: EpicenterCode_def table_markup)

lemma no_markup_shindo: "no_markup (lookup Shindo k)"
  by (rule no_markup_lookup) (simp add: table_markup)

lemma digits_no_markup: "list_all is_digit s \<Longrightarrow> no_markup s"
  by (auto simp: no_markup_def list_all_iff is_digit_def)

lemma no_markup_itoa [simp]: "no_markup (itoa z)"
  by (simp add: itoa_def digits_no_markup show_nat_digits)

lemma no_markup_fmt_1f [simp]: "no_markup (fmt_1f z)"
  by (simp add: fmt_1f_def digits_no_markup show_nat_digits)

text \<open>The digits of a time survive its formatting.\<close>

lemma split_pairs_digits:
  "list_all is_digit s \<Longrightarrow> w \<in> set (split_pairs s) \<Longrightarrow> list_all is_digit w"
  by (induction s rule: split_pairs.induct) auto

lemma at_digits: "list_all is_digit s \<Longrightarrow> list_all is_digit (at (split_pairs s) i)"
  by (auto simp: at_def intro: split_pairs_digits)

lemma no_markup_stamp: "list_all is_digit s \<Longrightarrow> no_markup (stamp (split_pairs s))"
  by (simp add: stamp_def digits_no_markup at_digits)

lemma length_12: "length s = 12 \<Longrightarrow> \<exists>a b c d e f g h i j k l. s = [a, b, c, d, e, f, g, h, i, j, k, l]"
  by (simp add: numeral_eq_Suc length_Suc_conv) blast

lemma stamp_digits:
  assumes "opt_len is_digit 12 s"
  shows "filter is_digit (stamp (split_pairs s)) = ''20'' @ s"
proof (cases "s = []")
  case True
  then show ?thesis by (simp add: stamp_def at_def is_digit_def)
next
  case False
  then have "list_all is_digit s" "length s = 12" using assms by (auto simp: opt_len_def)
  moreover from length_12 [OF this(2)] obtain a b c d e f g h i j k l
    where "s = [a, b, c, d, e, f, g, h, i, j, k, l]" by blast
  moreover have "\<not> is_digit CHR ''/''" "\<not> is_digit CHR '':''" "\<not> is_digit CHR '' ''"
    "is_digit CHR ''2''" "is_digit CHR ''0''" by (simp_all add: is_digit_def)
  ultimately show ?thesis by (simp add: stamp_def at_def)
qed


section \<open>Properties\<close>

text \<open>What a message says of the times: for every input the text starts with the time of the
  warning, is a cancellation notice exactly where the telegram is one, and the digits of the two
  formatted times are the century and the digits decoded (the day of the earthquake included, which the
  Perl original took from the wrong field), so two telegrams with different times never show the same
  time; the title is the kind of warning followed by the fixed text.\<close>

lemma format_times_faithful:
  "let t = decode raw; (text, title) = format t
   in (\<exists>rest. text = stamp (split_pairs (warn_time t)) @ format_times t @ '' ('' @
         stamp (split_pairs (eq_time t)) @ utf8 [0x767A, 0x751F] @ '')'' @ rest
       \<and> (if is_cancellation t then rest = '' '' @ utf8 [0x53D6, 0x308A, 0x6D88, 0x3055, 0x308C, 0x307E, 0x3057, 0x305F]
          else sublist (''<'' @ map_uri t @ ''|'' @ coordinates t @ ''>'') rest))
     \<and> filter is_digit (stamp (split_pairs (warn_time t))) = ''20'' @ warn_time t
     \<and> filter is_digit (stamp (split_pairs (eq_time t))) = ''20'' @ eq_time t
     \<and> title = lookup WarnType (warn_code t) @ utf8 [0x7DCA, 0x6025, 0x5730, 0x9707, 0x901F, 0x5831]"
proof -
  define t where "t = decode raw"
  have wf: "wf_telegram t" unfolding t_def by (rule wf_decode)
  then have d: "filter is_digit (stamp (split_pairs (warn_time t))) = ''20'' @ warn_time t"
    "filter is_digit (stamp (split_pairs (eq_time t))) = ''20'' @ eq_time t"
    by (simp_all add: wf_telegram_def stamp_digits)
  have w: "warn_type t = lookup WarnType (warn_code t)" using wf by (simp add: wf_telegram_def)
  have "sublist m (a @ m @ b)" for a m b :: string by (rule sublist_appendI)
  from this [of "''<'' @ map_uri t @ ''|'' @ coordinates t @ ''>''" "utf8 [0x9707, 0x592E] @ '':''"]
  have sub: "sublist (''<'' @ map_uri t @ ''|'' @ coordinates t @ ''>'')
      (utf8 [0x9707, 0x592E] @ '':<'' @ map_uri t @ ''|'' @ coordinates t @ ''>'' @ b)" for b
    by simp
  show ?thesis
    unfolding t_def [symmetric] Let_def
    using d w sub [of "''('' @ center_name t @ '')'' @ utf8 [0x6DF1, 0x3055] @ itoa (center_depth t) @ ''km''
       @ '' '' @ utf8 [0x6700, 0x5927] @ '':M'' @ fmt_1f (magnitude t) @ '' '' @ utf8 [0x9707, 0x5EA6] @ shindo t"]
    by (auto simp: format_def Let_def)
qed

end
