(* ===== verification/Irc_Text.thy ===== *)
theory Irc_Text
  imports Eewmsg Config
begin

text \<open>
  \<open>internal/irc/link.go\<close>, \<open>charset.go\<close> and \<open>config.go\<close>: what happens to a message before it goes on the
  wire.  The ISO-2022-JP encoder is the package golang.org/x/text, not part of this repository; it is
  the parameter \<open>enc\<close> of \<open>encode_text\<close>.
\<close>


section \<open>Links\<close>

definition dot :: "char \<Rightarrow> bool" where
  "dot c \<longleftrightarrow> c \<noteq> nl"

definition linkPattern :: rx where
  "linkPattern = rseq [Lit ''<'', Grp (Rep dot 0 None False), Lit ''|'', Grp (Rep dot 0 None False), Lit ''>'']"

definition strip_links :: "string \<Rightarrow> string" where
  "strip_links s = replace_all linkPattern 2 s"

text \<open>A lazy group stops at the first place where the rest matches.\<close>

lemma first_lazy:
  assumes p: "list_all p w" and x: "x \<notin> set w"
    and start: "\<And>c j u. c \<noteq> x \<Longrightarrow> rmatch r j (c # u) = []"
    and f: "first r (i + length w) (x # t) (ds, k, u)"
  shows "first (Seq (Grp (Rep p 0 None False)) r) i (w @ x # t) (w # ds, k, u)"
proof -
  let ?s = "w @ x # t"
  let ?m = "length (takeWhile p ?s)"
  let ?f = "\<lambda>k. map (\<lambda>(ds, k', u). (take k ?s # ds, k', u)) (rmatch r (i + k) (drop k ?s))"
  have "length w \<le> ?m" using p by (auto simp: list_all_iff takeWhile_append)
  then have split: "[0..<Suc ?m] = [0..<length w] @ length w # [Suc (length w)..<Suc ?m]"
    by (metis le_add_same_cancel1 le_imp_less_Suc upt_add_eq_append upt_conv_Cons zero_le add_0 less_imp_add_positive order_less_imp_le)
  have none: "?f k = []" if "k < length w" for k
  proof -
    have "drop k ?s = w ! k # drop (Suc k) w @ x # t" using that by (simp add: Cons_nth_drop_Suc [symmetric])
    moreover have "w ! k \<noteq> x" using that x by (metis nth_mem)
    ultimately show ?thesis using start by simp
  qed
  have "rmatch (Seq (Grp (Rep p 0 None False)) r) i ?s = concat (map ?f [0..<Suc ?m])"
    by (simp add: rep_counts_def comp_def Let_def del: upt_Suc)
  also have "\<dots> = concat (map ?f (length w # [Suc (length w)..<Suc ?m]))"
    unfolding split map_append concat_append using none by simp
  finally show ?thesis using f by (auto simp: first_def simp del: upt_Suc)
qed

lemma first_Lit1: "first r (i + 1) s m \<Longrightarrow> first (Seq (Lit [x]) r) i (x # s) m"
  by (cases m) (auto simp: first_def)

lemma strip_one:
  assumes "CHR ''<'' \<notin> set pre" "CHR ''|'' \<notin> set uri" "nl \<notin> set uri"
    and "CHR ''>'' \<notin> set label" "nl \<notin> set label" "CHR ''<'' \<notin> set post"
  shows "strip_links (pre @ ''<'' @ uri @ ''|'' @ label @ ''>'' @ post) = pre @ label @ post"
proof -
  have start: "rmatch linkPattern j (c # u) = []" if "c \<noteq> CHR ''<''" for c j u
    using that by (simp add: linkPattern_def)
  have dots: "list_all dot uri" "list_all dot label" using assms(3,5) by (auto simp: list_all_iff dot_def)
  have f3: "first (Seq (Grp (Rep dot 0 None False)) (Lit ''>'')) j (label @ CHR ''>'' # post)
      ([label], j + length label + 1, post)" for j
    using dots(2) assms(4) first_Lit [of "''>''" "j + length label" post]
    by (intro first_lazy) auto
  have f2: "first (Seq (Lit ''|'') (Seq (Grp (Rep dot 0 None False)) (Lit ''>''))) j
      (CHR ''|'' # label @ CHR ''>'' # post) ([label], j + 1 + length label + 1, post)" for j
    using f3 [of "j + 1"] by (rule first_Lit1)
  have f1: "first (Seq (Grp (Rep dot 0 None False)) (Seq (Lit ''|'') (Seq (Grp (Rep dot 0 None False)) (Lit ''>''))))
      j (uri @ CHR ''|'' # label @ CHR ''>'' # post)
      ([uri, label], j + length uri + 1 + length label + 1, post)" for j
    using dots(1) assms(2) f2 [of "j + length uri"] by (intro first_lazy) auto
  let ?i = "length pre"
  have m: "first linkPattern ?i (''<'' @ uri @ ''|'' @ label @ ''>'' @ post)
      ([uri, label], ?i + 1 + length uri + 1 + length label + 1, post)"
    using first_Lit1 [OF f1 [of "?i + 1"], of "CHR ''<''"] by (simp add: linkPattern_def)
  have "rfind linkPattern 0 (pre @ ''<'' @ uri @ ''|'' @ label @ ''>'' @ post) =
      rfind linkPattern (0 + ?i) (''<'' @ uri @ ''|'' @ label @ ''>'' @ post)"
  proof (rule rfind_skip)
    fix c u j assume "c \<in> set pre"
    with assms(1) show "rmatch linkPattern j (c # u) = []" by (intro start) auto
  qed
  also have "\<dots> = Some (?i, [uri, label], ?i + 1 + length uri + 1 + length label + 1, post)"
    using first_rfind [OF m] by (simp only: add_0)
  finally have "rfind linkPattern 0 (pre @ ''<'' @ uri @ ''|'' @ label @ ''>'' @ post) =
      Some (?i, [uri, label], ?i + 1 + length uri + 1 + length label + 1, post)" .
  moreover have "rfind_all linkPattern j post = ([], post)" for j
  proof -
    have "rfind linkPattern j (post @ []) = None"
      using rfind_skip [of post linkPattern j "[]"] start assms(6) by (auto simp: linkPattern_def)
    then show ?thesis by (subst rfind_all.simps) simp
  qed
  ultimately show ?thesis
    by (simp add: strip_links_def replace_all_def Let_def rfind_all.simps [of linkPattern 0])
qed

lemma strip_none: "CHR ''<'' \<notin> set s \<Longrightarrow> strip_links s = s"
proof -
  assume "CHR ''<'' \<notin> set s"
  then have "rfind linkPattern 0 (s @ []) = None"
    using rfind_skip [of s linkPattern 0 "[]"] by (auto simp: linkPattern_def)
  then show ?thesis by (simp add: strip_links_def replace_all_def rfind_all.simps [of linkPattern 0 s])
qed

section \<open>Character sets\<close>

datatype encoder = Passthrough | ISO2022JP

definition charset_encoder :: "string \<Rightarrow> encoder option" where
  "charset_encoder charset =
     (if charset \<in> {[], ''utf-8'', ''UTF-8''} then Some Passthrough
      else if charset \<in> {''iso-2022-jp'', ''ISO-2022-JP''} then Some ISO2022JP
      else None)"

datatype text_err = Unknown_charset string | Encoding_failed string string

definition encode_text :: "(string \<Rightarrow> bytes option) \<Rightarrow> string \<Rightarrow> string \<Rightarrow> text_err + bytes" where
  "encode_text enc charset s =
     (case charset_encoder charset of
        None \<Rightarrow> Inl (Unknown_charset charset)
      | Some Passthrough \<Rightarrow> Inr s
      | Some ISO2022JP \<Rightarrow> (case enc s of None \<Rightarrow> Inl (Encoding_failed s charset) | Some b \<Rightarrow> Inr b))"


section \<open>Client configuration\<close>

text \<open>goirc's configuration: the fields that \<open>clientConfig\<close> sets, and the rest as goirc's \<open>NewConfig\<close>, a
  parameter, leaves it.\<close>

record 'r goirc_config =
  goirc_rest :: 'r
  goirc_server :: string
  goirc_pass :: string
  goirc_flood :: bool

text \<open>\<open>net.JoinHostPort\<close> brackets a host that contains a colon.\<close>

definition join_host_port :: "string \<Rightarrow> string \<Rightarrow> string" where
  "join_host_port h p = (if CHR '':'' \<in> set h then ''['' @ h @ '']:'' @ p else h @ '':'' @ p)"

definition client_config :: "(string \<Rightarrow> string \<Rightarrow> string \<Rightarrow> 'r goirc_config) \<Rightarrow> irc_server_config \<Rightarrow> 'r goirc_config" where
  "client_config new_config srv = (new_config (irc_nick srv) (irc_name srv) (irc_desc srv))
     \<lparr>goirc_server := join_host_port (srv_host (irc_server srv)) (itoa (srv_port (irc_server srv))),
      goirc_pass := srv_password (irc_server srv), goirc_flood := True\<rparr>"


section \<open>Properties\<close>

text \<open>The message without markup.\<close>

definition plain_text :: "telegram \<Rightarrow> string" where
  "plain_text t = stamp (split_pairs (warn_time t)) @ format_times t @ '' ('' @
     stamp (split_pairs (eq_time t)) @ utf8 [0x767A, 0x751F] @ '')'' @
     (if is_cancellation t then '' '' @ utf8 [0x53D6, 0x308A, 0x6D88, 0x3055, 0x308C, 0x307E, 0x3057, 0x305F]
      else utf8 [0x9707, 0x592E] @ '':'' @ coordinates t @ ''('' @ center_name t @ '')''
        @ utf8 [0x6DF1, 0x3055] @ itoa (center_depth t) @ ''km'' @ '' '' @ utf8 [0x6700, 0x5927] @ '':M''
        @ fmt_1f (magnitude t) @ '' '' @ utf8 [0x9707, 0x5EA6] @ shindo t)"

lemma fmt_1f_bytes: "c \<in> set (fmt_1f z) \<Longrightarrow> is_digit c \<or> c = CHR ''-'' \<or> c = CHR ''.''"
  by (auto simp: fmt_1f_def dest: set_show_nat split: if_splits)

lemma uri_bytes: "CHR ''|'' \<notin> set (map_uri t)" "nl \<notin> set (map_uri t)"
  by (auto simp: map_uri_def is_digit_def dest!: fmt_1f_bytes)

lemma coordinate_bytes: "CHR ''>'' \<notin> set (coordinates t)" "nl \<notin> set (coordinates t)"
  by (auto simp: coordinates_def is_digit_def dest!: fmt_1f_bytes)

lemma opt_digits: "opt_len is_digit n s \<Longrightarrow> list_all is_digit s"
  by (auto simp: opt_len_def)

text \<open>C27. What IRC shows is the Slack message with each link replaced by its label: for every input, the
  text sent to IRC is the formatted text with the map address taken out and everything else in place,
  and no byte of markup is left.\<close>

theorem irc_text_is_plain:
  "let t = decode raw in strip_links (fst (format t)) = plain_text t \<and> CHR ''<'' \<notin> set (plain_text t)"
proof -
  define t where "t = decode raw"
  have wf: "wf_telegram t" unfolding t_def by (rule wf_decode)
  then have times: "no_markup (stamp (split_pairs (warn_time t)))" "no_markup (stamp (split_pairs (eq_time t)))"
    by (auto simp: wf_telegram_def intro: no_markup_stamp opt_digits)
  have names: "no_markup (center_name t)" "no_markup (shindo t)"
    using wf by (simp_all add: wf_telegram_def no_markup_epicenter no_markup_shindo)
  have label: "no_markup (coordinates t)" and ft: "no_markup (format_times t)"
    by (simp_all add: coordinates_def format_times_def)
  have plain: "CHR ''<'' \<notin> set (plain_text t)"
    using times names label ft by (simp add: plain_text_def flip: no_markup_def)
  let ?pre = "stamp (split_pairs (warn_time t)) @ format_times t @ '' ('' @
     stamp (split_pairs (eq_time t)) @ utf8 [0x767A, 0x751F] @ '')'' @ utf8 [0x9707, 0x592E] @ '':''"
  let ?post = "''('' @ center_name t @ '')'' @ utf8 [0x6DF1, 0x3055] @ itoa (center_depth t) @ ''km'' @ '' ''
     @ utf8 [0x6700, 0x5927] @ '':M'' @ fmt_1f (magnitude t) @ '' '' @ utf8 [0x9707, 0x5EA6] @ shindo t"
  have "strip_links (fst (format t)) = plain_text t"
  proof (cases "is_cancellation t")
    case True
    then have "fst (format t) = plain_text t" by (simp add: format_def plain_text_def Let_def)
    with plain show ?thesis by (simp add: strip_none)
  next
    case False
    then have "fst (format t) = ?pre @ ''<'' @ map_uri t @ ''|'' @ coordinates t @ ''>'' @ ?post"
      by (simp add: format_def Let_def)
    moreover have "strip_links (?pre @ ''<'' @ map_uri t @ ''|'' @ coordinates t @ ''>'' @ ?post) =
        ?pre @ coordinates t @ ?post"
    proof (rule strip_one)
      have "no_markup ?pre" "no_markup ?post" using times names ft by simp_all
      then show "CHR ''<'' \<notin> set ?pre" "CHR ''<'' \<notin> set ?post" unfolding no_markup_def .
    qed (simp_all only: uri_bytes coordinate_bytes not_False_eq_True)
    moreover have "plain_text t = ?pre @ coordinates t @ ?post"
      using False by (simp add: plain_text_def)
    ultimately show ?thesis by (simp only:)
  qed
  with plain show ?thesis unfolding t_def by simp
qed

end
