(* ===== verification/Backoff.thy ===== *)
theory Backoff
  imports Prelude
begin

text \<open>
  The reconnect loops of \<open>internal/irc/connection.go\<close> (\<open>Connection.Run\<close>) and \<open>internal/app/app.go\<close>
  (\<open>runConnectionLoop\<close>) wait between attempts for a delay that doubles up to a cap.  A duration is a
  number of nanoseconds; the delays stay far below the 64-bit range.  A turn of a loop is a function of
  the current delay and of what happened in it; the contract bounds every delay.
\<close>

definition second :: int where
  "second = 1000000000"

definition next_backoff :: "int \<Rightarrow> int \<Rightarrow> int" where
  "next_backoff cur mx = (let next = cur * 2 in if next > mx then mx else next)"

lemma next_backoff_min: "next_backoff cur mx = min (2 * cur) mx"
  by (simp add: next_backoff_def Let_def)

text \<open>A turn either ends the loop (\<open>None\<close>) or gives the delay slept, if any, and the next delay.\<close>

type_synonym 'r turn = "int \<Rightarrow> 'r \<Rightarrow> (int option \<times> int) option"

fun run_turns :: "'r turn \<Rightarrow> int \<Rightarrow> 'r list \<Rightarrow> int option list \<times> int" where
  "run_turns turn b [] = ([], b)"
| "run_turns turn b (r # rs) =
     (case turn b r of
        None \<Rightarrow> ([], b)
      | Some (w, b') \<Rightarrow> let (ws, b'') = run_turns turn b' rs in (w # ws, b''))"

definition slept :: "'r turn \<Rightarrow> int \<Rightarrow> 'r list \<Rightarrow> int list" where
  "slept turn b rs = List.map_filter id (fst (run_turns turn b rs))"

lemma slept_simps [simp]:
  "slept turn b [] = []"
  "slept turn b (r # rs) =
     (case turn b r of
        None \<Rightarrow> []
      | Some (None, b') \<Rightarrow> slept turn b' rs
      | Some (Some d, b') \<Rightarrow> d # slept turn b' rs)"
  by (auto simp: slept_def map_filter_simps split: option.splits prod.splits)

lemma scaled_min:
  fixes hi b :: int
  assumes "0 < hi" "0 < b"
  shows "min (2 ^ k * min (2 * b) hi) hi = min (2 ^ Suc k * b) hi"
proof (cases "2 * b \<le> hi")
  case False
  have up: "x \<le> 2 ^ k * x" if "0 < x" for x :: int using that by (simp add: mult_le_cancel_right1)
  have "2 ^ Suc k * b = 2 ^ k * (2 * b)" by simp
  then have "hi \<le> 2 ^ Suc k * b" using up [of "2 * b"] assms(2) False by linarith
  then show ?thesis using up [OF assms(1)] False by (simp add: min_absorb2)
qed (simp add: mult.left_commute mult.assoc)

locale capped_backoff =
  fixes turn :: "'r turn"
    and lo hi :: int
    and failed :: "'r \<Rightarrow> bool"
  assumes range: "0 < lo" "lo \<le> hi"
    and turn_failed: "failed r \<Longrightarrow> turn b r = Some (Some b, next_backoff b hi)"
    and turn_bounds: "lo \<le> b \<Longrightarrow> b \<le> hi \<Longrightarrow> turn b r = Some (w, b') \<Longrightarrow>
      lo \<le> b' \<and> b' \<le> hi \<and> (\<forall>d. w = Some d \<longrightarrow> lo \<le> d \<and> d \<le> hi)"
begin

lemma slept_bounds: "lo \<le> b \<Longrightarrow> b \<le> hi \<Longrightarrow> d \<in> set (slept turn b rs) \<Longrightarrow> lo \<le> d \<and> d \<le> hi"
proof (induction rs arbitrary: b)
  case (Cons r rs)
  show ?case
  proof (cases "turn b r")
    case (Some wb)
    then obtain w b' where wb: "turn b r = Some (w, b')" by (cases wb) auto
    with turn_bounds [OF Cons.prems(1,2) wb] Cons show ?thesis by (cases w) auto
  qed (use Cons in simp)
qed simp

lemma slept_failures:
  assumes "lo \<le> b" "b \<le> hi" "\<forall>r \<in> set rs. failed r"
  shows "slept turn b rs = map (\<lambda>k. min (2 ^ k * b) hi) [0..<length rs]"
  using assms
proof (induction rs arbitrary: b)
  case (Cons r rs)
  have t: "turn b r = Some (Some b, next_backoff b hi)" using Cons.prems(3) by (simp add: turn_failed)
  have b': "lo \<le> next_backoff b hi" "next_backoff b hi \<le> hi"
    using turn_bounds [OF Cons.prems(1,2) t] by auto
  have step: "min (2 ^ k * next_backoff b hi) hi = min (2 ^ Suc k * b) hi" for k
    using scaled_min [of hi b k] range Cons.prems(1) by (simp add: next_backoff_min)
  have "[0..<length (r # rs)] = 0 # map Suc [0..<length rs]"
    by (simp add: upt_conv_Cons map_Suc_upt del: upt_Suc)
  then show ?case
    using Cons.IH [OF b'] Cons.prems(2,3) t step by (simp add: comp_def min_absorb1 del: upt_Suc)
qed simp

end

end
