(* ===== verification/Irc_Connection.thy ===== *)
theory Irc_Connection
  imports Irc_Dispatcher Irc_Text Backoff
begin

text \<open>
  \<open>internal/irc/connection.go\<close>: one IRC connection.  The reconnect loop \<open>Run\<close> is a turn function under the
  contract of the theory Backoff.  The rest is a state machine: the ready channel (an identity and the
  set of closed identities), the queue, the dispatcher, the position of the \<open>writeLoop\<close> goroutine and what
  went on the wire, driven by events that arrive in any order: telegrams, the CONNECTED and DISCONNECTED
  callbacks of goirc, cancellation of the context, and steps of the writer.
\<close>


section \<open>Reconnecting\<close>

definition initialBackoff :: int where "initialBackoff = 1 * second"
definition maxBackoff :: int where "maxBackoff = 60 * second"
definition stableConnectionThreshold :: int where "stableConnectionThreshold = 30 * second"

definition backoff_after_disconnect :: "int \<Rightarrow> int \<Rightarrow> int" where
  "backoff_after_disconnect cur connected_for =
     (if connected_for \<ge> stableConnectionThreshold then initialBackoff else next_backoff cur maxBackoff)"

text \<open>A turn of \<open>Run\<close>: the context is done at the loop's head; the connect fails, with the context done
  by then or with the sleep completed or cut short; or a session of some length ended by a disconnect
  or by the context.\<close>

datatype irc_round =
    Ctx_done
  | Connect_failed bool bool  \<comment> \<open>context done, sleep completed\<close>
  | Session int bool bool  \<comment> \<open>uptime, context done, sleep completed\<close>

fun irc_turn :: "irc_round turn" where
  "irc_turn b Ctx_done = None"
| "irc_turn b (Connect_failed cancelled full) =
     (if cancelled then None else if \<not> full then None else Some (Some b, next_backoff b maxBackoff))"
| "irc_turn b (Session up cancelled full) =
     (if cancelled then None
      else let b' = backoff_after_disconnect b up
           in if up \<ge> stableConnectionThreshold then Some (None, b')
              else if \<not> full then None else Some (Some b', b'))"

fun connect_failed :: "irc_round \<Rightarrow> bool" where
  "connect_failed (Connect_failed cancelled full) \<longleftrightarrow> \<not> cancelled \<and> full"
| "connect_failed _ \<longleftrightarrow> False"

lemmas backoff_consts = initialBackoff_def maxBackoff_def stableConnectionThreshold_def second_def

interpretation irc_backoff: capped_backoff irc_turn initialBackoff maxBackoff connect_failed
proof unfold_locales
  show "0 < initialBackoff" "initialBackoff \<le> maxBackoff" by (simp_all add: backoff_consts)
  show "connect_failed r \<Longrightarrow> irc_turn b r = Some (Some b, next_backoff b maxBackoff)" for r b
    by (cases r) auto
  show "initialBackoff \<le> b' \<and> b' \<le> maxBackoff \<and> (\<forall>d. w = Some d \<longrightarrow> initialBackoff \<le> d \<and> d \<le> maxBackoff)"
    if "initialBackoff \<le> b" "b \<le> maxBackoff" "irc_turn b r = Some (w, b')" for b r w b'
    using that
    by (cases r) (auto simp: next_backoff_min backoff_after_disconnect_def Let_def backoff_consts split: if_splits)
qed

text \<open>Turns in which no connection stayed up long enough.\<close>

fun unstable :: "irc_round \<Rightarrow> bool" where
  "unstable Ctx_done \<longleftrightarrow> False"
| "unstable (Connect_failed cancelled full) \<longleftrightarrow> \<not> cancelled \<and> full"
| "unstable (Session up cancelled full) \<longleftrightarrow> \<not> cancelled \<and> full \<and> up < stableConnectionThreshold"

lemma slept_unstable:
  assumes "initialBackoff \<le> b" "b \<le> maxBackoff" "\<forall>r \<in> set rs. unstable r"
  shows "length (slept irc_turn b rs) = length rs \<and> sorted (b # slept irc_turn b rs)
    \<and> (\<forall>k < length rs. min (2 ^ k * b) maxBackoff \<le> slept irc_turn b rs ! k)"
  using assms
proof (induction rs arbitrary: b)
  case (Cons r rs)
  obtain w where t: "irc_turn b r = Some (Some w, next_backoff b maxBackoff)"
    and w: "w = b \<or> w = next_backoff b maxBackoff"
    using Cons.prems(3) by (cases r) (auto simp: backoff_after_disconnect_def Let_def)
  let ?b = "next_backoff b maxBackoff"
  have b: "initialBackoff \<le> ?b" "?b \<le> maxBackoff" "b \<le> ?b" "0 < b"
    using Cons.prems(1,2) by (auto simp: next_backoff_min backoff_consts)
  note IH = Cons.IH [OF b(1,2)]
  have "min (2 ^ k * b) maxBackoff \<le> slept irc_turn b (r # rs) ! k" if k: "k < length (r # rs)" for k
  proof (cases k)
    case 0
    then show ?thesis using t w b by auto
  next
    case (Suc j)
    have "min (2 ^ k * b) maxBackoff = min (2 ^ j * ?b) maxBackoff"
      using scaled_min [of maxBackoff b j] Suc b(4) by (simp add: next_backoff_min backoff_consts)
    also have "\<dots> \<le> slept irc_turn ?b rs ! j" using IH Cons.prems(3) k Suc by auto
    finally show ?thesis using t Suc by simp
  qed
  then show ?case using IH Cons.prems(3) t w b(3) by auto
qed simp

text \<open>The reconnect loop of an IRC connection cannot hammer a server: every delay it sleeps is
  between one second and one minute, whatever happens.  As long as no connection has stayed up for 30
  seconds, failed connects and connections that die at once alike, it sleeps in every turn, the delays
  never decrease, and the \<open>k\<close>-th one is at least \<open>2^k\<close> seconds or the cap; for failed connects alone they
  are exactly that.\<close>

lemma irc_backoff_bounded:
  "(\<forall>d \<in> set (slept irc_turn initialBackoff rs). 1 * second \<le> d \<and> d \<le> 60 * second)
   \<and> (list_all unstable rs \<longrightarrow>
        length (slept irc_turn initialBackoff rs) = length rs \<and> sorted (slept irc_turn initialBackoff rs)
        \<and> (\<forall>k < length rs. min (2 ^ k * second) (60 * second) \<le> slept irc_turn initialBackoff rs ! k))
   \<and> (list_all connect_failed rs \<longrightarrow>
        slept irc_turn initialBackoff rs = map (\<lambda>k. min (2 ^ k * second) (60 * second)) [0..<length rs])"
proof (intro conjI impI)
  have i: "initialBackoff \<le> initialBackoff" "initialBackoff \<le> maxBackoff" by (simp_all add: backoff_consts)
  show "\<forall>d \<in> set (slept irc_turn initialBackoff rs). 1 * second \<le> d \<and> d \<le> 60 * second"
    using irc_backoff.slept_bounds [OF i] by (auto simp: initialBackoff_def maxBackoff_def)
  {
    assume "list_all unstable rs"
    then have "\<forall>r \<in> set rs. unstable r" by (simp add: list_all_iff)
    from slept_unstable [OF i this]
    show "length (slept irc_turn initialBackoff rs) = length rs" "sorted (slept irc_turn initialBackoff rs)"
      "\<forall>k < length rs. min (2 ^ k * second) (60 * second) \<le> slept irc_turn initialBackoff rs ! k"
      by (simp_all add: initialBackoff_def maxBackoff_def)
  }
  assume "list_all connect_failed rs"
  then have "\<forall>r \<in> set rs. connect_failed r" by (simp add: list_all_iff)
  from irc_backoff.slept_failures [OF i this]
  show "slept irc_turn initialBackoff rs = map (\<lambda>k. min (2 ^ k * second) (60 * second)) [0..<length rs]"
    by (simp add: initialBackoff_def maxBackoff_def)
qed

lemma irc_backoff_bounded_example:
  "slept irc_turn initialBackoff [Connect_failed False True, Connect_failed False True, Connect_failed False True]
     = [1 * second, 2 * second, 4 * second]"
proof -
  let ?rs = "[Connect_failed False True, Connect_failed False True, Connect_failed False True]"
  have "list_all connect_failed ?rs" by simp
  then have "slept irc_turn initialBackoff ?rs = map (\<lambda>k. min (2 ^ k * second) (60 * second)) [0..<length ?rs]"
    using irc_backoff_bounded [of ?rs] by (elim conjE) (rule mp)
  also have "\<dots> = [1 * second, 2 * second, 4 * second]"
    by (simp add: second_def upt_rec)
  finally show ?thesis .
qed


section \<open>State\<close>

datatype message_type = Notice_type | Privmsg_type

text \<open>\<open>parseMessageType\<close>: the second component is \<open>ok\<close>.\<close>

definition parse_message_type :: "string \<Rightarrow> message_type \<times> bool" where
  "parse_message_type s =
     (if s \<in> {[], ''notice''} then (Notice_type, True)
      else if s = ''privmsg'' then (Privmsg_type, True)
      else (Notice_type, False))"

text \<open>What the connection is configured with; the encoder for ISO-2022-JP is a parameter.\<close>

record conn_env =
  e_enc :: "string \<Rightarrow> bytes option"
  e_charset :: string
  e_type :: message_type

text \<open>Commands handed to goirc.\<close>

datatype sent = Join bytes | Sent_notice bytes bytes | Sent_privmsg bytes bytes

text \<open>Where \<open>writeLoop\<close> is: at its head, in the \<open>select\<close> of \<open>waitReady\<close> with the channel it read, in
  \<open>Dequeue\<close>, in the loop over the channels, or returned.\<close>

datatype writer = At_head | Awaiting nat | In_dequeue | Sending bytes "string list" | Returned_writer

record connection =
  c_dispatcher :: irc_dispatcher
  c_queue :: queue
  c_ready :: nat  \<comment> \<open>the channel in the field \<open>ready\<close>\<close>
  c_fresh :: nat
  c_closed :: "nat set"
  c_token :: bool  \<comment> \<open>the buffered channel \<open>reconnect\<close>\<close>
  c_done :: bool  \<comment> \<open>the context\<close>
  c_panicked :: bool
  c_writer :: writer
  c_wire :: "sent list"

definition defaultQueueCapacity :: int where "defaultQueueCapacity = 32"

definition new_connection :: "string list \<Rightarrow> string list \<Rightarrow> connection" where
  "new_connection all lim = \<lparr>c_dispatcher = new_irc_dispatcher all lim,
     c_queue = new_queue defaultQueueCapacity, c_ready = 0, c_fresh = 1, c_closed = {},
     c_token = False, c_done = False, c_panicked = False, c_writer = At_head, c_wire = []\<rparr>"


text \<open>\<open>NewConnection\<close> on a configured server: the state, and what the connection is configured with.\<close>

definition start_connection :: "irc_server_config \<Rightarrow> connection" where
  "start_connection srv = new_connection (irc_all_notice srv) (irc_limited_notice srv)"

definition conn_env_of :: "(string \<Rightarrow> bytes option) \<Rightarrow> irc_server_config \<Rightarrow> conn_env" where
  "conn_env_of enc srv = \<lparr>e_enc = enc, e_charset = srv_charset (irc_server srv),
     e_type = fst (parse_message_type (srv_message_type (irc_server srv)))\<rparr>"


section \<open>Steps\<close>

definition notify :: "telegram \<Rightarrow> string \<Rightarrow> connection \<Rightarrow> connection" where
  "notify t slack_text c =
     (let ((channels, prio), d) = channels_for (c_dispatcher c) t;
          c' = c\<lparr>c_dispatcher := d\<rparr>
      in if channels = [] then c'
         else c'\<lparr>c_queue := enqueue \<lparr>n_eq = eq_id t, n_channels = channels,
             n_text = strip_links slack_text, n_priority = prio\<rparr> (c_queue c')\<rparr>)"

text \<open>The channels whose names can be encoded are joined, then the ready channel is closed under the
  lock.  Closing a closed channel panics, with the lock held.\<close>

definition handle_connected :: "conn_env \<Rightarrow> connection \<Rightarrow> connection" where
  "handle_connected e c =
     (let joins = List.map_filter (\<lambda>ch. case encode_text (e_enc e) (e_charset e) ch of
            Inl _ \<Rightarrow> None | Inr b \<Rightarrow> Some (Join b)) (join_channels (c_dispatcher c));
          c' = c\<lparr>c_wire := c_wire c @ joins\<rparr>
      in if c_panicked c then c'  \<comment> \<open>blocked on the lock\<close>
         else if c_ready c \<in> c_closed c then c'\<lparr>c_panicked := True\<rparr>
         else c'\<lparr>c_closed := insert (c_ready c) (c_closed c)\<rparr>)"

definition handle_disconnected :: "connection \<Rightarrow> connection" where
  "handle_disconnected c =
     (if c_panicked c then c
      else c\<lparr>c_ready := c_fresh c, c_fresh := Suc (c_fresh c), c_token := True\<rparr>)"

definition send_one :: "conn_env \<Rightarrow> bytes \<Rightarrow> string \<Rightarrow> sent list" where
  "send_one e txt ch =
     (case encode_text (e_enc e) (e_charset e) ch of
        Inl _ \<Rightarrow> []
      | Inr b \<Rightarrow> [case e_type e of Notice_type \<Rightarrow> Sent_notice b txt | Privmsg_type \<Rightarrow> Sent_privmsg b txt])"

text \<open>One step of \<open>writeLoop\<close>; where it is blocked the state stays as it is.  With the context done and
  the channel closed too, the \<open>select\<close> may take either branch: the flag says which.\<close>

fun writer_step :: "conn_env \<Rightarrow> bool \<Rightarrow> connection \<Rightarrow> connection" where
  "writer_step e prefer_done c =
     (case c_writer c of
        At_head \<Rightarrow> if c_panicked c then c else c\<lparr>c_writer := Awaiting (c_ready c)\<rparr>
      | Awaiting k \<Rightarrow>
          if c_done c \<and> (prefer_done \<or> k \<notin> c_closed c) then c\<lparr>c_writer := Returned_writer\<rparr>
          else if k \<in> c_closed c then c\<lparr>c_writer := In_dequeue\<rparr>
          else c
      | In_dequeue \<Rightarrow>
          (case dequeue (c_queue c) of
             (Would_wait, _) \<Rightarrow> c
           | (Not_ok, q) \<Rightarrow> c\<lparr>c_queue := q, c_writer := Returned_writer\<rparr>
           | (Took n, q) \<Rightarrow>
               (case encode_text (e_enc e) (e_charset e) (n_text n) of
                  Inl _ \<Rightarrow> c\<lparr>c_queue := q, c_writer := At_head\<rparr>
                | Inr txt \<Rightarrow> c\<lparr>c_queue := q, c_writer := Sending txt (n_channels n)\<rparr>))
      | Sending txt [] \<Rightarrow> c\<lparr>c_writer := At_head\<rparr>
      | Sending txt (ch # chs) \<Rightarrow>
          c\<lparr>c_wire := c_wire c @ send_one e txt ch, c_writer := Sending txt chs\<rparr>
      | Returned_writer \<Rightarrow> c)"

declare writer_step.simps [simp del]

datatype conn_event =
    Telegram telegram string
  | Connected
  | Disconnected
  | Cancelled
  | Queue_closed
  | Writer_step bool

fun conn_step :: "conn_env \<Rightarrow> conn_event \<Rightarrow> connection \<Rightarrow> connection" where
  "conn_step e (Telegram t s) c = notify t s c"
| "conn_step e Connected c = handle_connected e c"
| "conn_step e Disconnected c = handle_disconnected c"
| "conn_step e Cancelled c = c\<lparr>c_done := True\<rparr>"
| "conn_step e Queue_closed c = (if c_done c then c\<lparr>c_queue := close_queue (c_queue c)\<rparr> else c)"
| "conn_step e (Writer_step p) c = writer_step e p c"

definition conn_run :: "conn_env \<Rightarrow> conn_event list \<Rightarrow> connection \<Rightarrow> connection" where
  "conn_run e evs c = foldl (\<lambda>c ev. conn_step e ev c) c evs"

lemma conn_run_simps [simp]:
  "conn_run e [] c = c" "conn_run e (ev # evs) c = conn_run e evs (conn_step e ev c)"
  "conn_run e (xs @ ys) c = conn_run e ys (conn_run e xs c)"
  by (simp_all add: conn_run_def)

lemma conn_run_induct [consumes 1, case_names step]:
  assumes "P c" and "\<And>ev c. ev \<in> set evs \<Longrightarrow> P c \<Longrightarrow> P (conn_step e ev c)"
  shows "P (conn_run e evs c)"
  using assms by (induction evs arbitrary: c) auto


section \<open>What goes on the wire\<close>

definition wire_ok :: "conn_env \<Rightarrow> conn_event set \<Rightarrow> string set \<Rightarrow> sent \<Rightarrow> bool" where
  "wire_ok e evs chs x \<longleftrightarrow>
     (case x of
        Join b \<Rightarrow> \<exists>ch \<in> chs. encode_text (e_enc e) (e_charset e) ch = Inr b
      | Sent_notice b txt \<Rightarrow> e_type e = Notice_type \<and> (\<exists>t s. Telegram t s \<in> evs
          \<and> encode_text (e_enc e) (e_charset e) (strip_links s) = Inr txt
          \<and> (\<exists>ch \<in> chs. encode_text (e_enc e) (e_charset e) ch = Inr b))
      | Sent_privmsg b txt \<Rightarrow> e_type e = Privmsg_type \<and> (\<exists>t s. Telegram t s \<in> evs
          \<and> encode_text (e_enc e) (e_charset e) (strip_links s) = Inr txt
          \<and> (\<exists>ch \<in> chs. encode_text (e_enc e) (e_charset e) ch = Inr b)))"

definition notice_ok :: "conn_event set \<Rightarrow> string set \<Rightarrow> notice \<Rightarrow> bool" where
  "notice_ok evs chs n \<longleftrightarrow> set (n_channels n) \<subseteq> chs
     \<and> (\<exists>t s. Telegram t s \<in> evs \<and> n_eq n = eq_id t \<and> n_text n = strip_links s)"

definition wire_inv :: "conn_env \<Rightarrow> conn_event set \<Rightarrow> string list \<Rightarrow> string list \<Rightarrow> connection \<Rightarrow> bool" where
  "wire_inv e evs all lim c \<longleftrightarrow> i_all (c_dispatcher c) = all \<and> i_limited (c_dispatcher c) = lim
     \<and> queue_inv (c_queue c) \<and> (\<forall>n \<in> set (pending (c_queue c)). notice_ok evs (set all \<union> set lim) n)
     \<and> (\<forall>txt chs. c_writer c = Sending txt chs \<longrightarrow> set chs \<subseteq> set all \<union> set lim
          \<and> (\<exists>t s. Telegram t s \<in> evs \<and> encode_text (e_enc e) (e_charset e) (strip_links s) = Inr txt))
     \<and> (\<forall>x \<in> set (c_wire c). wire_ok e evs (set all \<union> set lim) x)"

lemma enqueue_pending:
  "queue_inv q \<Longrightarrow> queue_inv (enqueue n q) \<and> set (pending (enqueue n q)) \<subseteq> insert n (set (pending q))"
  using enqueue_spec [of q n] set_spec_enqueue by (cases "q_closed q") (auto simp: enqueue_closed)

lemma channels_for_props:
  "set (fst (fst (channels_for d t))) \<subseteq> set (i_all d) \<union> set (i_limited d)"
  "i_all (snd (channels_for d t)) = i_all d" "i_limited (snd (channels_for d t)) = i_limited d"
  by (auto simp: channels_for_def Let_def)

lemma wire_inv_notify:
  assumes "wire_inv e evs all lim c" "Telegram t s \<in> evs"
  shows "wire_inv e evs all lim (notify t s c)"
proof -
  obtain chs prio d where ch: "channels_for (c_dispatcher c) t = ((chs, prio), d)"
    by (metis prod.collapse)
  let ?n = "\<lparr>n_eq = eq_id t, n_channels = chs, n_text = strip_links s, n_priority = prio\<rparr>"
  have d: "i_all d = all" "i_limited d = lim" "set chs \<subseteq> set all \<union> set lim"
    using channels_for_props [of "c_dispatcher c" t] assms(1) by (auto simp: ch wire_inv_def)
  have q: "queue_inv (enqueue ?n (c_queue c))"
    "set (pending (enqueue ?n (c_queue c))) \<subseteq> insert ?n (set (pending (c_queue c)))"
    using enqueue_pending assms(1) by (auto simp: wire_inv_def)
  have "notice_ok evs (set all \<union> set lim) ?n" using d(3) assms(2) by (auto simp: notice_ok_def)
  then show ?thesis using assms(1) d q by (auto simp: wire_inv_def notify_def ch Let_def)
qed

lemma wire_inv_connected:
  assumes "wire_inv e evs all lim c"
  shows "wire_inv e evs all lim (handle_connected e c)"
proof -
  have "set (join_channels (c_dispatcher c)) = set all \<union> set lim"
    using assms by (simp add: join_channels_def wire_inv_def)
  then show ?thesis using assms
    by (auto simp: handle_connected_def wire_inv_def Let_def wire_ok_def map_filter_def split: sum.splits)
qed

lemma wire_ok_send:
  assumes "Telegram t s \<in> evs" "encode_text (e_enc e) (e_charset e) (strip_links s) = Inr msg"
    and "ch \<in> chs" "x \<in> set (send_one e msg ch)"
  shows "wire_ok e evs chs x"
proof (cases "encode_text (e_enc e) (e_charset e) ch")
  case (Inr b)
  then show ?thesis using assms by (cases "e_type e") (auto simp: send_one_def wire_ok_def)
qed (use assms in \<open>simp add: send_one_def\<close>)

lemma wire_inv_writer:
  assumes "wire_inv e evs all lim c"
  shows "wire_inv e evs all lim (writer_step e p c)"
proof (cases "c_writer c")
  case In_dequeue
  have q: "queue_inv (c_queue c)" using assms by (simp add: wire_inv_def)
  note d = dequeue_spec [OF q]
  show ?thesis
  proof (cases "dequeue (c_queue c)")
    case (Pair r q')
    have q': "queue_inv q'" "pending q' = tl (pending (c_queue c))" using d Pair by simp_all
    then have sub: "set (pending q') \<subseteq> set (pending (c_queue c))" by (metis list.set_sel(2) subsetI tl_Nil)
    have "r = Took n \<Longrightarrow> n \<in> set (pending (c_queue c))" for n
      using d Pair by (auto split: list.splits if_splits)
    then have "r = Took n \<Longrightarrow> notice_ok evs (set all \<union> set lim) n" for n
      using assms by (auto simp: wire_inv_def)
    then show ?thesis using assms In_dequeue Pair q'(1) sub
      by (auto simp: wire_inv_def writer_step.simps notice_ok_def split: dequeued.splits sum.splits) (metis+)
  qed
next
  case (Sending msg chs)
  show ?thesis
  proof (cases chs)
    case Nil
    then show ?thesis using assms Sending by (simp add: wire_inv_def writer_step.simps)
  next
    case (Cons ch rest)
    obtain t s where ts: "Telegram t s \<in> evs" "encode_text (e_enc e) (e_charset e) (strip_links s) = Inr msg"
      and ch: "ch \<in> set all \<union> set lim" "set rest \<subseteq> set all \<union> set lim"
      using assms Sending Cons by (auto simp: wire_inv_def)
    have "\<forall>x \<in> set (send_one e msg ch). wire_ok e evs (set all \<union> set lim) x"
      using wire_ok_send [OF ts ch(1)] by blast
    then show ?thesis using assms Sending Cons ts ch
      by (auto simp: wire_inv_def writer_step.simps)
  qed
qed (use assms in \<open>auto simp: wire_inv_def writer_step.simps\<close>)

lemma wire_inv_step:
  "wire_inv e evs all lim c \<Longrightarrow> ev \<in> evs \<Longrightarrow> wire_inv e evs all lim (conn_step e ev c)"
  by (cases ev)
    (auto simp: wire_inv_notify wire_inv_connected wire_inv_writer, auto simp: wire_inv_def handle_disconnected_def)

lemma wire_inv_new: "wire_inv e evs all lim (new_connection all lim)"
  by (simp add: wire_inv_def new_connection_def new_irc_dispatcher_def queue_inv_new)
    (simp add: pending_def new_queue_def)

text \<open>C19. Nothing unwarranted is sent: in every history, every message handed to the IRC library is of the
  configured kind, addresses the encoded name of a configured channel, and carries the encoded,
  link-free text of a telegram that was notified before; every JOIN names a configured channel.\<close>

theorem irc_wire_sound:
  "list_all (wire_ok e (set evs) (set all \<union> set lim)) (c_wire (conn_run e evs (new_connection all lim)))"
proof -
  have "wire_inv e (set evs) all lim (conn_run e evs (new_connection all lim))"
    by (rule conn_run_induct) (simp_all add: wire_inv_new wire_inv_step)
  then show ?thesis by (simp add: wire_inv_def list_all_iff)
qed


section \<open>The ready channel\<close>

text \<open>Histories in which the callbacks alternate, CONNECTED first; and whether the connection is up at
  the end.\<close>

fun alternates :: "bool \<Rightarrow> conn_event list \<Rightarrow> bool" where
  "alternates up [] \<longleftrightarrow> True"
| "alternates up (Connected # evs) \<longleftrightarrow> \<not> up \<and> alternates True evs"
| "alternates up (Disconnected # evs) \<longleftrightarrow> up \<and> alternates False evs"
| "alternates up (_ # evs) \<longleftrightarrow> alternates up evs"

fun up_after :: "bool \<Rightarrow> conn_event list \<Rightarrow> bool" where
  "up_after up [] = up"
| "up_after up (Connected # evs) = up_after True evs"
| "up_after up (Disconnected # evs) = up_after False evs"
| "up_after up (_ # evs) = up_after up evs"

definition ready_inv :: "bool \<Rightarrow> connection \<Rightarrow> bool" where
  "ready_inv up c \<longleftrightarrow> \<not> c_panicked c \<and> (c_ready c \<in> c_closed c \<longleftrightarrow> up) \<and> c_ready c < c_fresh c
     \<and> (\<forall>k \<in> c_closed c. k < c_fresh c)
     \<and> (\<forall>k. c_writer c = Awaiting k \<longrightarrow> k = c_ready c \<or> k \<in> c_closed c)"

lemma ready_inv_writer: "ready_inv up c \<Longrightarrow> ready_inv up (writer_step e p c)"
  by (auto simp: ready_inv_def writer_step.simps
      split: writer.splits dequeued.splits prod.splits list.splits sum.splits)

lemma ready_inv_notify: "ready_inv up c \<Longrightarrow> ready_inv up (notify t s c)"
  by (auto simp: ready_inv_def notify_def Let_def split: prod.splits)

lemma ready_inv_run:
  "ready_inv up c \<Longrightarrow> alternates up evs \<Longrightarrow> ready_inv (up_after up evs) (conn_run e evs c)"
proof (induction evs arbitrary: up c)
  case (Cons ev evs)
  show ?case
  proof (cases ev)
    case Connected
    then have "ready_inv True (handle_connected e c)"
      using Cons.prems by (auto simp: ready_inv_def handle_connected_def Let_def)
    then show ?thesis using Cons.IH Cons.prems Connected by simp
  next
    case Disconnected
    then have "ready_inv False (handle_disconnected c)"
      using Cons.prems by (auto simp: ready_inv_def handle_disconnected_def)
    then show ?thesis using Cons.IH Cons.prems Disconnected by simp
  next
    case Cancelled
    then show ?thesis using Cons by (simp add: ready_inv_def)
  next
    case Queue_closed
    then show ?thesis using Cons by (simp add: ready_inv_def)
  qed (use Cons in \<open>simp_all add: ready_inv_writer ready_inv_notify\<close>)
qed simp

lemma ready_inv_new: "ready_inv False (new_connection all lim)"
  by (simp add: ready_inv_def new_connection_def)

text \<open>Before the context is cancelled nothing is closed and the writer does not return.\<close>

definition live :: "connection \<Rightarrow> bool" where
  "live c \<longleftrightarrow> \<not> c_done c \<and> c_writer c \<noteq> Returned_writer \<and> \<not> q_closed (c_queue c) \<and> queue_inv (c_queue c)"

lemma dequeue_snd: "dequeue q = (r, q') \<Longrightarrow> q' = snd (dequeue q)"
  by simp

lemma live_writer: "live c \<Longrightarrow> live (writer_step e p c)"
proof (cases "c_writer c")
  case In_dequeue
  assume l: "live c"
  obtain r q' where d: "dequeue (c_queue c) = (r, q')" by (cases "dequeue (c_queue c)")
  have "queue_inv q'" "\<not> q_closed q'" "r \<noteq> Not_ok"
    using dequeue_spec [of "c_queue c"] dequeue_fields(1) [of "c_queue c"] l d
    by (auto simp: live_def split: list.splits)
  then show ?thesis using l In_dequeue d
    by (auto simp: live_def writer_step.simps split: dequeued.splits sum.splits)
qed (auto simp: live_def writer_step.simps split: list.splits)

lemma live_run:
  assumes "live c" "Cancelled \<notin> set evs"
  shows "live (conn_run e evs c)"
  using assms(1)
proof (rule conn_run_induct [where P = live and evs = evs])
  fix ev c
  assume step: "ev \<in> set evs" "live c"
  show "live (conn_step e ev c)"
  proof (cases ev)
    case (Telegram t s)
    obtain chs prio d where "channels_for (c_dispatcher c) t = ((chs, prio), d)" by (metis prod.collapse)
    then show ?thesis using step enqueue_pending Telegram by (auto simp: live_def notify_def Let_def)
  next
    case (Writer_step p)
    then show ?thesis using step by (simp add: live_writer)
  qed (use step assms(2) in \<open>auto simp: live_def handle_connected_def handle_disconnected_def Let_def\<close>)
qed

lemma live_new: "live (new_connection all lim)"
  by (simp add: live_def new_connection_def queue_inv_new) (simp add: new_queue_def)


section \<open>The writer drains the queue\<close>

definition message_output :: "conn_env \<Rightarrow> notice \<Rightarrow> sent list" where
  "message_output e n =
     (case encode_text (e_enc e) (e_charset e) (n_text n) of
        Inl _ \<Rightarrow> [] | Inr msg \<Rightarrow> concat (map (send_one e msg) (n_channels n)))"

fun in_flight :: "conn_env \<Rightarrow> writer \<Rightarrow> sent list" where
  "in_flight e (Sending msg chs) = concat (map (send_one e msg) chs)"
| "in_flight e _ = []"

abbreviation steps :: "conn_env \<Rightarrow> nat \<Rightarrow> connection \<Rightarrow> connection" where
  "steps e k c \<equiv> conn_run e (replicate k (Writer_step False)) c"

lemma steps_trans: "steps e k c = c' \<Longrightarrow> steps e j c' = c'' \<Longrightarrow> \<exists>i. steps e i c = c''"
  by (rule exI [of _ "k + j"]) (simp add: replicate_add)

text \<open>While the connection is up and alive, the writer finishes the notice it is sending and comes to
  \<open>Dequeue\<close>; from there it takes and sends one notice after the other.\<close>

definition drainable :: "connection \<Rightarrow> bool" where
  "drainable c \<longleftrightarrow> live c \<and> ready_inv True c"

lemma drainable_step: "drainable c \<Longrightarrow> drainable (writer_step e p c)"
  by (simp add: drainable_def live_writer ready_inv_writer)

lemma to_dequeue:
  assumes "drainable c"
  shows "\<exists>k. steps e k c = c\<lparr>c_wire := c_wire c @ in_flight e (c_writer c), c_writer := In_dequeue\<rparr>"
proof -
  have head: "steps e 2 c = c\<lparr>c_writer := In_dequeue\<rparr>" if "drainable c" "c_writer c = At_head" for c
    using that by (simp add: numeral_2_eq_2 writer_step.simps drainable_def ready_inv_def live_def)
  have sending: "steps e (Suc (length chs)) c = c\<lparr>c_wire := c_wire c @ in_flight e (c_writer c), c_writer := At_head\<rparr>"
    if "c_writer c = Sending msg chs" for c msg chs
    using that
  proof (induction chs arbitrary: c)
    case (Cons ch chs)
    then show ?case
      using Cons.IH [of "writer_step e False c"] by (simp add: writer_step.simps)
  qed (simp add: writer_step.simps)
  show ?thesis
  proof (cases "c_writer c")
    case At_head
    then show ?thesis using head [OF assms] by (intro exI [of _ 2]) simp
  next
    case (Awaiting k)
    then have "k \<in> c_closed c" "\<not> c_done c"
      using assms by (auto simp: drainable_def ready_inv_def live_def)
    then show ?thesis using Awaiting by (intro exI [of _ 1]) (simp add: writer_step.simps)
  next
    case In_dequeue
    then show ?thesis by (intro exI [of _ 0]) simp
  next
    case (Sending msg chs)
    let ?c = "c\<lparr>c_wire := c_wire c @ in_flight e (c_writer c), c_writer := At_head\<rparr>"
    have "drainable ?c" using assms by (auto simp: drainable_def live_def ready_inv_def)
    from steps_trans [OF sending [OF Sending] head [OF this]] show ?thesis by simp
  qed (use assms in \<open>simp add: drainable_def live_def\<close>)
qed

lemma drain_all:
  assumes "drainable c" "c_writer c = In_dequeue" "pending (c_queue c) = ns"
  shows "\<exists>k. pending (c_queue (steps e k c)) = []
     \<and> c_wire (steps e k c) = c_wire c @ concat (map (message_output e) ns)"
  using assms
proof (induction ns arbitrary: c)
  case Nil
  then show ?case by (intro exI [of _ 0]) simp
next
  case (Cons n ns)
  have q: "queue_inv (c_queue c)" using Cons.prems(1) by (simp add: drainable_def live_def)
  obtain r q' where d: "dequeue (c_queue c) = (r, q')" by (cases "dequeue (c_queue c)")
  have r: "r = Took n" "pending q' = ns" using dequeue_spec [OF q] d Cons.prems(3) by simp_all
  let ?c1 = "steps e 1 c"
  have d1: "drainable ?c1" using Cons.prems(1) by (simp add: drainable_step)
  have c1: "c_wire ?c1 = c_wire c" "c_queue ?c1 = q'" "in_flight e (c_writer ?c1) = message_output e n"
    using Cons.prems(2) d r by (auto simp: writer_step.simps message_output_def split: sum.splits)
  from to_dequeue [OF d1, of e] obtain k where
    k: "steps e k ?c1 = ?c1\<lparr>c_wire := c_wire ?c1 @ in_flight e (c_writer ?c1), c_writer := In_dequeue\<rparr>" ..
  let ?c2 = "?c1\<lparr>c_wire := c_wire ?c1 @ in_flight e (c_writer ?c1), c_writer := In_dequeue\<rparr>"
  have "drainable ?c2" using d1 by (auto simp: drainable_def live_def ready_inv_def)
  with Cons.IH [of ?c2] r c1 obtain j where
    j: "pending (c_queue (steps e j ?c2)) = []"
    "c_wire (steps e j ?c2) = c_wire ?c2 @ concat (map (message_output e) ns)" by auto
  have "steps e (1 + (k + j)) c = steps e j ?c2" using k by (simp only: replicate_add conn_run_simps(3))
  then show ?case using j c1 by (intro exI [of _ "1 + (k + j)"]) simp
qed

text \<open>C10. Delivery: take any history in which goirc's callbacks alternate (CONNECTED first), whose context
  is not cancelled and at whose end the connection is up.  Then the writer has not stopped or lost
  its way: running it alone for enough steps empties the queue and hands to the IRC library, after what
  is already there, the rest of the notice it was sending and then every pending notice in queue order,
  to every one of its channels in order.\<close>

theorem writer_drains_queue:
  assumes "alternates False evs" "up_after False evs" "Cancelled \<notin> set evs"
  shows "\<exists>k. let c = conn_run e evs (new_connection all lim); c' = steps e k c
     in pending (c_queue c') = []
        \<and> c_wire c' = c_wire c @ in_flight e (c_writer c) @ concat (map (message_output e) (pending (c_queue c)))"
proof -
  define c where "c = conn_run e evs (new_connection all lim)"
  have dr: "drainable c"
    unfolding drainable_def c_def
    using live_run [OF live_new assms(3)] ready_inv_run [OF ready_inv_new assms(1)] assms(2) by simp
  from to_dequeue [OF dr, of e] obtain k where
    k: "steps e k c = c\<lparr>c_wire := c_wire c @ in_flight e (c_writer c), c_writer := In_dequeue\<rparr>" ..
  let ?c = "c\<lparr>c_wire := c_wire c @ in_flight e (c_writer c), c_writer := In_dequeue\<rparr>"
  have "drainable ?c" using dr by (auto simp: drainable_def live_def ready_inv_def)
  from drain_all [OF this, of "pending (c_queue c)" e] obtain j where
    j: "pending (c_queue (steps e j ?c)) = []"
    "c_wire (steps e j ?c) = c_wire ?c @ concat (map (message_output e) (pending (c_queue c)))" by auto
  have "steps e (k + j) c = steps e j ?c" using k by (simp only: replicate_add conn_run_simps(3))
  then show ?thesis unfolding c_def [symmetric] Let_def using j by (intro exI [of _ "k + j"]) simp
qed

lemma writer_drains_queue_witness:
  "alternates False [Connected, Telegram empty_telegram []] \<and> up_after False [Connected, Telegram empty_telegram []]
   \<and> (\<exists>k. let e = \<lparr>e_enc = Some, e_charset = [], e_type = Notice_type\<rparr>; c = conn_run e
       [Connected, Telegram empty_telegram []] (new_connection [''#a''] []);
       c' = steps e k c
     in pending (c_queue c') = []
        \<and> c_wire c' = c_wire c @ in_flight e (c_writer c) @ concat (map (message_output e) (pending (c_queue c))))"
  using writer_drains_queue [of "[Connected, Telegram empty_telegram []]" "\<lparr>e_enc = Some, e_charset = [], e_type = Notice_type\<rparr>" "[''#a'']" "[]"]
  by (simp add: Let_def)

definition orphaned :: "connection \<Rightarrow> bool" where
  "orphaned c \<longleftrightarrow> c_writer c = Awaiting 0 \<and> 0 \<notin> c_closed c \<and> 0 < c_ready c \<and> 0 < c_fresh c
     \<and> \<not> c_done c \<and> (\<forall>x \<in> set (c_wire c). \<exists>b. x = Join b)"

lemma orphaned_step: "orphaned c \<Longrightarrow> ev \<noteq> Cancelled \<Longrightarrow> orphaned (conn_step e ev c)"
  by (cases ev) (auto simp: orphaned_def notify_def handle_connected_def handle_disconnected_def
      writer_step.simps map_filter_def Let_def split: prod.splits sum.splits)

text \<open>C32. Where the callbacks do not alternate the writer can be lost for good: if it has reached
  \<open>waitReady\<close> and the server then drops the connection before registration (DISCONNECTED without a
  CONNECTED before it), the writer waits on a channel that no one will ever close: whatever happens
  later, reconnections and telegrams included, until the context is cancelled it stays there and
  nothing but JOINs goes out.\<close>

theorem writer_lost_after_early_disconnect:
  "let c = conn_run e [Writer_step p, Disconnected] (new_connection all lim);
       c' = conn_run e (filter (\<lambda>ev. ev \<noteq> Cancelled) evs) c
   in c_writer c' = Awaiting 0 \<and> 0 \<notin> c_closed c' \<and> list_all (\<lambda>x. \<exists>b. x = Join b) (c_wire c')"
proof -
  define c where "c = conn_run e [Writer_step p, Disconnected] (new_connection all lim)"
  have "orphaned c"
    by (simp add: c_def orphaned_def new_connection_def writer_step.simps handle_disconnected_def)
  then have "orphaned (conn_run e (filter (\<lambda>ev. ev \<noteq> Cancelled) evs) c)"
    by (rule conn_run_induct) (auto intro: orphaned_step)
  then show ?thesis unfolding c_def [symmetric] Let_def by (simp add: orphaned_def list_all_iff)
qed

text \<open>C33. Coalescing forgets the "limited" channels: when the first report of a new earthquake is still
  queued and an ordinary second report of it arrives, what is left pending is the second report with
  the "all" channels only; the channels of the limited list, due the first report of every earthquake,
  are told of neither.\<close>

theorem coalescing_forgets_limited:
  assumes "eq_id t1 = eq_id t2" "eq_id t1 \<noteq> []" "\<not> is_cancellation t2" "\<not> is_final t2" "all \<noteq> []"
  shows "pending (c_queue (conn_run e [Telegram t1 s1] (new_connection all lim))) =
      [\<lparr>n_eq = eq_id t1, n_channels = dedup [all, lim], n_text = strip_links s1, n_priority = priority_for t1\<rparr>]
    \<and> pending (c_queue (conn_run e [Telegram t1 s1, Telegram t2 s2] (new_connection all lim))) =
      [\<lparr>n_eq = eq_id t2, n_channels = dedup [all], n_text = strip_links s2, n_priority = PriorityNormal\<rparr>]"
proof -
  have ne: "dedup [all] \<noteq> []" "dedup [all, lim] \<noteq> []"
    using assms(5) set_dedup [of "[all]"] set_dedup [of "[all, lim]"] by (auto simp del: set_dedup)
  have p: "priority_for t2 = PriorityNormal" using assms(3,4) by (simp add: priority_for_def)
  show ?thesis
    using assms(1-4) ne p
    by (simp add: notify_def channels_for_def new_connection_def new_irc_dispatcher_def Let_def
        enqueue_def new_queue_def defaultQueueCapacity_def pending_def entry_def)
qed

lemma coalescing_forgets_limited_witness:
  "let t = empty_telegram\<lparr>eq_id := ''20110312042346''\<rparr>
   in pending (c_queue (conn_run \<lparr>e_enc = Some, e_charset = [], e_type = Notice_type\<rparr> [Telegram t ''1'', Telegram t ''2''] (new_connection [''#all''] [''#lim'']))) =
      [\<lparr>n_eq = ''20110312042346'', n_channels = [''#all''], n_text = strip_links ''2'', n_priority = PriorityNormal\<rparr>]"
proof -
  let ?t = "empty_telegram\<lparr>eq_id := ''20110312042346''\<rparr>"
  have "\<not> is_cancellation ?t" "\<not> is_final ?t" "eq_id ?t = ''20110312042346''"
    by (simp_all add: is_cancellation_def is_final_def empty_telegram_def)
  then show ?thesis
    using coalescing_forgets_limited [of ?t ?t "[''#all'']" "\<lparr>e_enc = Some, e_charset = [], e_type = Notice_type\<rparr>" "''1''" "[''#lim'']" "''2''"]
    by (simp add: dedup_def)
qed

text \<open>While the writer does nothing, telegrams are enqueues.\<close>

fun notices_of :: "irc_dispatcher \<Rightarrow> (telegram \<times> string) list \<Rightarrow> notice list" where
  "notices_of d [] = []"
| "notices_of d ((t, s) # ts) =
     \<lparr>n_eq = eq_id t, n_channels = fst (fst (channels_for d t)), n_text = strip_links s,
      n_priority = snd (fst (channels_for d t))\<rparr> # notices_of (snd (channels_for d t)) ts"

lemma notices_of_eqs:
  "map n_eq (notices_of d ts) = map (eq_id \<circ> fst) ts" "map n_text (notices_of d ts) = map (strip_links \<circ> snd) ts"
  by (induction d ts rule: notices_of.induct) simp_all

lemma channels_for_all: "i_all (snd (channels_for d t)) = i_all d" "i_all d \<noteq> [] \<Longrightarrow> fst (fst (channels_for d t)) \<noteq> []"
proof -
  show "i_all (snd (channels_for d t)) = i_all d" by (simp add: channels_for_def Let_def)
  assume "i_all d \<noteq> []"
  then have "set (dedup [i_all d]) \<noteq> {}" "set (dedup [i_all d, i_limited d]) \<noteq> {}" by simp_all
  then have "dedup [i_all d] \<noteq> []" "dedup [i_all d, i_limited d] \<noteq> []" by (simp_all only: set_empty, simp_all)
  then show "fst (fst (channels_for d t)) \<noteq> []" by (simp add: channels_for_def Let_def)
qed

lemma telegrams_enqueue:
  "i_all (c_dispatcher c) \<noteq> [] \<Longrightarrow>
     c_queue (conn_run e (map (\<lambda>(t, s). Telegram t s) ts) c) =
       foldl (\<lambda>q n. enqueue n q) (c_queue c) (notices_of (c_dispatcher c) ts)"
proof (induction ts arbitrary: c)
  case (Cons x ts)
  obtain t s where x: "x = (t, s)" by (cases x)
  have n: "fst (fst (channels_for (c_dispatcher c) t)) \<noteq> []" using Cons.prems by (rule channels_for_all)
  have step: "c_dispatcher (notify t s c) = snd (channels_for (c_dispatcher c) t)"
    "c_queue (notify t s c) = enqueue \<lparr>n_eq = eq_id t, n_channels = fst (fst (channels_for (c_dispatcher c) t)),
       n_text = strip_links s, n_priority = snd (fst (channels_for (c_dispatcher c) t))\<rparr> (c_queue c)"
    using n by (simp_all add: notify_def case_prod_beta Let_def)
  show ?case using Cons.IH [of "notify t s c"] Cons.prems step by (simp add: x channels_for_all(1))
qed simp

lemma last_filter_map:
  "k \<in> g ` set xs \<Longrightarrow> map h ns = map f xs \<Longrightarrow> map n_eq ns = map g xs \<Longrightarrow>
     h (last (filter (\<lambda>n. n_eq n = k) ns)) = f (last (filter (\<lambda>x. g x = k) xs))"
proof (induction ns arbitrary: xs rule: rev_induct)
  case (snoc n ns)
  then obtain x ys where xs: "xs = ys @ [x]" by (cases xs rule: rev_cases) auto
  then show ?case using snoc by (cases "n_eq n = k") auto
qed simp



text \<open>A writer that sleeps in \<open>Dequeue\<close> has passed \<open>waitReady\<close> already: a telegram that arrives after the
  disconnect is taken out of the queue and handed to the IRC library while the connection is down.\<close>

lemma dequeues_while_disconnected:
  assumes "dedup [all, lim] = [ch]" "eq_id t \<noteq> []" "e_charset e = []" "e_type e = Notice_type"
  shows "let c = conn_run e [Connected, Writer_step False, Writer_step False, Disconnected,
             Telegram t s, Writer_step False, Writer_step False] (new_connection all lim)
    in c_ready c \<notin> c_closed c \<and> pending (c_queue c) = [] \<and> last (c_wire c) = Sent_notice ch (strip_links s)"
  using assms
  by (simp add: new_connection_def handle_connected_def handle_disconnected_def notify_def Let_def
      writer_step.simps channels_for_def new_irc_dispatcher_def enqueue_def new_queue_def dequeue_def
      defaultQueueCapacity_def encode_text_def charset_encoder_def send_one_def entry_def pending_def)

end
