(* ===== verification/Eewlog.thy ===== *)
theory Eewlog
  imports Decoder
begin

text \<open>
  \<open>internal/eewlog/store.go\<close>: the archive of raw telegrams.  Paths are slash-separated, as on the systems
  the program is built for; \<open>filepath.Join\<close> and \<open>Clean\<close> work on their elements.  The file system is a map
  from cleaned paths to contents; each call's outcome (an error, what a failed write leaves behind, the
  clock) comes from the environment.
\<close>


section \<open>Paths\<close>

abbreviation slash :: char where "slash \<equiv> CHR ''/''"

text \<open>The elements of a path that count, and the elimination of \<open>..\<close>: at the root it is dropped, in a
  relative path a leading one stays.\<close>

definition elements :: "string \<Rightarrow> string list" where
  "elements p = filter (\<lambda>e. e \<noteq> [] \<and> e \<noteq> ''.'') (split_on slash p)"

fun push_element :: "bool \<Rightarrow> string list \<Rightarrow> string \<Rightarrow> string list" where
  "push_element rooted st e =
     (if e = ''..'' then
        (if st \<noteq> [] \<and> hd st \<noteq> ''..'' then tl st else if rooted then st else e # st)
      else e # st)"

definition resolve :: "bool \<Rightarrow> string list \<Rightarrow> string list" where
  "resolve rooted es = rev (foldl (push_element rooted) [] es)"

fun join_slash :: "string list \<Rightarrow> string" where
  "join_slash [] = []"
| "join_slash [e] = e"
| "join_slash (e # es) = e @ slash # join_slash es"

definition is_rooted :: "string \<Rightarrow> bool" where
  "is_rooted p \<longleftrightarrow> p \<noteq> [] \<and> hd p = slash"

definition clean_path :: "string \<Rightarrow> string" where
  "clean_path p =
     (let es = resolve (is_rooted p) (elements p)
      in if is_rooted p then slash # join_slash es
         else if es = [] then ''.'' else join_slash es)"

text \<open>\<open>filepath.Join\<close> ignores empty elements.\<close>

definition join_path :: "string list \<Rightarrow> string" where
  "join_path ps =
     (let qs = dropWhile (\<lambda>p. p = []) ps
      in if qs = [] then [] else clean_path (join_slash qs))"


section \<open>The store\<close>

record file_system =
  fs_files :: "string \<rightharpoonup> bytes"

text \<open>\<open>os.WriteFile\<close> succeeds, or fails leaving nothing new or part of the content.\<close>

datatype write_outcome = Written | Write_failed "bytes option"

definition write_file :: "write_outcome \<Rightarrow> string \<Rightarrow> bytes \<Rightarrow> file_system \<Rightarrow> bool \<times> file_system" where
  "write_file out p body fs =
     (case out of
        Written \<Rightarrow> (True, fs\<lparr>fs_files := (fs_files fs)(p \<mapsto> body)\<rparr>)
      | Write_failed None \<Rightarrow> (False, fs)
      | Write_failed (Some part) \<Rightarrow> (False, fs\<lparr>fs_files := (fs_files fs)(p \<mapsto> part)\<rparr>))"

definition rename_file :: "string \<Rightarrow> string \<Rightarrow> file_system \<Rightarrow> file_system" where
  "rename_file src dst fs =
     (case fs_files fs src of
        None \<Rightarrow> fs
      | Some b \<Rightarrow> fs\<lparr>fs_files := (fs_files fs)(src := None, dst \<mapsto> b)\<rparr>)"

text \<open>\<open>Open\<close>: a temporary directory and a file in it must be writable; both are removed again.\<close>

datatype store_err = Not_writable | Write_error | Mkdir_error | Rename_error

definition open_store :: "bool \<Rightarrow> bool \<Rightarrow> string \<Rightarrow> store_err + string" where
  "open_store mkdir_ok write_ok dir =
     (if \<not> mkdir_ok then Inl Not_writable else if \<not> write_ok then Inl Not_writable else Inr dir)"

definition temp_path :: "string \<Rightarrow> int \<Rightarrow> string \<Rightarrow> string" where
  "temp_path dir unixtime md5 = join_path [dir, itoa unixtime @ ''.'' @ md5]"

definition write_temp :: "write_outcome \<Rightarrow> string \<Rightarrow> int \<Rightarrow> string \<Rightarrow> bytes \<Rightarrow> file_system
    \<Rightarrow> (store_err + string) \<times> file_system" where
  "write_temp out dir now md5 body fs =
     (let path = temp_path dir now md5; (ok, fs') = write_file out path body fs
      in (if ok then Inr path else Inl Write_error, fs'))"

definition final_path :: "string \<Rightarrow> string \<Rightarrow> int \<Rightarrow> string" where
  "final_path dir eqid num =
     (let name = eqid @ ''.'' @ itoa num;
          (year, month, day) =
            (if 8 \<le> length eqid then (take 4 eqid, take 2 (drop 4 eqid), take 2 (drop 6 eqid)) else ([], [], []))
      in join_path [dir, year, month, day, name])"

definition finalize :: "bool \<Rightarrow> bool \<Rightarrow> string \<Rightarrow> string \<Rightarrow> string \<Rightarrow> int \<Rightarrow> file_system
    \<Rightarrow> (store_err + string) \<times> file_system" where
  "finalize mkdir_ok rename_ok dir temp eqid num fs =
     (let path = final_path dir eqid num
      in if \<not> mkdir_ok then (Inl Mkdir_error, fs)
         else if \<not> rename_ok then (Inl Rename_error, fs)
         else (Inr path, rename_file temp path fs))"


section \<open>Where the files are\<close>

text \<open>An ordinary element: a name without slashes, not empty and neither \<open>.\<close> nor \<open>..\<close>.\<close>

definition plain_element :: "string \<Rightarrow> bool" where
  "plain_element e \<longleftrightarrow> e \<noteq> [] \<and> e \<noteq> ''.'' \<and> e \<noteq> ''..'' \<and> slash \<notin> set e"

lemma split_on_join: "split_on slash (p @ slash # q) = split_on slash p @ split_on slash q"
proof (induction slash p rule: split_on.induct)
  case (1 p)
  show ?case
  proof (cases "slash \<in> set p")
    case False
    then show ?thesis by simp
  next
    case True
    then obtain a b where p: "p = a @ slash # b" "slash \<notin> set a" by (meson split_list_first)
    then have c: "cut_at slash p = Some (a, b)" by simp
    from 1 [OF c refl] p show ?thesis by simp
  qed
qed

lemma elements_append: "elements (p @ slash # q) = elements p @ elements q"
  by (simp add: elements_def split_on_join)

lemma elements_Nil [simp]: "elements [] = []"
  by (simp add: elements_def)

lemma elements_plain [simp]: "plain_element e \<Longrightarrow> elements e = [e]"
  by (simp add: elements_def plain_element_def)

lemma resolve_plain:
  "list_all plain_element ns \<Longrightarrow> resolve r (es @ ns) = resolve r es @ ns"
  by (induction ns rule: rev_induct) (auto simp: resolve_def plain_element_def simp flip: append_assoc)

lemma elements_join:
  "list_all (\<lambda>e. e = [] \<or> plain_element e) ns \<Longrightarrow> elements (join_slash ns) = filter (\<lambda>e. e \<noteq> []) ns"
  by (induction ns rule: join_slash.induct) (auto simp: elements_append)

text \<open>The directory as the elements it resolves to, and a name below it.\<close>

definition base_elements :: "string \<Rightarrow> string list" where
  "base_elements dir = resolve (is_rooted dir) (elements dir)"

definition below :: "string \<Rightarrow> string list \<Rightarrow> string" where
  "below dir ns = (if is_rooted dir then [slash] else []) @ join_slash (base_elements dir @ ns)"

lemma join_slash_append:
  "p \<noteq> [] \<Longrightarrow> ns \<noteq> [] \<Longrightarrow> join_slash (p # ns) = p @ slash # join_slash ns"
  by (cases ns) auto

lemma join_path_below:
  assumes "dir \<noteq> []" "list_all (\<lambda>e. e = [] \<or> plain_element e) ns" "filter (\<lambda>e. e \<noteq> []) ns \<noteq> []"
  shows "join_path (dir # ns) = below dir (filter (\<lambda>e. e \<noteq> []) ns)"
proof -
  have "ns \<noteq> []" using assms(3) by auto
  with assms(1) have j: "join_slash (dir # ns) = dir @ slash # join_slash ns" by (rule join_slash_append)
  have r: "is_rooted (dir @ slash # join_slash ns) = is_rooted dir" using assms(1) by (simp add: is_rooted_def)
  have "elements (dir @ slash # join_slash ns) = elements dir @ filter (\<lambda>e. e \<noteq> []) ns"
    using assms(2) by (simp add: elements_append elements_join)
  moreover have "list_all plain_element (filter (\<lambda>e. e \<noteq> []) ns)"
    using assms(2) by (auto simp: list_all_iff)
  ultimately show ?thesis
    using assms j r by (simp add: join_path_def clean_path_def Let_def resolve_plain below_def base_elements_def)
qed

text \<open>No element of what a path resolves to is empty or holds a slash, so the joined text determines the
  elements.\<close>

lemma elements_no_slash: "e \<in> set (elements p) \<Longrightarrow> e \<noteq> [] \<and> slash \<notin> set e"
  by (auto simp: elements_def dest: split_on_sep_free)

lemma resolve_subset: "set (resolve r es) \<subseteq> set es \<union> {''..''}"
proof -
  have "set (foldl (push_element r) st es) \<subseteq> set st \<union> set es \<union> {''..''}" for st
  proof (induction es arbitrary: st)
    case (Cons e es)
    have "set (push_element r st e) \<subseteq> insert e (set st)" by (cases st) auto
    with Cons [of "push_element r st e"] show ?case by auto
  qed auto
  from this [of "[]"] show ?thesis by (simp add: resolve_def)
qed

lemma base_no_slash: "e \<in> set (base_elements dir) \<Longrightarrow> e \<noteq> [] \<and> slash \<notin> set e"
  using resolve_subset [of "is_rooted dir" "elements dir"] elements_no_slash
  by (auto simp: base_elements_def)

lemma split_join:
  "ns \<noteq> [] \<Longrightarrow> \<forall>e \<in> set ns. slash \<notin> set e \<Longrightarrow> split_on slash (join_slash ns) = ns"
  by (induction ns rule: join_slash.induct) auto

lemma below_inject:
  assumes "list_all plain_element ms" "list_all plain_element ns" "ms \<noteq> []" "ns \<noteq> []"
  shows "below dir ms = below dir ns \<longleftrightarrow> ms = ns"
proof
  assume "below dir ms = below dir ns"
  then have "join_slash (base_elements dir @ ms) = join_slash (base_elements dir @ ns)"
    by (simp add: below_def)
  moreover have "split_on slash (join_slash (base_elements dir @ xs)) = base_elements dir @ xs"
    if "list_all plain_element xs" "xs \<noteq> []" for xs
    using that base_no_slash by (intro split_join) (auto simp: list_all_iff plain_element_def)
  ultimately show "ms = ns" using assms by (metis same_append_eq)
qed simp


section \<open>Archive names\<close>

text \<open>An eq_id as a decoded telegram has it, with the report numbers that occur.\<close>

definition id_ok :: "string \<Rightarrow> bool" where
  "id_ok eqid \<longleftrightarrow> opt_len is_digit 14 eqid"

definition archive_elements :: "string \<Rightarrow> int \<Rightarrow> string list" where
  "archive_elements eqid num =
     (if eqid = [] then [] else [take 4 eqid, take 2 (drop 4 eqid), take 2 (drop 6 eqid)])
       @ [eqid @ ''.'' @ itoa num]"

lemma digits_plain: "list_all is_digit e \<Longrightarrow> e \<noteq> [] \<Longrightarrow> plain_element e"
  by (cases e) (auto simp: plain_element_def list_all_iff is_digit_def)

lemma itoa_digits: "0 \<le> n \<Longrightarrow> list_all is_digit (itoa n) \<and> itoa n \<noteq> []"
  by (simp add: itoa_def show_nat_digits)

lemma dotted_plain:
  assumes "list_all is_digit a" "list_all is_digit b" "b \<noteq> []"
  shows "plain_element (a @ ''.'' @ b)"
proof -
  obtain c r where b: "b = c # r" "is_digit c" using assms(2,3) by (cases b) auto
  then have "c \<noteq> CHR ''.''" by (auto simp: is_digit_def)
  moreover have "slash \<notin> set a" "slash \<notin> set b" using assms by (auto simp: list_all_iff is_digit_def)
  moreover have "length (a @ ''.'' @ b) \<ge> 2" using b by simp
  ultimately show ?thesis using b by (cases a) (auto simp: plain_element_def)
qed

lemma archive_plain:
  assumes "id_ok eqid" "0 \<le> num"
  shows "list_all plain_element (archive_elements eqid num) \<and> archive_elements eqid num \<noteq> []"
proof -
  have d: "list_all is_digit eqid" using assms(1) by (auto simp: id_ok_def opt_len_def)
  have name: "plain_element (eqid @ ''.'' @ itoa num)"
    using d itoa_digits [OF assms(2)] by (intro dotted_plain) auto
  show ?thesis
  proof (cases "eqid = []")
    case False
    then have "length eqid = 14" using assms(1) by (auto simp: id_ok_def opt_len_def)
    then have "plain_element (take 4 eqid)" "plain_element (take 2 (drop 4 eqid))"
      "plain_element (take 2 (drop 6 eqid))"
      using list_all_take_drop [OF d] list_all_take_drop [where p = is_digit]
      by (auto intro!: digits_plain)
    then show ?thesis using name False by (simp add: archive_elements_def)
  qed (use name in \<open>simp add: archive_elements_def\<close>)
qed

lemma final_path_below:
  assumes "dir \<noteq> []" "id_ok eqid" "0 \<le> num"
  shows "final_path dir eqid num = below dir (archive_elements eqid num)"
proof (cases "eqid = []")
  case True
  then have "final_path dir eqid num = join_path (dir # [[], [], [], ''.'' @ itoa num])"
    by (simp add: final_path_def)
  also have "\<dots> = below dir (filter (\<lambda>e. e \<noteq> []) [[], [], [], ''.'' @ itoa num])"
    using assms True archive_plain [OF assms(2,3)]
    by (intro join_path_below) (auto simp: archive_elements_def)
  finally show ?thesis using True by (simp add: archive_elements_def)
next
  case False
  then have "length eqid = 14" using assms(2) by (auto simp: id_ok_def opt_len_def)
  then have "final_path dir eqid num = join_path (dir # archive_elements eqid num)"
    using False by (simp add: final_path_def archive_elements_def)
  also have "\<dots> = below dir (filter (\<lambda>e. e \<noteq> []) (archive_elements eqid num))"
    using assms archive_plain [OF assms(2,3)]
    by (intro join_path_below) (auto simp: list_all_iff filter_empty_conv plain_element_def)
  also have "filter (\<lambda>e. e \<noteq> []) (archive_elements eqid num) = archive_elements eqid num"
    using archive_plain [OF assms(2,3)] by (auto simp: list_all_iff plain_element_def filter_id_conv)
  finally show ?thesis .
qed

lemma append_dot_inject:
  assumes "list_all is_digit a" "list_all is_digit b" "a @ CHR ''.'' # x = b @ CHR ''.'' # y"
  shows "a = b \<and> x = y"
proof -
  have "\<not> is_digit CHR ''.''" by (simp add: is_digit_def)
  then have no: "CHR ''.'' \<notin> set a" "CHR ''.'' \<notin> set b" using assms(1,2) by (metis list_all_iff)+
  show ?thesis
    using cut_at_append [OF no(1), of x] cut_at_append [OF no(2), of y]
    unfolding assms(3) by simp
qed

lemma archive_inject:
  assumes "id_ok a" "id_ok b" "0 \<le> m" "0 \<le> n"
  shows "archive_elements a m = archive_elements b n \<longleftrightarrow> a = b \<and> m = n"
proof
  assume "archive_elements a m = archive_elements b n"
  then have "last (archive_elements a m) = last (archive_elements b n)" by simp
  then have "a @ CHR ''.'' # itoa m = b @ CHR ''.'' # itoa n" by (simp add: archive_elements_def)
  moreover have "list_all is_digit a" "list_all is_digit b"
    using assms(1,2) by (auto simp: id_ok_def opt_len_def)
  ultimately have "a = b \<and> itoa m = itoa n" by (intro append_dot_inject)
  then show "a = b \<and> m = n" by (simp add: itoa_inject)
qed simp

text \<open>Each report has its own place in the archive: for the ids and numbers of decoded telegrams, the
  path is below the archive directory, in the year, month and day directories of the id (directly in
  it where the id is missing), whatever \<open>.\<close>, \<open>..\<close> and doubled slashes the configured directory has, and two
  paths are equal only for the same id and number.\<close>

lemma final_path_unique:
  assumes "dir \<noteq> []"
  shows "let t = decode raw; u = decode raw' in
      final_path dir (eq_id t) (warn_num t) = below dir (archive_elements (eq_id t) (warn_num t))
      \<and> (final_path dir (eq_id t) (warn_num t) = final_path dir (eq_id u) (warn_num u) \<longleftrightarrow>
           eq_id t = eq_id u \<and> warn_num t = warn_num u)"
proof -
  have ok: "id_ok (eq_id (decode r)) \<and> 0 \<le> warn_num (decode r)" for r
    using wf_decode [of r] by (simp add: wf_telegram_def id_ok_def)
  then show ?thesis
    using assms archive_plain archive_inject by (simp add: final_path_below below_inject)
qed

lemma final_path_unique_example:
  "final_path ''./eewlog/'' (eq_id (decode [])) (warn_num (decode [])) =
     below ''./eewlog/'' (archive_elements (eq_id (decode [])) (warn_num (decode [])))"
  using final_path_unique [of "''./eewlog/''" "[]" "[]"] unfolding Let_def by simp

text \<open>The temporary name holds the MD5 header as the server sent it: with \<open>/..\<close> in it the file is written
  outside the archive directory.\<close>

lemma temp_path_escapes: "temp_path ''log'' 7 ''/../../../x'' = ''../x''"
proof -
  have "itoa 7 = ''7''" by code_simp
  then have "temp_path ''log'' 7 ''/../../../x'' = clean_path ''log/7./../../../x''"
    by (simp add: temp_path_def join_path_def)
  moreover have "split_on slash ''log/7./../../../x'' = [''log'', ''7.'', ''..'', ''..'', ''..'', ''x'']"
    using split_join [of "[''log'', ''7.'', ''..'', ''..'', ''..'', ''x'']"] by simp
  ultimately show ?thesis
    by (simp add: clean_path_def elements_def is_rooted_def resolve_def)
qed

end
