(* ===== verification/Wni_Protocol.thy ===== *)
theory Wni_Protocol
  imports Prelude
begin

text \<open>
  \<open>internal/wni/protocol.go\<close>: the incremental parser of the pseudo-HTTP framing.  The parser's
  fields are the record \<open>parser\<close>; one turn of the loop in \<open>Feed\<close> is \<open>parse_step\<close>, and \<open>feed\<close> runs it
  until the buffer holds no complete block.  The writer the parser acknowledges to is its
  environment: \<open>now\<close> is the time stamp an acknowledgement would carry and \<open>wok\<close> says whether a write
  succeeds.  A slice out of range is a panic in Go and the status \<open>Panicked\<close> here.
\<close>


section \<open>State and frames\<close>

datatype frame_kind = FrameResponse | FrameKeepAlive | FrameData | FrameUnknown

type_synonym header = "string \<rightharpoonup> string"

record frame =
  fkind :: frame_kind
  fid :: string
  fheader :: header
  fmd5 :: string
  fbody :: bytes

record parser =
  pbuf :: bytes
  phdr :: header
  psize :: int
  has_size :: bool

definition new_parser :: parser where
  "new_parser = \<lparr>pbuf = [], phdr = Map.empty, psize = 0, has_size = False\<rparr>"

datatype status = Ok | Ack_failed | Panicked

record feed_result =
  rstate :: parser
  rframes :: "frame list"
  racks :: "bytes list"
  rstatus :: status

text \<open>The acknowledgement \<open>sendAck\<close> writes, at the time \<open>now\<close>.\<close>

definition ack_msg :: "string \<Rightarrow> bytes" where
  "ack_msg now = ''HTTP/1.0 200 OK'' @ [nl] @ ''Content-Type: application/fast-cast'' @ [nl]
     @ ''Server: FastCaster/1.0.0 (Unix)'' @ [nl] @ ''X-WNI-ID: Response'' @ [nl]
     @ ''X-WNI-Result: OK'' @ [nl] @ ''X-WNI-Protocol-Version: 2.1'' @ [nl]
     @ ''X-WNI-Time: '' @ now @ [nl] @ [nl]"

text \<open>\<open>wniTimestamp\<close>: the local time as \<open>2006/01/02 15:04:05\<close> and the microseconds.\<close>

record clock_time =
  t_year :: int
  t_month :: int
  t_day :: int
  t_hour :: int
  t_minute :: int
  t_second :: int
  t_nanos :: int

definition wni_timestamp :: "clock_time \<Rightarrow> string" where
  "wni_timestamp t =
     fmt_0d 4 (t_year t) @ CHR ''/'' # fmt_0d 2 (t_month t) @ CHR ''/'' # fmt_0d 2 (t_day t) @ CHR '' ''
       # fmt_0d 2 (t_hour t) @ CHR '':'' # fmt_0d 2 (t_minute t) @ CHR '':'' # fmt_0d 2 (t_second t)
       @ CHR ''.'' # fmt_0d 6 (t_nanos t div 1000)"

definition get_quirk :: string where
  "get_quirk = ''GET / HTTP/1.1''"


section \<open>One turn of the loop\<close>

datatype step =
    Wait
  | Next parser "frame list" "bytes list"
  | Fail parser
  | Panic

text \<open>The frame of a block without a body.\<close>

definition header_frame :: "string \<Rightarrow> header \<Rightarrow> frame" where
  "header_frame wid h =
     (if wid = ''Response'' then
        \<lparr>fkind = FrameResponse, fid = [], fheader = h, fmd5 = [], fbody = []\<rparr>
      else if wid = ''Keep-Alive'' then
        \<lparr>fkind = FrameKeepAlive, fid = [], fheader = Map.empty, fmd5 = [], fbody = []\<rparr>
      else \<lparr>fkind = FrameUnknown, fid = wid, fheader = h, fmd5 = [], fbody = []\<rparr>)"

text \<open>A blank line ends a block.  A data block with a readable length switches to counting bytes
  and keeps its header for the frame; any other block is finished and its header dropped.\<close>

definition block_end :: "parser \<Rightarrow> step" where
  "block_end p =
     (let wid = map_get (phdr p) ''X-WNI-ID''
      in if wid = ''Data'' then
           (case phdr p ''Content-Length'' of
              None \<Rightarrow> Next (p\<lparr>phdr := Map.empty\<rparr>) [] []
            | Some cl \<Rightarrow>
                (case atoi (trim_space cl) of
                   None \<Rightarrow> Next (p\<lparr>phdr := Map.empty\<rparr>) [] []
                 | Some n \<Rightarrow> Next (p\<lparr>psize := n, has_size := True\<rparr>) [] []))
         else Next (p\<lparr>phdr := Map.empty\<rparr>) [header_frame wid (phdr p)] [])"

definition line_step :: "string \<Rightarrow> bool \<Rightarrow> parser \<Rightarrow> step" where
  "line_step now wok p =
     (case cut_at nl (pbuf p) of
        None \<Rightarrow> Wait
      | Some (l, rest) \<Rightarrow>
          let line = trim_right_cr l; p1 = p\<lparr>pbuf := rest\<rparr>
          in if sublist get_quirk line then
               (if wok then Next (p1\<lparr>phdr := Map.empty, pbuf := []\<rparr>) [] [ack_msg now] else Fail p1)
             else
               (case cut_at CHR '':'' line of
                  Some (n, v) \<Rightarrow> Next (p1\<lparr>phdr := (phdr p1)(trim_space n \<mapsto> trim_space v)\<rparr>) [] []
                | None \<Rightarrow> if line = [] then block_end p1 else Next p1 [] []))"

text \<open>Counting mode.  \<open>Content-Length\<close> is any \<open>int\<close>: a negative one is not larger than the
  buffer's length, and slicing with it panics.\<close>

definition body_step :: "parser \<Rightarrow> step" where
  "body_step p =
     (if int (length (pbuf p)) < psize p then Wait
      else if psize p < 0 then Panic
      else
        Next (p\<lparr>pbuf := drop (nat (psize p)) (pbuf p), has_size := False, phdr := Map.empty\<rparr>)
          [\<lparr>fkind = FrameData, fid = [], fheader = phdr p, fmd5 = map_get (phdr p) ''X-WNI-Data-MD5'',
            fbody = take (nat (psize p)) (pbuf p)\<rparr>] [])"

definition parse_step :: "string \<Rightarrow> bool \<Rightarrow> parser \<Rightarrow> step" where
  "parse_step now wok p = (if has_size p then body_step p else line_step now wok p)"

lemmas parse_step_defs = parse_step_def line_step_def body_step_def block_end_def

text \<open>What a turn costs: a byte of the buffer, or the counting mode.\<close>

definition todo :: "parser \<Rightarrow> nat" where
  "todo p = 2 * length (pbuf p) + (if has_size p then 1 else 0)"

lemma parse_step_todo:
  "parse_step now wok p = Next p' fs as \<Longrightarrow> todo p' < todo p"
  by (auto simp: parse_step_defs todo_def Let_def dest!: cut_at_length
      split: if_splits option.splits)


section \<open>Feed\<close>

function feed_loop :: "string \<Rightarrow> bool \<Rightarrow> parser \<Rightarrow> feed_result" where
  "feed_loop now wok p =
     (case parse_step now wok p of
        Wait \<Rightarrow> \<lparr>rstate = p, rframes = [], racks = [], rstatus = Ok\<rparr>
      | Fail p' \<Rightarrow> \<lparr>rstate = p', rframes = [], racks = [], rstatus = Ack_failed\<rparr>
      | Panic \<Rightarrow> \<lparr>rstate = p, rframes = [], racks = [], rstatus = Panicked\<rparr>
      | Next p' fs as \<Rightarrow>
          let r = feed_loop now wok p'
          in r\<lparr>rframes := fs @ rframes r, racks := as @ racks r\<rparr>)"
  by pat_completeness auto
termination
  by (relation "measure (\<lambda>(now, wok, p). todo p)") (auto dest: parse_step_todo)

declare feed_loop.simps [simp del]

definition feed :: "string \<Rightarrow> bool \<Rightarrow> parser \<Rightarrow> bytes \<Rightarrow> feed_result" where
  "feed now wok p data = feed_loop now wok (p\<lparr>pbuf := pbuf p @ data\<rparr>)"


section \<open>More bytes do not change what was already parsed\<close>

text \<open>A turn that finds its line or its body finds the same in a longer buffer.\<close>

lemma block_end_more:
  "block_end p = Next p' fs as \<Longrightarrow>
     block_end (p\<lparr>pbuf := b\<rparr>) = Next (p'\<lparr>pbuf := b\<rparr>) fs as \<and> pbuf p' = pbuf p"
  by (auto simp: block_end_def Let_def split: if_splits option.splits)

lemma block_end_neq [simp]: "block_end p \<noteq> Panic" "block_end p \<noteq> Wait" "block_end p \<noteq> Fail q"
  by (auto simp: block_end_def Let_def split: option.splits)

lemma parse_step_more:
  assumes "parse_step now wok p = Next p' fs []"
  shows "parse_step now' wok' (p\<lparr>pbuf := pbuf p @ d\<rparr>) = Next (p'\<lparr>pbuf := pbuf p' @ d\<rparr>) fs []"
proof (cases "has_size p")
  case True
  with assms show ?thesis by (auto simp: parse_step_def body_step_def split: if_splits)
next
  case False
  then obtain l r where c: "cut_at nl (pbuf p) = Some (l, r)"
    and q: "\<not> sublist get_quirk (trim_right_cr l)"
    using assms by (auto simp: parse_step_def line_step_def Let_def split: if_splits option.splits)
  note c' = cut_at_append_right [OF c, of d]
  show ?thesis
  proof (cases "cut_at CHR '':'' (trim_right_cr l)")
    case None
    with False c c' q assms block_end_more [of "p\<lparr>pbuf := r\<rparr>" p' fs "[]" "r @ d"] show ?thesis
      by (auto simp: parse_step_def line_step_def Let_def split: if_splits simp del: cut_at_None)
  next
    case (Some nv)
    with False c c' q assms show ?thesis
      by (cases nv) (auto simp: parse_step_def line_step_def Let_def split: if_splits)
  qed
qed

lemma parse_step_Panic: "parse_step now wok p = Panic \<longleftrightarrow> has_size p \<and> psize p < 0"
proof (cases "has_size p")
  case True
  then show ?thesis by (auto simp: parse_step_def body_step_def)
next
  case False
  then show ?thesis
    by (auto simp: parse_step_def line_step_def Let_def split: option.splits if_splits)
qed

lemma parse_step_more_Panic:
  "parse_step now wok p = Panic \<Longrightarrow> parse_step now' wok' (p\<lparr>pbuf := pbuf p @ d\<rparr>) = Panic"
  by (simp add: parse_step_Panic)

text \<open>An acknowledgement empties the buffer, so no second one follows it.\<close>

lemma parse_step_ack:
  "parse_step now wok p = Next p' fs as \<Longrightarrow> as \<noteq> [] \<Longrightarrow>
     as = [ack_msg now] \<and> fs = [] \<and> wok \<and> p' = p\<lparr>pbuf := [], phdr := Map.empty\<rparr> \<and> \<not> has_size p"
  by (auto simp: parse_step_defs Let_def split: if_splits option.splits)

lemma parse_step_more_ack:
  assumes "parse_step now wok p = Next p' fs as" "as \<noteq> []"
  shows "parse_step now' True (p\<lparr>pbuf := pbuf p @ d\<rparr>)
    = Next (p\<lparr>pbuf := [], phdr := Map.empty\<rparr>) [] [ack_msg now']"
proof -
  obtain l r where c: "cut_at nl (pbuf p) = Some (l, r)" and "sublist get_quirk (trim_right_cr l)"
    "\<not> has_size p"
    using assms by (auto simp: parse_step_defs Let_def split: if_splits option.splits)
  then show ?thesis
    using cut_at_append_right [OF c] by (simp add: parse_step_def line_step_def Let_def)
qed

lemma parse_step_no_fail [simp]: "parse_step now True p \<noteq> Fail p'"
  by (auto simp: parse_step_defs Let_def split: if_splits option.splits)

lemma parse_step_empty [simp]: "\<not> has_size p \<Longrightarrow> pbuf p = [] \<Longrightarrow> parse_step now wok p = Wait"
  by (simp add: parse_step_defs cut_at_def)

text \<open>The loop waits where the buffer holds no whole line, or no whole body, yet.\<close>

lemma parse_step_Wait: "parse_step now wok p = Wait \<longleftrightarrow>
    (if has_size p then int (length (pbuf p)) < psize p else nl \<notin> set (pbuf p))"
proof (cases "cut_at nl (pbuf p)")
  case None
  then have "nl \<notin> set (pbuf p)" by simp
  with None show ?thesis by (auto simp: parse_step_def line_step_def body_step_def simp del: cut_at_None)
next
  case (Some lr)
  then show ?thesis
    by (cases lr) (auto simp: parse_step_defs Let_def dest: cut_at_mem split: option.splits)
qed

lemma feed_loop_Wait: "parse_step now wok p = Wait \<Longrightarrow>
    feed_loop now wok p = \<lparr>rstate = p, rframes = [], racks = [], rstatus = Ok\<rparr>"
  by (subst feed_loop.simps) simp

lemma feed_loop_Next: "parse_step now wok p = Next p' fs as \<Longrightarrow>
    feed_loop now wok p = (feed_loop now wok p')
      \<lparr>rframes := fs @ rframes (feed_loop now wok p'), racks := as @ racks (feed_loop now wok p')\<rparr>"
  by (subst feed_loop.simps) (simp add: Let_def)

lemma feed_loop_Panic: "parse_step now wok p = Panic \<Longrightarrow>
    feed_loop now wok p = \<lparr>rstate = p, rframes = [], racks = [], rstatus = Panicked\<rparr>"
  by (subst feed_loop.simps) simp

lemma feed_loop_Fail: "parse_step now wok p = Fail p' \<Longrightarrow>
    feed_loop now wok p = \<lparr>rstate = p', rframes = [], racks = [], rstatus = Ack_failed\<rparr>"
  by (subst feed_loop.simps) simp

lemmas feed_loop_step = feed_loop_Wait feed_loop_Next feed_loop_Panic feed_loop_Fail

lemma feed_loop_settled:
  "rstatus (feed_loop now wok p) = Ok \<Longrightarrow> parse_step now' wok' (rstate (feed_loop now wok p)) = Wait"
proof (induction now wok p rule: feed_loop.induct)
  case (1 now wok p)
  then show ?case
    by (cases "parse_step now wok p") (auto simp: feed_loop_step parse_step_Wait)
qed

text \<open>A run that neither failed nor acknowledged: the only runs after which nothing was thrown
  away.\<close>

definition calm_result :: "feed_result \<Rightarrow> bool" where
  "calm_result r \<longleftrightarrow> rstatus r = Ok \<and> racks r = []"

lemma feed_loop_more:
  assumes "calm_result (feed_loop now wok p)"
  shows "feed_loop now' wok' (p\<lparr>pbuf := pbuf p @ d\<rparr>) =
    (let r1 = feed_loop now wok p; r2 = feed now' wok' (rstate r1) d
     in r2\<lparr>rframes := rframes r1 @ rframes r2\<rparr>)"
  using assms
proof (induction now wok p rule: feed_loop.induct)
  case (1 now wok p)
  show ?case
  proof (cases "parse_step now wok p")
    case (Next p' fs as)
    with 1 have "as = []" "calm_result (feed_loop now wok p')"
      by (auto simp: calm_result_def feed_loop_step)
    with Next 1 show ?thesis
      by (simp add: feed_loop_step parse_step_more [of now wok p p' fs] Let_def)
  qed (use 1 in \<open>auto simp: feed_loop_step calm_result_def feed_def Let_def\<close>)
qed

lemma feed_loop_calm_prefix:
  assumes "calm_result (feed_loop now' True (p\<lparr>pbuf := pbuf p @ d\<rparr>))"
  shows "calm_result (feed_loop now True p)"
  using assms
proof (induction now "True" p rule: feed_loop.induct)
  case (1 now p)
  show ?case
  proof (cases "parse_step now True p")
    case (Next p' fs as)
    show ?thesis
    proof (cases "as = []")
      case True
      with Next 1 show ?thesis
        by (simp add: feed_loop_step parse_step_more [of now True p p' fs] calm_result_def)
    next
      case False
      with Next parse_step_more_ack [of now True p p' fs as now' d] 1 show ?thesis
        by (simp add: feed_loop_step calm_result_def)
    qed
  qed (use 1 in \<open>auto simp: feed_loop_step parse_step_more_Panic calm_result_def\<close>)
qed

lemma feed_loop_calm_env:
  "calm_result (feed_loop now wok p) \<Longrightarrow> feed_loop now' wok' p = feed_loop now wok p"
  using feed_loop_more [of now wok p now' wok' "[]"]
  by (simp add: Let_def feed_def feed_loop_step feed_loop_settled calm_result_def)


section \<open>Readers that may be fed in pieces\<close>

text \<open>The interface the client's read loop relies on: a reader that is handed a stream in arbitrary
  pieces.  On the streams it calls calm, reading a concatenation is reading its parts in turn.\<close>

fun read_chunks :: "('s \<Rightarrow> 'b list \<Rightarrow> 's \<times> 'f list) \<Rightarrow> 's \<Rightarrow> 'b list list \<Rightarrow> 's \<times> 'f list" where
  "read_chunks rd s [] = (s, [])"
| "read_chunks rd s (c # cs) =
     (let r = read_chunks rd (fst (rd s c)) cs in (fst r, snd (rd s c) @ snd r))"

locale chunked_reader =
  fixes rd :: "'s \<Rightarrow> 'b list \<Rightarrow> 's \<times> 'f list"
    and calm :: "'s \<Rightarrow> 'b list \<Rightarrow> bool"
  assumes calm_prefix: "calm s (a @ b) \<Longrightarrow> calm s a"
    and calm_rest: "calm s (a @ b) \<Longrightarrow> calm (fst (rd s a)) b"
    and rd_append: "calm s (a @ b) \<Longrightarrow>
      rd s (a @ b) = (fst (rd (fst (rd s a)) b), snd (rd s a) @ snd (rd (fst (rd s a)) b))"
begin

lemma read_chunks_concat:
  "calm s (c @ concat cs) \<Longrightarrow> read_chunks rd s (c # cs) = rd s (c @ concat cs)"
proof (induction cs arbitrary: s c)
  case Nil
  then show ?case by simp
next
  case (Cons d cs)
  have "read_chunks rd (fst (rd s c)) (d # cs) = rd (fst (rd s c)) (d @ concat cs)"
    using Cons.prems calm_rest [of s c "d @ concat cs"] by (intro Cons.IH) simp
  then show ?case
    using Cons.prems rd_append [of s c "d @ concat cs"]
    by (simp del: read_chunks.simps add: read_chunks.simps(2) [of rd s c] Let_def)
qed

text \<open>How a calm stream is cut does not matter.\<close>

lemma read_chunks_cut_free:
  "concat (c # cs) = concat (d # ds) \<Longrightarrow> calm s (concat (c # cs)) \<Longrightarrow>
     read_chunks rd s (c # cs) = read_chunks rd s (d # ds)"
  by (simp del: read_chunks.simps add: read_chunks_concat)

end

definition feed_frames :: "parser \<Rightarrow> bytes \<Rightarrow> parser \<times> frame list" where
  "feed_frames p d = (let r = feed [] True p d in (rstate r, rframes r))"

definition calm_stream :: "parser \<Rightarrow> bytes \<Rightarrow> bool" where
  "calm_stream p d \<longleftrightarrow> calm_result (feed [] True p d)"

lemma calm_feed_append:
  assumes "calm_result (feed now wok p a)"
  shows "feed now' wok' p (a @ b) =
    (let r1 = feed now wok p a; r2 = feed now' wok' (rstate r1) b
     in r2\<lparr>rframes := rframes r1 @ rframes r2\<rparr>)"
  using feed_loop_more [of now wok "p\<lparr>pbuf := pbuf p @ a\<rparr>" now' wok' b] assms
  by (simp add: feed_def)

lemma calm_stream_prefix: "calm_stream p (a @ b) \<Longrightarrow> calm_stream p a"
  using feed_loop_calm_prefix [of "[]" "p\<lparr>pbuf := pbuf p @ a\<rparr>" b "[]"]
  by (simp add: calm_stream_def feed_def)

lemma calm_stream_rest:
  assumes "calm_stream p (a @ b)"
  shows "calm_stream (rstate (feed [] True p a)) b"
  using assms calm_stream_prefix [OF assms] calm_feed_append [of "[]" True p a "[]" True b]
  by (simp add: calm_stream_def calm_result_def Let_def)

interpretation wni: chunked_reader feed_frames calm_stream
proof
  fix p a b
  assume c: "calm_stream p (a @ b)"
  then show pre: "calm_stream p a" by (rule calm_stream_prefix)
  from c show "calm_stream (fst (feed_frames p a)) b"
    by (simp add: feed_frames_def Let_def calm_stream_rest)
  from pre show "feed_frames p (a @ b) = (fst (feed_frames (fst (feed_frames p a)) b),
      snd (feed_frames p a) @ snd (feed_frames (fst (feed_frames p a)) b))"
    using calm_feed_append [of "[]" True p a "[]" True b]
    by (simp add: calm_stream_def feed_frames_def Let_def)
qed


section \<open>Acknowledgements, panics and body lengths\<close>

text \<open>At most one acknowledgement per call: it empties the buffer, and nothing is left to read.\<close>

lemma feed_loop_acks: "length (racks (feed_loop now wok p)) \<le> 1"
proof (induction now wok p rule: feed_loop.induct)
  case (1 now wok p)
  show ?case
  proof (cases "parse_step now wok p")
    case (Next p' fs as)
    show ?thesis
    proof (cases "as = []")
      case True
      with Next 1 show ?thesis by (simp add: feed_loop_step)
    next
      case False
      with Next parse_step_ack [OF Next] have "feed_loop now wok p' =
        \<lparr>rstate = p', rframes = [], racks = [], rstatus = Ok\<rparr>" "length as = 1"
        by (auto simp: feed_loop_step)
      with Next show ?thesis by (simp add: feed_loop_step)
    qed
  qed (auto simp: feed_loop_step)
qed

text \<open>The loop panics exactly where a negative length was accepted.\<close>

lemma feed_loop_panics:
  "rstatus (feed_loop now wok p) = Panicked \<longleftrightarrow>
     has_size (rstate (feed_loop now wok p)) \<and> psize (rstate (feed_loop now wok p)) < 0"
proof (induction now wok p rule: feed_loop.induct)
  case (1 now wok p)
  then show ?case
  proof (cases "parse_step now wok p")
    case Wait
    then show ?thesis by (auto simp: feed_loop_step parse_step_Wait split: if_splits)
  next
    case (Fail q)
    then have "\<not> has_size q"
      by (auto simp: parse_step_defs Let_def split: if_splits option.splits)
    with Fail show ?thesis by (simp add: feed_loop_step)
  qed (auto simp: feed_loop_step parse_step_Panic)
qed

text \<open>A data frame's body is as long as its own header says, and its digest field is the header's.\<close>

definition frame_ok :: "frame \<Rightarrow> bool" where
  "frame_ok f \<longleftrightarrow> (fkind f = FrameData \<longrightarrow>
     map_get (fheader f) ''X-WNI-ID'' = ''Data''
     \<and> (\<exists>cl. fheader f ''Content-Length'' = Some cl
           \<and> atoi (trim_space cl) = Some (int (length (fbody f))))
     \<and> fmd5 f = map_get (fheader f) ''X-WNI-Data-MD5'')"

definition parser_inv :: "parser \<Rightarrow> bool" where
  "parser_inv p \<longleftrightarrow> (has_size p \<longrightarrow>
     map_get (phdr p) ''X-WNI-ID'' = ''Data''
     \<and> (\<exists>cl. phdr p ''Content-Length'' = Some cl \<and> atoi (trim_space cl) = Some (psize p)))"

lemma parser_inv_new [simp]: "parser_inv new_parser"
  by (simp add: parser_inv_def new_parser_def)

lemma parser_inv_buf [simp]: "parser_inv (p\<lparr>pbuf := b\<rparr>) = parser_inv p"
  by (simp add: parser_inv_def)

lemma header_frame_ok [simp]: "frame_ok (header_frame wid h)"
  by (simp add: frame_ok_def header_frame_def)

lemma block_end_inv:
  assumes "\<not> has_size p" "block_end p = Next p' fs as"
  shows "parser_inv p' \<and> list_all frame_ok fs"
  using assms by (auto simp: block_end_def Let_def parser_inv_def split: if_splits option.splits)

lemma parse_step_inv:
  assumes "parser_inv p" "parse_step now wok p = Next p' fs as"
  shows "parser_inv p' \<and> list_all frame_ok fs"
proof (cases "has_size p")
  case True
  with assms show ?thesis
    by (auto simp: parse_step_def body_step_def parser_inv_def frame_ok_def split: if_splits)
next
  case False
  then have "parser_inv p' \<and> fs = [] \<or> (\<exists>r. block_end (p\<lparr>pbuf := r\<rparr>) = Next p' fs as)"
    using assms(2)
    by (auto simp: parse_step_def line_step_def Let_def parser_inv_def split: if_splits option.splits)
  then show ?thesis using False by (auto dest!: block_end_inv [rotated])
qed

lemma feed_loop_inv:
  assumes "parser_inv p"
  shows "list_all frame_ok (rframes (feed_loop now wok p))"
    "rstatus (feed_loop now wok p) \<noteq> Ack_failed \<Longrightarrow> parser_inv (rstate (feed_loop now wok p))"
  using assms
proof (induction now wok p rule: feed_loop.induct)
  case (1 now wok p)
  {
    case 1
    then show ?case
      by (cases "parse_step now wok p")
        (use "1.IH"(1) parse_step_inv in \<open>auto simp: feed_loop_step\<close>)
  next
    case 2
    then show ?case
      by (cases "parse_step now wok p")
        (use "1.IH"(2) parse_step_inv in \<open>auto simp: feed_loop_step\<close>)
  }
qed


section \<open>Whole lines\<close>

text \<open>How a buffer that starts with a complete line is read, for the three kinds of line a server
  sends within a block.\<close>

definition plain_line :: "bytes \<Rightarrow> bool" where
  "plain_line l \<longleftrightarrow> nl \<notin> set l \<and> cr \<notin> set l \<and> \<not> sublist get_quirk l"

text \<open>A parser between two lines: size \<open>n\<close> left over from an earlier block, header \<open>h\<close> so far,
  buffer \<open>b\<close>.\<close>

definition at_line :: "int \<Rightarrow> header \<Rightarrow> bytes \<Rightarrow> parser" where
  "at_line n h b = \<lparr>pbuf = b, phdr = h, psize = n, has_size = False\<rparr>"

lemma at_line_simps [simp]:
  "has_size (at_line n h b) = False" "pbuf (at_line n h b) = b" "phdr (at_line n h b) = h"
  "psize (at_line n h b) = n" "(at_line n h b)\<lparr>pbuf := b'\<rparr> = at_line n h b'"
  "(at_line n h b)\<lparr>phdr := h'\<rparr> = at_line n h' b"
  by (simp_all add: at_line_def)

lemma not_has_size_at_line: "\<not> has_size p \<Longrightarrow> p = at_line (psize p) (phdr p) (pbuf p)"
  by (simp add: at_line_def)

lemma feed_header_line:
  assumes "plain_line (k @ CHR '':'' # v)" "CHR '':'' \<notin> set k"
  shows "feed_loop now wok (at_line n h (k @ CHR '':'' # v @ nl # r)) =
    feed_loop now wok (at_line n (h(trim_space k \<mapsto> trim_space v)) r)"
proof -
  have "cut_at nl ((k @ CHR '':'' # v) @ nl # r) = Some (k @ CHR '':'' # v, r)"
    using assms by (intro cut_at_append) (auto simp: plain_line_def)
  moreover have "cut_at CHR '':'' (k @ CHR '':'' # v) = Some (k, v)"
    using assms by simp
  ultimately show ?thesis
    using assms
    by (subst feed_loop_Next) (auto simp: parse_step_def line_step_def Let_def plain_line_def trim_right_cr_id)
qed

lemma feed_other_line:
  assumes "plain_line l" "l \<noteq> []" "CHR '':'' \<notin> set l"
  shows "feed_loop now wok (at_line n h (l @ nl # r)) = feed_loop now wok (at_line n h r)"
  using assms
  by (subst feed_loop_Next)
    (auto simp: parse_step_def line_step_def Let_def plain_line_def trim_right_cr_id cut_at_def)

lemma feed_blank_line: "parse_step now wok (at_line n h (nl # r)) = block_end (at_line n h r)"
  using cut_at_append [of nl "[]" r]
  by (simp add: parse_step_def line_step_def Let_def trim_right_cr_def get_quirk_def cut_at_def)

lemma feed_quirk_line:
  assumes "nl \<notin> set l" "sublist get_quirk (trim_right_cr l)"
  shows "feed_loop now True (at_line n h (l @ nl # r)) =
    \<lparr>rstate = at_line n Map.empty [], rframes = [], racks = [ack_msg now], rstatus = Ok\<rparr>"
  using assms
  by (subst feed_loop_Next) (auto simp: parse_step_def line_step_def Let_def feed_loop_Wait cut_at_def)


section \<open>Properties\<close>

text \<open>C4. Cutting does not matter: on any stream that is parsed without an acknowledgement and
  without a panic, two ways of cutting it into reads end in the same parser state and deliver the
  same frames.\<close>

theorem feed_cut_free:
  assumes "calm_stream p (concat (c # cs))" and "concat (c # cs) = concat (d # ds)"
  shows "read_chunks feed_frames p (c # cs) = read_chunks feed_frames p (d # ds)"
  using assms by (intro wni.read_chunks_cut_free)

theorem feed_cut_free_witness:
  "read_chunks feed_frames new_parser [''X-WNI-ID:'', ''Q'' @ [nl], [nl]] =
   read_chunks feed_frames new_parser [''X-WNI-ID:Q'' @ [nl] @ [nl]]"
proof (rule feed_cut_free)
  have "feed_loop [] True (at_line 0 Map.empty (''X-WNI-ID'' @ CHR '':'' # ''Q'' @ nl # [nl])) =
      feed_loop [] True (at_line 0 [''X-WNI-ID'' \<mapsto> ''Q''] [nl])"
  proof (subst feed_header_line)
    show "plain_line (''X-WNI-ID'' @ CHR '':'' # ''Q'')" by code_simp
  qed (simp_all add: trim_space_graphic graphic_def)
  moreover have "parse_step [] True (at_line 0 [''X-WNI-ID'' \<mapsto> ''Q''] [nl]) =
      Next (at_line 0 Map.empty []) [header_frame ''Q'' [''X-WNI-ID'' \<mapsto> ''Q'']] []"
    by (simp add: feed_blank_line block_end_def Let_def)
  then have "calm_result (feed_loop [] True (at_line 0 [''X-WNI-ID'' \<mapsto> ''Q''] [nl]))"
    by (simp add: feed_loop_Next calm_result_def feed_loop_Wait)
  ultimately show "calm_stream new_parser (concat [''X-WNI-ID:'', ''Q'' @ [nl], [nl]])"
    by (simp add: calm_stream_def feed_def new_parser_def at_line_def)
qed simp

text \<open>A data block with a negative length.\<close>

lemma negative_length_panics:
  "rstatus (feed now wok new_parser
     (''X-WNI-ID: Data'' @ nl # ''Content-Length: -1'' @ nl # nl # rest)) = Panicked"
proof -
  let ?f = "\<lambda>h b. feed_loop now wok (at_line 0 h b)"
  let ?l2 = "''Content-Length'' @ CHR '':'' # '' -1'' @ nl # nl # rest"
  have "?f Map.empty (''X-WNI-ID'' @ CHR '':'' # '' Data'' @ nl # ?l2) =
      ?f [''X-WNI-ID'' \<mapsto> ''Data''] ?l2"
  proof (subst feed_header_line)
    show "plain_line (''X-WNI-ID'' @ CHR '':'' # '' Data'')" by code_simp
  qed (simp_all add: trim_space_lead trim_space_graphic graphic_def)
  also have "\<dots> = ?f [''X-WNI-ID'' \<mapsto> ''Data'', ''Content-Length'' \<mapsto> ''-1''] (nl # rest)"
  proof (subst feed_header_line)
    show "plain_line (''Content-Length'' @ CHR '':'' # '' -1'')" by code_simp
  qed (simp_all add: trim_space_lead trim_space_graphic graphic_def)
  also have "atoi ''-1'' = Some (-1)" by code_simp
  then have "rstatus (?f [''X-WNI-ID'' \<mapsto> ''Data'', ''Content-Length'' \<mapsto> ''-1''] (nl # rest)) = Panicked"
    by (simp add: feed_loop_Next feed_blank_line block_end_def feed_loop_Panic parse_step_Panic
        trim_space_graphic graphic_def)
  finally show ?thesis
    by (simp add: feed_def new_parser_def at_line_def)
qed

text \<open>C20. A call of \<open>Feed\<close> acknowledges at most once, and it panics in exactly one situation: it
  accepted a data block whose \<open>Content-Length\<close> is negative.  The situation is reachable from the wire: a
  server (or anyone on the path of the unauthenticated stream) that announces a body of length -1
  crashes the client.\<close>

theorem feed_ack_and_panic:
  "length (racks (feed now wok p d)) \<le> 1
   \<and> (rstatus (feed now wok p d) = Panicked \<longleftrightarrow>
        has_size (rstate (feed now wok p d)) \<and> psize (rstate (feed now wok p d)) < 0)
   \<and> rstatus (feed now wok new_parser
        (''X-WNI-ID: Data'' @ nl # ''Content-Length: -1'' @ nl # nl # rest)) = Panicked"
  using feed_loop_acks feed_loop_panics negative_length_panics unfolding feed_def by blast



end
