(* ===== verification/Md5.thy ===== *)
theory Md5
  imports Prelude "HOL-Library.Word"
begin

text \<open>
  The two library functions behind every digest of the program: \<open>crypto/md5.Sum\<close> (RFC 1321) and
  \<open>encoding/hex.EncodeToString\<close>, on 32-bit words as the algorithm has them.  The client hashes its
  password with them, the simulator stamps its data blocks.  What the other theories use is only that
  the digest in hexadecimal is 32 characters of \<open>0-9a-f\<close>.
\<close>

unbundle bit_operations_syntax

type_synonym u32 = "32 word"

definition md5_k :: "u32 list" where
  "md5_k =
  [0xD76AA478, 0xE8C7B756, 0x242070DB, 0xC1BDCEEE, 0xF57C0FAF, 0x4787C62A,
   0xA8304613, 0xFD469501, 0x698098D8, 0x8B44F7AF, 0xFFFF5BB1, 0x895CD7BE,
   0x6B901122, 0xFD987193, 0xA679438E, 0x49B40821, 0xF61E2562, 0xC040B340,
   0x265E5A51, 0xE9B6C7AA, 0xD62F105D, 0x02441453, 0xD8A1E681, 0xE7D3FBC8,
   0x21E1CDE6, 0xC33707D6, 0xF4D50D87, 0x455A14ED, 0xA9E3E905, 0xFCEFA3F8,
   0x676F02D9, 0x8D2A4C8A, 0xFFFA3942, 0x8771F681, 0x6D9D6122, 0xFDE5380C,
   0xA4BEEA44, 0x4BDECFA9, 0xF6BB4B60, 0xBEBFBC70, 0x289B7EC6, 0xEAA127FA,
   0xD4EF3085, 0x04881D05, 0xD9D4D039, 0xE6DB99E5, 0x1FA27CF8, 0xC4AC5665,
   0xF4292244, 0x432AFF97, 0xAB9423A7, 0xFC93A039, 0x655B59C3, 0x8F0CCC92,
   0xFFEFF47D, 0x85845DD1, 0x6FA87E4F, 0xFE2CE6E0, 0xA3014314, 0x4E0811A1,
   0xF7537E82, 0xBD3AF235, 0x2AD7D2BB, 0xEB86D391]"

definition md5_s :: "nat list" where
  "md5_s = concat (replicate 4 [7, 12, 17, 22]) @ concat (replicate 4 [5, 9, 14, 20])
     @ concat (replicate 4 [4, 11, 16, 23]) @ concat (replicate 4 [6, 10, 15, 21])"

type_synonym md5_state = "u32 \<times> u32 \<times> u32 \<times> u32"

definition md5_init :: md5_state where
  "md5_init = (0x67452301, 0xEFCDAB89, 0x98BADCFE, 0x10325476)"

definition byte_word :: "char \<Rightarrow> u32" where
  "byte_word c = word_of_int (of_char c)"

text \<open>Four bytes, the least significant first.\<close>

fun le_words :: "bytes \<Rightarrow> u32 list" where
  "le_words (a # b # c # d # r) =
     (byte_word a + 256 * byte_word b + 65536 * byte_word c + 16777216 * byte_word d) # le_words r"
| "le_words _ = []"

definition le_bytes :: "u32 \<Rightarrow> bytes" where
  "le_bytes w = map (\<lambda>i. char_of (uint w div 256 ^ i mod 256)) [0, 1, 2, 3]"

fun md5_round :: "u32 list \<Rightarrow> nat \<Rightarrow> u32 \<Rightarrow> nat \<Rightarrow> md5_state \<Rightarrow> md5_state" where
  "md5_round m i k s (a, b, c, d) =
     (let (f, g) =
        (if i < 16 then ((b AND c) OR (NOT b AND d), i)
         else if i < 32 then ((d AND b) OR (NOT d AND c), (5 * i + 1) mod 16)
         else if i < 48 then (b XOR c XOR d, (3 * i + 5) mod 16)
         else (c XOR (b OR NOT d), (7 * i) mod 16));
        x = f + a + k + m ! g
      in (d, b + word_rotl s x, b, c))"

fun md5_rounds :: "u32 list \<Rightarrow> nat \<Rightarrow> (u32 \<times> nat) list \<Rightarrow> md5_state \<Rightarrow> md5_state" where
  "md5_rounds m i [] st = st"
| "md5_rounds m i ((k, s) # ks) st = md5_rounds m (Suc i) ks (md5_round m i k s st)"

fun md5_add :: "md5_state \<Rightarrow> md5_state \<Rightarrow> md5_state" where
  "md5_add (a, b, c, d) (a', b', c', d') = (a + a', b + b', c + c', d + d')"

definition md5_pad :: "bytes \<Rightarrow> bytes" where
  "md5_pad s = s @ char_of (128 :: nat) # replicate ((119 - length s mod 64) mod 64) (char_of (0 :: nat))
     @ map (\<lambda>i. char_of (8 * int (length s) div 256 ^ i mod 256)) [0, 1, 2, 3, 4, 5, 6, 7]"

function md5_blocks :: "u32 list \<Rightarrow> md5_state \<Rightarrow> md5_state" where
  "md5_blocks ws st =
     (if ws = [] then st
      else md5_blocks (drop 16 ws) (md5_add st (md5_rounds (take 16 ws) 0 (zip md5_k md5_s) st)))"
  by pat_completeness auto
termination
  by (relation "measure (\<lambda>(ws, st). length ws)") auto

declare md5_blocks.simps [simp del]

definition md5_sum :: "bytes \<Rightarrow> bytes" where
  "md5_sum s = (let (a, b, c, d) = md5_blocks (le_words (md5_pad s)) md5_init
     in le_bytes a @ le_bytes b @ le_bytes c @ le_bytes d)"

definition hex_char :: "nat \<Rightarrow> char" where
  "hex_char n = ''0123456789abcdef'' ! n"

definition hex_encode :: "bytes \<Rightarrow> string" where
  "hex_encode s = concat (map (\<lambda>c. [hex_char (of_char c div 16), hex_char (of_char c mod 16)]) s)"

definition md5_hex :: "bytes \<Rightarrow> string" where
  "md5_hex s = hex_encode (md5_sum s)"

lemma length_md5_sum: "length (md5_sum s) = 16"
  by (auto simp: md5_sum_def le_bytes_def Let_def split: prod.splits)

lemma hex_char_in: "n < 16 \<Longrightarrow> hex_char n \<in> set ''0123456789abcdef''"
  unfolding hex_char_def by (rule nth_mem) simp

lemma set_hex_encode: "set (hex_encode s) \<subseteq> set ''0123456789abcdef''"
proof -
  have "(of_char c :: nat) < 256" for c :: char
    by (cases c) (simp add: of_char_def horner_sum_simps)
  then have "of_char c div 16 < (16 :: nat)" for c :: char
    by (simp add: less_mult_imp_div_less)
  then have "hex_char (of_char c div 16) \<in> set ''0123456789abcdef''"
    "hex_char (of_char c mod 16) \<in> set ''0123456789abcdef''" for c :: char
    by (auto intro: hex_char_in simp del: set_simps)
  then have "set [hex_char (of_char c div 16), hex_char (of_char c mod 16)]
      \<subseteq> set ''0123456789abcdef''" for c :: char
    by (metis empty_set insert_subset list.simps(15) empty_subsetI)
  then show ?thesis unfolding hex_encode_def set_concat set_map by blast
qed

lemma length_hex_encode: "length (hex_encode s) = 2 * length s"
  by (induction s) (auto simp: hex_encode_def)

lemma length_md5_hex: "length (md5_hex s) = 32"
  by (simp add: md5_hex_def length_hex_encode length_md5_sum)

lemma set_md5_hex: "set (md5_hex s) \<subseteq> set ''0123456789abcdef''"
  unfolding md5_hex_def by (rule set_hex_encode)

lemma md5_hex_graphic: "c \<in> set (md5_hex s) \<Longrightarrow> graphic c"
  using set_md5_hex [of s] by (auto simp: graphic_def)

lemma trim_md5_hex [go_lib]: "trim_space (md5_hex s) = md5_hex s"
proof (rule trim_space_graphic)
  show ne: "md5_hex s \<noteq> []" using length_md5_hex [of s] by auto
  show "graphic (hd (md5_hex s))" by (rule md5_hex_graphic [OF hd_in_set [OF ne]])
  show "graphic (last (md5_hex s))" by (rule md5_hex_graphic [OF last_in_set [OF ne]])
qed

text \<open>The digest of the empty message, the first test vector of RFC 1321.\<close>

lemma md5_empty: "md5_hex [] = ''d41d8cd98f00b204e9800998ecf8427e''"
  by code_simp

end
