(* ===== verification/Wnisim.thy ===== *)
theory Wnisim
  imports Wni_Protocol Md5
begin

text \<open>
  \<open>internal/wnisim/server.go\<close>: what the simulated FastCaster server puts on the wire, and how it
  reads a client's request.  A \<open>Send...\<close> method is the bytes it hands to \<open>writeRaw\<close>; the background
  reader is the list of lines it passes on; \<open>AwaitLogin\<close> and \<open>AwaitAck\<close> are functions of the events
  their \<open>select\<close> sees, in the order it sees them.
\<close>


section \<open>What the server sends\<close>

definition response_ok_bytes :: bytes where
  "response_ok_bytes = ''HTTP/1.0 200 OK'' @ [nl] @ ''X-WNI-ID: Response'' @ [nl]
     @ ''X-WNI-Result: OK'' @ [nl] @ ''X-WNI-Protocol-Version: 2.1'' @ [nl] @ [nl]"

definition keep_alive_bytes :: bytes where
  "keep_alive_bytes = ''X-WNI-ID: Keep-Alive'' @ [nl] @ [nl]"

definition get_ping_bytes :: bytes where
  "get_ping_bytes = ''GET / HTTP/1.1'' @ [nl]"

definition data_block_header :: "bytes \<Rightarrow> bytes" where
  "data_block_header body =
     ''X-WNI-ID: Data'' @ [nl] @ ''Content-Length: '' @ itoa (int (length body)) @ [nl]
     @ ''X-WNI-Data-MD5: '' @ md5_hex body @ [nl] @ [nl]"

definition send_data_bytes :: "bytes \<Rightarrow> bytes" where
  "send_data_bytes body = data_block_header body @ body"

definition send_data_then_get_ping_bytes :: "bytes \<Rightarrow> bytes" where
  "send_data_then_get_ping_bytes body = data_block_header body @ body @ ''GET / HTTP/1.1'' @ [nl]"

datatype server_send = SendResponseOK | SendKeepAlive | SendData bytes

fun send_bytes :: "server_send \<Rightarrow> bytes" where
  "send_bytes SendResponseOK = response_ok_bytes"
| "send_bytes SendKeepAlive = keep_alive_bytes"
| "send_bytes (SendData body) = send_data_bytes body"

text \<open>What each of them means to a client: the frame it stands for.\<close>

definition response_header :: header where
  "response_header = [''X-WNI-ID'' \<mapsto> ''Response'', ''X-WNI-Result'' \<mapsto> ''OK'',
     ''X-WNI-Protocol-Version'' \<mapsto> ''2.1'']"

definition data_header :: "bytes \<Rightarrow> header" where
  "data_header body = [''X-WNI-ID'' \<mapsto> ''Data'', ''Content-Length'' \<mapsto> itoa (int (length body)),
     ''X-WNI-Data-MD5'' \<mapsto> md5_hex body]"

fun sent_frame :: "server_send \<Rightarrow> frame" where
  "sent_frame SendResponseOK =
     \<lparr>fkind = FrameResponse, fid = [], fheader = response_header, fmd5 = [], fbody = []\<rparr>"
| "sent_frame SendKeepAlive =
     \<lparr>fkind = FrameKeepAlive, fid = [], fheader = Map.empty, fmd5 = [], fbody = []\<rparr>"
| "sent_frame (SendData body) =
     \<lparr>fkind = FrameData, fid = [], fheader = data_header body, fmd5 = md5_hex body, fbody = body\<rparr>"

text \<open>A Go slice cannot be longer than an \<open>int\<close> counts.\<close>

fun send_fits :: "server_send \<Rightarrow> bool" where
  "send_fits (SendData body) \<longleftrightarrow> length body < 2 ^ 63"
| "send_fits _ \<longleftrightarrow> True"


section \<open>What the server reads\<close>

text \<open>The reader goroutine: each line up to a newline, and an unterminated last one unless empty,
  with the carriage returns and newlines at its end cut.\<close>

definition trim_right_crlf :: "bytes \<Rightarrow> bytes" where
  "trim_right_crlf s = rev (dropWhile (\<lambda>c. c = cr \<or> c = nl) (rev s))"

definition read_lines :: "bytes \<Rightarrow> string list" where
  "read_lines s =
     (let ls = split_on nl s
      in map trim_right_crlf (if last ls = [] then butlast ls else ls))"

datatype sess_event = Line string | Lines_closed | Deadline | Read_error

datatype login_result =
    Login header
  | Login_eof header
  | Login_timeout header
  | Login_read_error header
  | Login_waiting header

fun await_login :: "header \<Rightarrow> sess_event list \<Rightarrow> login_result \<times> sess_event list" where
  "await_login h [] = (Login_waiting h, [])"
| "await_login h (Line l # es) =
     (if l = [] then (Login h, es)
      else (case cut_at CHR '':'' l of
              Some (n, v) \<Rightarrow> await_login (h(trim_space n \<mapsto> trim_space v)) es
            | None \<Rightarrow> await_login h es))"
| "await_login h (Lines_closed # es) = (Login_eof h, es)"
| "await_login h (Deadline # es) = (Login_timeout h, es)"
| "await_login h (Read_error # es) = (Login_read_error h, es)"

text \<open>\<open>None\<close>: still waiting.\<close>

fun await_ack :: "sess_event list \<Rightarrow> bool option" where
  "await_ack [] = None"
| "await_ack (Line l # es) = (if sublist ''200 OK'' l then Some True else await_ack es)"
| "await_ack (Lines_closed # es) = Some False"
| "await_ack (Deadline # es) = Some False"
| "await_ack (Read_error # es) = await_ack es"

section \<open>The parser reads what the server sends\<close>

lemma sublist_slash: "CHR ''/'' \<notin> set l \<Longrightarrow> \<not> sublist get_quirk l"
  by (rule sublist_missing [of "CHR ''/''"]) (simp_all add: get_quirk_def)

lemma plain_lineI: "nl \<notin> set l \<Longrightarrow> cr \<notin> set l \<Longrightarrow> CHR ''/'' \<notin> set l \<Longrightarrow> plain_line l"
  by (simp add: plain_line_def sublist_slash)

text \<open>The names and values of the server's header lines: words without white space and slashes.\<close>

definition token :: "string \<Rightarrow> bool" where
  "token s \<longleftrightarrow> s \<noteq> [] \<and> (\<forall>c \<in> set s. graphic c \<and> c \<noteq> CHR ''/'')"

lemma token_trim [simp]:
  assumes "token s"
  shows "trim_space s = s"
proof -
  have ne: "s \<noteq> []" using assms by (simp add: token_def)
  have g: "graphic c" if "c \<in> set s" for c using assms that by (simp add: token_def)
  show ?thesis
    by (rule trim_space_graphic [OF ne g [OF hd_in_set [OF ne]] g [OF last_in_set [OF ne]]])
qed

lemma token_notin: "token s \<Longrightarrow> nl \<notin> set s \<and> cr \<notin> set s \<and> CHR ''/'' \<notin> set s"
proof -
  have "\<not> graphic nl" "\<not> graphic cr" by (simp_all add: graphic_def)
  then show "token s \<Longrightarrow> nl \<notin> set s \<and> cr \<notin> set s \<and> CHR ''/'' \<notin> set s"
    by (metis token_def)
qed

lemma token_md5_hex [simp]: "token (md5_hex s)"
proof -
  have "md5_hex s \<noteq> []" using length_md5_hex [of s] by auto
  moreover have "CHR ''/'' \<notin> set (md5_hex s)" using set_md5_hex [of s] by auto
  ultimately show ?thesis using md5_hex_graphic by (auto simp: token_def)
qed

lemma token_itoa [simp]: "token (itoa (int n))"
proof -
  have "graphic c \<and> c \<noteq> CHR ''/''" if "c \<in> set (show_nat n)" for c
    using set_show_nat [OF that] by (auto simp: is_digit_def graphic_def)
  then show ?thesis by (simp add: token_def itoa_def)
qed

lemma feed_token_line:
  assumes "token k" "CHR '':'' \<notin> set k" "token v"
  shows "feed_loop now wok (at_line n h (k @ '': '' @ v @ nl # r)) =
    feed_loop now wok (at_line n (h(k \<mapsto> v)) r)"
proof -
  have "plain_line (k @ CHR '':'' # CHR '' '' # v)"
    using assms(1,3) by (auto intro!: plain_lineI dest: token_notin)
  from feed_header_line [OF this assms(2), of now wok n h r] assms show ?thesis
    by (simp add: trim_space_lead)
qed

text \<open>A run of the loop that first delivers \<open>fs\<close>.\<close>

definition deliver :: "frame list \<Rightarrow> feed_result \<Rightarrow> feed_result" where
  "deliver fs r = r\<lparr>rframes := fs @ rframes r\<rparr>"

lemma deliver_simps [simp]:
  "rstate (deliver fs r) = rstate r" "rframes (deliver fs r) = fs @ rframes r"
  "racks (deliver fs r) = racks r" "rstatus (deliver fs r) = rstatus r"
  "deliver fs (deliver gs r) = deliver (fs @ gs) r" "deliver [] r = r"
  by (simp_all add: deliver_def)

lemma feed_deliver:
  "parse_step now wok p = Next p' fs [] \<Longrightarrow> feed_loop now wok p = deliver fs (feed_loop now wok p')"
  by (simp add: deliver_def feed_loop_Next)

lemma feed_keep_alive:
  "feed_loop now wok (at_line n Map.empty (keep_alive_bytes @ r)) =
    deliver [sent_frame SendKeepAlive] (feed_loop now wok (at_line n Map.empty r))"
proof -
  have "feed_loop now wok (at_line n Map.empty (keep_alive_bytes @ r)) =
      feed_loop now wok (at_line n [''X-WNI-ID'' \<mapsto> ''Keep-Alive''] (nl # r))"
    using feed_token_line [of "''X-WNI-ID''" "''Keep-Alive''" now wok n Map.empty "nl # r"]
    by (simp add: keep_alive_bytes_def token_def graphic_def)
  then show ?thesis
    by (simp add: feed_deliver feed_blank_line block_end_def header_frame_def)
qed

lemma feed_response_ok:
  "feed_loop now wok (at_line n Map.empty (response_ok_bytes @ r)) =
    deliver [sent_frame SendResponseOK] (feed_loop now wok (at_line n Map.empty r))"
proof -
  let ?l3 = "''X-WNI-Protocol-Version'' @ '': '' @ ''2.1'' @ nl # nl # r"
  let ?l2 = "''X-WNI-Result'' @ '': '' @ ''OK'' @ nl # ?l3"
  let ?l1 = "''X-WNI-ID'' @ '': '' @ ''Response'' @ nl # ?l2"
  let ?f = "\<lambda>h b. feed_loop now wok (at_line n h b)"
  have p: "plain_line ''HTTP/1.0 200 OK''" by code_simp
  have "?f Map.empty (response_ok_bytes @ r) = ?f Map.empty ?l1"
    using feed_other_line [OF p, of now wok n Map.empty ?l1] by (simp add: response_ok_bytes_def)
  also have "\<dots> = ?f [''X-WNI-ID'' \<mapsto> ''Response''] ?l2"
    by (rule feed_token_line) (simp_all add: token_def graphic_def)
  also have "\<dots> = ?f [''X-WNI-ID'' \<mapsto> ''Response'', ''X-WNI-Result'' \<mapsto> ''OK''] ?l3"
    by (rule feed_token_line) (simp_all add: token_def graphic_def)
  also have "\<dots> = ?f response_header (nl # r)"
    unfolding response_header_def by (rule feed_token_line) (simp_all add: token_def graphic_def)
  finally show ?thesis
    by (simp add: feed_deliver feed_blank_line block_end_def header_frame_def response_header_def)
qed

text \<open>A data block's header puts the parser into counting mode.\<close>

lemma feed_data_header:
  assumes "length body < 2 ^ 63"
  shows "feed_loop now wok (at_line n Map.empty (data_block_header body @ r)) =
    feed_loop now wok \<lparr>pbuf = r, phdr = data_header body, psize = int (length body), has_size = True\<rparr>"
proof -
  let ?len = "itoa (int (length body))"
  let ?l3 = "''X-WNI-Data-MD5'' @ '': '' @ md5_hex body @ nl # nl # r"
  let ?l2 = "''Content-Length'' @ '': '' @ ?len @ nl # ?l3"
  let ?l1 = "''X-WNI-ID'' @ '': '' @ ''Data'' @ nl # ?l2"
  let ?f = "\<lambda>h b. feed_loop now wok (at_line n h b)"
  have counting: "(at_line n h r)\<lparr>psize := m, has_size := True\<rparr> =
      \<lparr>pbuf = r, phdr = h, psize = m, has_size = True\<rparr>" for h m
    by (simp add: at_line_def)
  have "?f Map.empty (data_block_header body @ r) = ?f Map.empty ?l1"
    by (simp add: data_block_header_def)
  also have "\<dots> = ?f [''X-WNI-ID'' \<mapsto> ''Data''] ?l2"
    by (rule feed_token_line) (simp_all add: token_def graphic_def)
  also have "\<dots> = ?f [''X-WNI-ID'' \<mapsto> ''Data'', ''Content-Length'' \<mapsto> ?len] ?l3"
    by (rule feed_token_line) (simp_all add: token_def [of "''Content-Length''"] graphic_def)
  also have "\<dots> = ?f (data_header body) (nl # r)"
    unfolding data_header_def
    by (rule feed_token_line) (simp_all add: token_def [of "''X-WNI-Data-MD5''"] graphic_def)
  also have "parse_step now wok (at_line n (data_header body) (nl # r)) = Next
      \<lparr>pbuf = r, phdr = data_header body, psize = int (length body), has_size = True\<rparr> [] []"
    using assms counting
    by (simp add: feed_blank_line block_end_def data_header_def atoi_itoa)
  then have "?f (data_header body) (nl # r) = feed_loop now wok
      \<lparr>pbuf = r, phdr = data_header body, psize = int (length body), has_size = True\<rparr>"
    by (simp add: feed_deliver)
  finally show ?thesis .
qed

lemma feed_send_data:
  assumes "length body < 2 ^ 63"
  shows "feed_loop now wok (at_line n Map.empty (send_data_bytes body @ r)) =
    deliver [sent_frame (SendData body)]
      (feed_loop now wok (at_line (int (length body)) Map.empty r))"
proof -
  let ?p = "\<lparr>pbuf = body @ r, phdr = data_header body, psize = int (length body), has_size = True\<rparr>"
  have "feed_loop now wok (at_line n Map.empty (send_data_bytes body @ r)) = feed_loop now wok ?p"
    using feed_data_header [OF assms, of now wok n "body @ r"] by (simp add: send_data_bytes_def)
  also have "\<dots> = deliver [sent_frame (SendData body)]
      (feed_loop now wok (at_line (int (length body)) Map.empty r))"
    by (rule feed_deliver)
      (simp add: parse_step_def body_step_def at_line_def data_header_def)
  finally show ?thesis .
qed

text \<open>Between two blocks a parser differs from a new one at most in a stale size.\<close>

fun size_after :: "int \<Rightarrow> server_send \<Rightarrow> int" where
  "size_after n (SendData body) = int (length body)"
| "size_after n _ = n"

lemma feed_send:
  assumes "send_fits m"
  shows "feed_loop now wok (at_line n Map.empty (send_bytes m @ r)) =
    deliver [sent_frame m] (feed_loop now wok (at_line (size_after n m) Map.empty r))"
  using assms
  by (cases m) (simp_all del: sent_frame.simps add: feed_keep_alive feed_response_ok feed_send_data)

definition stream_of :: "server_send list \<Rightarrow> bytes" where
  "stream_of ms = concat (map send_bytes ms)"

lemma feed_stream:
  assumes "list_all send_fits ms"
  shows "feed_loop now wok (at_line n Map.empty (stream_of ms @ r)) =
    deliver (map sent_frame ms) (feed_loop now wok (at_line (foldl size_after n ms) Map.empty r))"
  using assms
proof (induction ms arbitrary: n)
  case (Cons m ms)
  then show ?case using feed_send [of m now wok n "stream_of ms @ r"]
    by (simp add: stream_of_def)
qed (simp add: stream_of_def)


lemma read_stream:
  assumes "list_all send_fits ms" and "concat (c # cs) = stream_of ms"
  shows "read_chunks feed_frames new_parser (c # cs) =
    (at_line (foldl size_after 0 ms) Map.empty [], map sent_frame ms)"
proof -
  have new: "new_parser\<lparr>pbuf := pbuf new_parser @ d\<rparr> = at_line 0 Map.empty d" for d
    by (simp add: new_parser_def at_line_def)
  have r: "feed [] True new_parser (stream_of ms) =
    \<lparr>rstate = at_line (foldl size_after 0 ms) Map.empty [], rframes = map sent_frame ms, racks = [],
     rstatus = Ok\<rparr>"
    unfolding feed_def new using feed_stream [OF assms(1), of "[]" True 0 "[]"]
    by (simp add: feed_loop_Wait deliver_def)
  then have "calm_stream new_parser (concat (c # cs))"
    using assms(2) by (simp add: calm_stream_def calm_result_def)
  then have "read_chunks feed_frames new_parser (c # cs) = feed_frames new_parser (stream_of ms)"
    using wni.read_chunks_concat [of new_parser c cs] assms(2) by simp
  then show ?thesis by (simp add: feed_frames_def r Let_def)
qed


section \<open>Properties\<close>

text \<open>C5. Round trip between the simulator and the client's parser, for every cutting of the stream:
  whatever pieces a sequence of login responses, keep-alives and data blocks arrives in, the parser
  delivers exactly the frames that were sent, in order, each telegram with its body and digest intact,
  and is left with an empty buffer and no header.\<close>

theorem server_stream_frames:
  assumes "list_all send_fits ms" and "concat (c # cs) = stream_of ms"
  shows "read_chunks feed_frames new_parser (c # cs) =
    (at_line (foldl size_after 0 ms) Map.empty [], map sent_frame ms)"
  using assms by (rule read_stream)

theorem server_stream_frames_witness:
  "read_chunks feed_frames new_parser
     [''X-WNI-ID: K'', ''eep-Alive'' @ [nl], [nl] @ send_bytes (SendData ''ab'') @ send_bytes SendResponseOK] =
   (at_line 2 Map.empty [], map sent_frame [SendKeepAlive, SendData ''ab'', SendResponseOK])"
  using server_stream_frames [of "[SendKeepAlive, SendData ''ab'', SendResponseOK]" "''X-WNI-ID: K''"
      "[''eep-Alive'' @ [nl], [nl] @ send_bytes (SendData ''ab'') @ send_bytes SendResponseOK]"]
  by (simp del: read_chunks.simps send_bytes.simps(1,3) sent_frame.simps
      add: stream_of_def keep_alive_bytes_def)

text \<open>A ping ends what one call of \<open>Feed\<close> reads: the frames before it are delivered, one
  acknowledgement is written, and every byte that arrived behind it in the same read is dropped
  together with the header read so far.\<close>

lemma ping_wipes_buffer:
  assumes "list_all send_fits ms"
  shows "feed now True new_parser (stream_of ms @ get_ping_bytes @ rest) =
    \<lparr>rstate = at_line (foldl size_after 0 ms) Map.empty [], rframes = map sent_frame ms,
     racks = [ack_msg now], rstatus = Ok\<rparr>"
proof -
  have new: "new_parser\<lparr>pbuf := pbuf new_parser @ d\<rparr> = at_line 0 Map.empty d" for d
    by (simp add: new_parser_def at_line_def)
  have q: "sublist get_quirk (trim_right_cr ''GET / HTTP/1.1'')" by code_simp
  show ?thesis
    unfolding feed_def new
    using feed_stream [OF assms, of now True 0 "get_ping_bytes @ rest"]
      feed_quirk_line [OF _ q, of now "foldl size_after 0 ms" Map.empty rest]
    by (simp add: get_ping_bytes_def deliver_def)
qed

lemma ping_wipes_buffer_example:
  "feed ''now'' True new_parser
     (stream_of [SendData ''ab''] @ get_ping_bytes @ send_bytes SendKeepAlive) =
    \<lparr>rstate = at_line 2 Map.empty [], rframes = [sent_frame (SendData ''ab'')],
     racks = [ack_msg ''now''], rstatus = Ok\<rparr>"
  using ping_wipes_buffer [of "[SendData ''ab'']" "''now''" "send_bytes SendKeepAlive"]
  by (simp del: sent_frame.simps)

end
