(* ===== verification/Wni_Client.thy ===== *)
theory Wni_Client
  imports Wnisim
begin

text \<open>
  \<open>internal/wni/client.go\<close> and \<open>serverlist.go\<close>: the login request, the read loop \<open>Run\<close> and the server
  list.  A connection is its environment: each turn of \<open>Run\<close> is one \<open>read_event\<close>, and the model lists
  the handler calls the loop makes, in order, with the error it returns.  \<open>FetchServerList\<close> is a
  function of what the HTTP client gave back, \<open>ChooseServer\<close> of the index the random generator drew.
\<close>


section \<open>Login\<close>

record credentials =
  user :: string
  passwd :: string
  passwd_md5 :: string

definition password_hash :: "credentials \<Rightarrow> string" where
  "password_hash c = (if passwd_md5 c \<noteq> [] then passwd_md5 c else md5_hex (passwd c))"

text \<open>The lines of the request, and the request: each line with its newline, then an empty one.\<close>

definition login_lines :: "credentials \<Rightarrow> string \<Rightarrow> string list" where
  "login_lines c now =
     [''GET /login HTTP/1.0'',
      ''User-Agent: FastCaster/1.0 powered by weathernews.'',
      ''Accept: */*'',
      ''Cache-Control: no-cache'',
      ''X-WNI-Account: '' @ user c,
      ''X-WNI-Password: '' @ password_hash c,
      ''X-WNI-Application-Version: 2.2.4.0'',
      ''X-WNI-Authentication-Method: MDB_MWS'',
      ''X-WNI-ID: Login'',
      ''X-WNI-Protocol-Version: 2.1'',
      ''X-WNI-Terminal-ID: 211363088'',
      ''X-WNI-Time: '' @ now]"

definition login_request :: "credentials \<Rightarrow> string \<Rightarrow> bytes" where
  "login_request c now = concat (map (\<lambda>l. l @ [nl]) (login_lines c now)) @ [nl]"

text \<open>\<open>Login\<close>: the bytes written, or an error where the write fails.\<close>

definition login :: "bool \<Rightarrow> credentials \<Rightarrow> string \<Rightarrow> bytes option" where
  "login wok c now = (if wok then Some (login_request c now) else None)"


section \<open>The read loop\<close>

text \<open>Which handlers are set, and the calls they get.\<close>

record handlers =
  on_data :: bool
  on_keep_alive :: bool
  on_response :: bool

datatype call = OnData string bytes | OnKeepAlive | OnResponse header

fun dispatch_frame :: "handlers \<Rightarrow> frame \<Rightarrow> call list" where
  "dispatch_frame h f =
     (case fkind f of
        FrameData \<Rightarrow> if on_data h then [OnData (fmd5 f) (fbody f)] else []
      | FrameKeepAlive \<Rightarrow> if on_keep_alive h then [OnKeepAlive] else []
      | FrameResponse \<Rightarrow> if on_response h then [OnResponse (fheader f)] else []
      | FrameUnknown \<Rightarrow> [])"

definition dispatch :: "handlers \<Rightarrow> frame list \<Rightarrow> call list" where
  "dispatch h fs = concat (map (dispatch_frame h) fs)"

text \<open>One turn: the context is already done, the deadline cannot be set, the read fails (or idles
  out), or some bytes arrive, with the time and the fate of an acknowledgement sent meanwhile.\<close>

datatype read_event = Ctx_done | Deadline_err | Read_err | Got bytes string bool

datatype run_err = Run_ctx | Run_deadline | Run_read | Run_ack | Run_panic

fun run :: "handlers \<Rightarrow> parser \<Rightarrow> read_event list \<Rightarrow> call list \<times> run_err option" where
  "run h p [] = ([], None)"
| "run h p (Ctx_done # es) = ([], Some Run_ctx)"
| "run h p (Deadline_err # es) = ([], Some Run_deadline)"
| "run h p (Read_err # es) = ([], Some Run_read)"
| "run h p (Got d now wok # es) =
     (let r = feed now wok p d
      in (case rstatus r of
            Panicked \<Rightarrow> ([], Some Run_panic)
          | Ack_failed \<Rightarrow> (dispatch h (rframes r), Some Run_ack)
          | Ok \<Rightarrow> let (cs, e) = run h (rstate r) es in (dispatch h (rframes r) @ cs, e)))"

lemma dispatch_append [simp]: "dispatch h (fs @ gs) = dispatch h fs @ dispatch h gs"
  by (simp add: dispatch_def)

lemma dispatch_Nil [simp]: "dispatch h [] = []"
  by (simp add: dispatch_def)


section \<open>The server list\<close>

datatype http_reply = Http_error | Http_reply int "bytes option"

definition server_lines :: "bytes \<Rightarrow> string list" where
  "server_lines body = filter (\<lambda>l. l \<noteq> []) (map trim_space (split_on nl body))"

datatype list_err = Fetch_error | Bad_status int | Read_body_error | Empty_list

fun fetch_server_list :: "http_reply \<Rightarrow> list_err + string list" where
  "fetch_server_list Http_error = Inl Fetch_error"
| "fetch_server_list (Http_reply st body) =
     (if st \<noteq> 200 then Inl (Bad_status st)
      else (case body of
              None \<Rightarrow> Inl Read_body_error
            | Some b \<Rightarrow> if server_lines b = [] then Inl Empty_list else Inr (server_lines b)))"

text \<open>The random generator returns an index below the length, which must be positive: it panics on
  an empty list, \<open>None\<close> here.\<close>

definition choose_server :: "nat \<Rightarrow> string list \<Rightarrow> string option" where
  "choose_server r servers = (if servers = [] then None else Some (servers ! (r mod length servers)))"

lemma fetch_server_list_ok:
  "fetch_server_list r = Inr servers \<Longrightarrow> servers \<noteq> [] \<and> [] \<notin> set servers"
  by (cases r) (auto simp: server_lines_def split: if_splits option.splits)

lemma choose_server_member: "choose_server r servers = Some s \<Longrightarrow> s \<in> set servers"
  by (auto simp: choose_server_def split: if_splits intro!: nth_mem)

section \<open>Properties\<close>

definition got :: "bytes \<times> string \<times> bool \<Rightarrow> read_event" where
  "got x = (case x of (d, now, wok) \<Rightarrow> Got d now wok)"

text \<open>On a calm stream \<open>Run\<close> is the parser's reader followed by the dispatch.\<close>

lemma run_calm:
  assumes "calm_stream p (concat (map fst xs))"
  shows "run h p (map got xs @ es) =
    (let (q, fs) = read_chunks feed_frames p (map fst xs)
     in (dispatch h fs @ fst (run h q es), snd (run h q es)))"
  using assms
proof (induction xs arbitrary: p)
  case (Cons x xs)
  obtain d now wok where x: "x = (d, now, wok)" by (cases x)
  have c: "calm_stream p (d @ concat (map fst xs))" using Cons.prems x by simp
  then have calm: "calm_result (feed [] True p d)"
    using calm_stream_prefix calm_stream_def by blast
  then have eq: "feed now wok p d = feed [] True p d"
    unfolding feed_def by (rule feed_loop_calm_env)
  show ?case
    using Cons.IH [OF calm_stream_rest [OF c]] calm
    by (simp add: x got_def eq calm_result_def feed_frames_def Let_def split: prod.splits)
qed (simp add: got_def)

lemma run_server_stream:
  assumes "list_all send_fits ms" and "concat (map fst (x # xs)) = stream_of ms"
  shows "run h new_parser (map got (x # xs) @ es) =
    (let q = at_line (foldl size_after 0 ms) Map.empty []
     in (dispatch h (map sent_frame ms) @ fst (run h q es), snd (run h q es)))"
proof -
  have new: "new_parser\<lparr>pbuf := pbuf new_parser @ d\<rparr> = at_line 0 Map.empty d" for d
    by (simp add: new_parser_def at_line_def)
  have "calm_stream new_parser (concat (map fst (x # xs)))"
    unfolding assms(2) calm_stream_def feed_def new
    using feed_stream [OF assms(1), of "[]" True 0 "[]"]
    by (simp add: calm_result_def feed_loop_Wait)
  moreover have "read_chunks feed_frames new_parser (map fst (x # xs)) =
      (at_line (foldl size_after 0 ms) Map.empty [], map sent_frame ms)"
    using read_stream [OF assms(1), of "fst x" "map fst xs"] assms(2) by simp
  ultimately show ?thesis
    using run_calm [of new_parser "x # xs" h es] by (simp del: read_chunks.simps run.simps add: Let_def)
qed

text \<open>Delivery: whatever pieces the server's blocks arrive in, and however the acknowledgement
  writes would fare, \<open>Run\<close> calls \<open>OnData\<close> once per telegram sent, in order, with its digest and its
  body, calls the other handlers for the other blocks, and then goes on with the next read.\<close>

lemma run_delivers_every_block:
  assumes "list_all send_fits ms" and "concat (map fst (x # xs)) = stream_of ms"
  shows "run h new_parser (map got (x # xs) @ es) =
    (let q = at_line (foldl size_after 0 ms) Map.empty []
     in (dispatch h (map sent_frame ms) @ fst (run h q es), snd (run h q es)))"
  using assms by (rule run_server_stream)

lemma run_delivers_example:
  "run \<lparr>on_data = True, on_keep_alive = False, on_response = True\<rparr> new_parser
     (map got [(send_bytes SendKeepAlive @ take 9 (send_bytes (SendData ''ab'')), ''t'', True),
               (drop 9 (send_bytes (SendData ''ab'')), ''u'', False)] @ [Read_err]) =
   ([OnData (md5_hex ''ab'') ''ab''], Some Run_read)"
  using run_delivers_every_block [of "[SendKeepAlive, SendData ''ab'']"
      "(send_bytes SendKeepAlive @ take 9 (send_bytes (SendData ''ab'')), ''t'', True)"
      "[(drop 9 (send_bytes (SendData ''ab'')), ''u'', False)]"
      "\<lparr>on_data = True, on_keep_alive = False, on_response = True\<rparr>" "[Read_err]"]
  by (simp del: send_bytes.simps map_append add: stream_of_def dispatch_def Let_def)

text \<open>C22. A telegram that arrived in full before a failing acknowledgement is still delivered: the
  frames parsed ahead of the ping reach their handlers although \<open>Feed\<close> returned an error, and only
  then does \<open>Run\<close> give up.\<close>

theorem run_dispatches_before_ack_error:
  assumes "list_all send_fits ms"
  shows "run h new_parser (Got (stream_of ms @ get_ping_bytes @ rest) now False # es) =
    (dispatch h (map sent_frame ms), Some Run_ack)"
proof -
  have new: "new_parser\<lparr>pbuf := pbuf new_parser @ d\<rparr> = at_line 0 Map.empty d" for d
    by (simp add: new_parser_def at_line_def)
  have q: "sublist get_quirk (trim_right_cr ''GET / HTTP/1.1'')" by code_simp
  have "cut_at nl (''GET / HTTP/1.1'' @ nl # rest) = Some (''GET / HTTP/1.1'', rest)"
    by (rule cut_at_append) simp
  then have "parse_step now False (at_line n Map.empty (get_ping_bytes @ rest)) =
      Fail (at_line n Map.empty rest)" for n
    using q by (simp add: parse_step_def line_step_def Let_def get_ping_bytes_def)
  then show ?thesis
    using feed_stream [OF assms, of now False 0 "get_ping_bytes @ rest"]
    by (simp add: feed_def new feed_loop_Fail)
qed

theorem run_dispatches_before_ack_error_witness:
  "run \<lparr>on_data = True, on_keep_alive = True, on_response = True\<rparr> new_parser
     [Got (stream_of [SendData ''ab''] @ get_ping_bytes @ []) ''t'' False] =
   ([OnData (md5_hex ''ab'') ''ab''], Some Run_ack)"
  using run_dispatches_before_ack_error [of "[SendData ''ab'']"
      "\<lparr>on_data = True, on_keep_alive = True, on_response = True\<rparr>" "[]" "''t''" "[]"]
  by (simp add: dispatch_def)

text \<open>The simulator's reader on a request made of lines.\<close>

lemma split_on_lines:
  "\<forall>l \<in> set ls. nl \<notin> set l \<Longrightarrow> split_on nl (concat (map (\<lambda>l. l @ [nl]) ls)) = ls @ [[]]"
  by (induction ls) simp_all

lemma trim_right_crlf_id: "nl \<notin> set s \<Longrightarrow> cr \<notin> set s \<Longrightarrow> trim_right_crlf s = s"
proof -
  assume "nl \<notin> set s" "cr \<notin> set s"
  then have "dropWhile (\<lambda>c. c = cr \<or> c = nl) (rev s) = rev s"
    by (cases s rule: rev_cases) auto
  then show ?thesis by (simp add: trim_right_crlf_def)
qed

lemma read_lines_request:
  assumes "\<forall>l \<in> set ls. nl \<notin> set l \<and> cr \<notin> set l"
  shows "read_lines (concat (map (\<lambda>l. l @ [nl]) ls)) = ls"
proof -
  have "map trim_right_crlf ls = ls"
    using assms by (intro map_idI) (simp add: trim_right_crlf_id)
  then show ?thesis using split_on_lines [of ls] assms by (simp add: read_lines_def)
qed

definition clean_line :: "string \<Rightarrow> bool" where
  "clean_line s \<longleftrightarrow> nl \<notin> set s \<and> cr \<notin> set s"

lemma password_hash_clean:
  "clean_line (passwd_md5 c) \<Longrightarrow> clean_line (password_hash c)"
  using set_md5_hex [of "passwd c"] by (auto simp: password_hash_def clean_line_def)

lemma password_hash_trim:
  "trim_space (passwd_md5 c) = passwd_md5 c \<Longrightarrow> trim_space (password_hash c) = password_hash c"
  by (simp add: password_hash_def trim_md5_hex)

text \<open>C39. Round trip between the client's login and the simulator's reader: from the request's bytes
  \<open>AwaitLogin\<close> recovers the account and the password hash, and stops at the request's end.\<close>

theorem login_round_trip:
  assumes "clean_line (user c)" "clean_line (passwd_md5 c)" "clean_line now"
    and "trim_space (user c) = user c" "trim_space (passwd_md5 c) = passwd_md5 c"
  shows "\<exists>h. await_login Map.empty (map Line (read_lines (login_request c now))) = (Login h, [])
    \<and> h ''X-WNI-Account'' = Some (user c) \<and> h ''X-WNI-Password'' = Some (password_hash c)
    \<and> h ''X-WNI-ID'' = Some ''Login''"
proof -
  have lines: "read_lines (login_request c now) = login_lines c now @ [[]]"
    using assms(1-3) password_hash_clean [OF assms(2)]
      read_lines_request [of "login_lines c now @ [[]]"]
    by (simp add: login_request_def login_lines_def clean_line_def)
  have key: "cut_at CHR '':'' (k @ '': '' @ v) = Some (k, CHR '' '' # v)"
    if "CHR '':'' \<notin> set k" for k v :: string
    using that by simp
  have acc: "cut_at CHR '':'' (''X-WNI-Account: '' @ v) = Some (''X-WNI-Account'', CHR '' '' # v)"
    and pwd: "cut_at CHR '':'' (''X-WNI-Password: '' @ v) = Some (''X-WNI-Password'', CHR '' '' # v)"
    and tim: "cut_at CHR '':'' (''X-WNI-Time: '' @ v) = Some (''X-WNI-Time'', CHR '' '' # v)"
    for v :: string
    using key [of "''X-WNI-Account''" v] key [of "''X-WNI-Password''" v] key [of "''X-WNI-Time''" v]
    by simp_all
  have keys: "trim_space ''X-WNI-Account'' = ''X-WNI-Account''"
    "trim_space ''X-WNI-Password'' = ''X-WNI-Password''" "trim_space ''X-WNI-ID'' = ''X-WNI-ID''"
    "trim_space ''X-WNI-Time'' = ''X-WNI-Time''" "trim_space ''Login'' = ''Login''"
    "trim_space ''User-Agent'' = ''User-Agent''" "trim_space ''Accept'' = ''Accept''"
    "trim_space ''Cache-Control'' = ''Cache-Control''"
    "trim_space ''X-WNI-Application-Version'' = ''X-WNI-Application-Version''"
    "trim_space ''X-WNI-Authentication-Method'' = ''X-WNI-Authentication-Method''"
    "trim_space ''X-WNI-Protocol-Version'' = ''X-WNI-Protocol-Version''"
    "trim_space ''X-WNI-Terminal-ID'' = ''X-WNI-Terminal-ID''"
    by (simp_all add: trim_space_graphic graphic_def)
  show ?thesis
    unfolding lines login_lines_def
    using assms(4) password_hash_trim [OF assms(5)]
    by (simp del: append_Cons append.simps
        add: acc pwd tim keys trim_space_lead append_Cons [of _ "[]"] append_Nil) (simp add: cut_at_def keys trim_space_lead)
qed

lemma login_round_trip_witness:
  "\<exists>h. await_login Map.empty (map Line (read_lines
       (login_request \<lparr>user = ''demo'', passwd = ''secret'', passwd_md5 = ''0a1b''\<rparr> ''20240101000000'')))
     = (Login h, []) \<and> h ''X-WNI-Account'' = Some ''demo'' \<and> h ''X-WNI-Password'' = Some ''0a1b''"
proof -
  have "trim_space ''demo'' = ''demo''" "trim_space ''0a1b'' = ''0a1b''"
    by (simp_all add: trim_space_graphic graphic_def)
  then show ?thesis
    using login_round_trip [of "\<lparr>user = ''demo'', passwd = ''secret'', passwd_md5 = ''0a1b''\<rparr>"
        "''20240101000000''"]
    by (auto simp: clean_line_def password_hash_def)
qed

end
