(* ===== verification/App.thy ===== *)
theory App
  imports Config Irc_Connection Eewlog Wni_Client
begin

text \<open>
  \<open>internal/app/app.go\<close>: the processor that turns a telegram into a message and an archived file, the
  fan-out to Slack and IRC, the choice of a relay server and the reconnect loop of the WNI connection.
\<close>


section \<open>The processor\<close>

text \<open>What the clock and the file system answer while one telegram is processed.\<close>

record io_outcome =
  io_now :: int
  io_write :: write_outcome
  io_mkdir :: bool
  io_rename :: bool

record processor =
  p_store :: "string option"
  p_dispatcher :: dispatcher

record process_result =
  pr_telegram :: telegram
  pr_text :: string
  pr_title :: string
  pr_hooks :: "hook list"

definition process :: "io_outcome \<Rightarrow> string \<Rightarrow> bytes \<Rightarrow> processor \<times> file_system
    \<Rightarrow> process_result \<times> processor \<times> file_system" where
  "process io md5 body st =
     (let (p, fs) = st;
          (temp, fs1) =
            (case p_store p of
               None \<Rightarrow> (None, fs)
             | Some dir \<Rightarrow>
                 (case write_temp (io_write io) dir (io_now io) md5 body fs of
                    (Inl _, fs') \<Rightarrow> (None, fs')
                  | (Inr path, fs') \<Rightarrow> (Some path, fs')));
          tel = decode body;
          (txt, title) = format tel;
          (hooks, d) = hooks_for (p_dispatcher p) tel;
          fs2 =
            (case (p_store p, temp) of
               (Some dir, Some path) \<Rightarrow>
                 if path = [] then fs1
                 else snd (finalize (io_mkdir io) (io_rename io) dir path (eq_id tel) (warn_num tel) fs1)
             | _ \<Rightarrow> fs1)
      in (\<lparr>pr_telegram = tel, pr_text = txt, pr_title = title, pr_hooks = hooks\<rparr>,
          p\<lparr>p_dispatcher := d\<rparr>, fs2))"

text \<open>A sequence of telegrams.\<close>

fun process_all :: "(io_outcome \<times> string \<times> bytes) list \<Rightarrow> processor \<times> file_system
    \<Rightarrow> process_result list \<times> processor \<times> file_system" where
  "process_all [] st = ([], st)"
| "process_all ((io, md5, body) # ts) st =
     (let (r, st1) = process io md5 body st; (rs, st2) = process_all ts st1 in (r # rs, st2))"

lemma process_result_eq:
  "fst (process io md5 body (p, fs)) =
     \<lparr>pr_telegram = decode body, pr_text = fst (format (decode body)), pr_title = snd (format (decode body)),
      pr_hooks = fst (hooks_for (p_dispatcher p) (decode body))\<rparr>"
  "fst (snd (process io md5 body (p, fs))) = p\<lparr>p_dispatcher := snd (hooks_for (p_dispatcher p) (decode body))\<rparr>"
  by (simp_all add: process_def Let_def case_prod_beta)

lemma process_all_hooks:
  "map pr_hooks (fst (process_all ts (p, fs))) = select_all hooks_for (p_dispatcher p) (map (\<lambda>(_, _, b). decode b) ts)
   \<and> map pr_telegram (fst (process_all ts (p, fs))) = map (\<lambda>(_, _, b). decode b) ts
   \<and> map (\<lambda>r. (pr_text r, pr_title r)) (fst (process_all ts (p, fs))) = map (\<lambda>(_, _, b). format (decode b)) ts"
proof (induction ts arbitrary: p fs)
  case (Cons t ts)
  obtain io md5 body where t: "t = (io, md5, body)" by (metis prod_cases3)
  obtain r p' fs' where s: "process io md5 body (p, fs) = (r, p', fs')" by (metis prod_cases3)
  with process_result_eq [of io md5 body p fs] Cons.IH [of p' fs'] t show ?case
    by (simp add: case_prod_beta Let_def)
qed simp

text \<open>Archiving cannot delay or alter a notification: over any sequence of telegrams, the telegrams,
  texts, titles and hooks of the results are those of decoding, formatting and the dispatcher alone,
  whether a store is configured or not, whatever the clock says and whichever of its file operations
  fail.\<close>

lemma results_independent_of_archive:
  "let rs = fst (process_all ts (\<lparr>p_store = store, p_dispatcher = new_dispatcher all lim\<rparr>, fs));
       tels = map (\<lambda>(_, _, b). decode b) ts
   in map pr_telegram rs = tels
      \<and> map (\<lambda>r. (pr_text r, pr_title r)) rs = map format tels
      \<and> map pr_hooks rs = map (\<lambda>i. all @ (if limited_at [] tels i then lim else [])) [0..<length ts]"
proof -
  have "select_all hooks_for (new_dispatcher all lim) tels =
      map (\<lambda>i. all @ (if limited_at [] tels i then lim else [])) [0..<length tels]" for tels
    using slack.select_all_closed_form [of "new_dispatcher all lim" tels] by (simp add: new_dispatcher_def)
  then show ?thesis
    using process_all_hooks [of ts "\<lparr>p_store = store, p_dispatcher = new_dispatcher all lim\<rparr>" fs]
    by (simp add: Let_def case_prod_beta comp_def)
qed


section \<open>What the archive holds\<close>

definition io_fine :: "io_outcome \<Rightarrow> bool" where
  "io_fine io \<longleftrightarrow> io_write io = Written \<and> io_mkdir io \<and> io_rename io \<and> 0 \<le> io_now io"

text \<open>An MD5 header as the server computes it: hexadecimal digits.\<close>

definition md5_ok :: "string \<Rightarrow> bool" where
  "md5_ok m \<longleftrightarrow> m \<noteq> [] \<and> (\<forall>c \<in> set m. graphic c \<and> c \<noteq> slash \<and> c \<noteq> CHR ''.'')"

definition place :: "string \<Rightarrow> bytes \<Rightarrow> string" where
  "place dir body = final_path dir (eq_id (decode body)) (warn_num (decode body))"

lemma temp_below:
  assumes "dir \<noteq> []" "md5_ok md5" "0 \<le> now"
  shows "temp_path dir now md5 = below dir [itoa now @ ''.'' @ md5]" "plain_element (itoa now @ ''.'' @ md5)"
proof -
  have "slash \<notin> set (itoa now)" using itoa_digits [OF assms(3)] by (auto simp: list_all_iff is_digit_def)
  moreover have "md5 \<noteq> []" "slash \<notin> set md5" using assms(2) by (auto simp: md5_ok_def)
  moreover obtain c r where "itoa now = c # r" "is_digit c"
    using itoa_digits [OF assms(3)] by (cases "itoa now") auto
  moreover have "\<not> is_digit CHR ''.''" by (simp add: is_digit_def)
  ultimately show p: "plain_element (itoa now @ ''.'' @ md5)" by (auto simp: plain_element_def)
  then have "plain_element (itoa now @ ''.'' @ md5)" "itoa now @ ''.'' @ md5 \<noteq> []" by simp_all
  then show "temp_path dir now md5 = below dir [itoa now @ ''.'' @ md5]"
    using join_path_below [of dir "[itoa now @ ''.'' @ md5]"] assms(1) unfolding temp_path_def by simp
qed

lemma temp_not_place:
  assumes "dir \<noteq> []" "md5_ok md5" "0 \<le> now"
  shows "temp_path dir now md5 \<noteq> place dir body"
proof
  define t where "t = decode body"
  have ok: "id_ok (eq_id t)" "0 \<le> warn_num t"
    using wf_decode [of body] by (simp_all add: t_def wf_telegram_def id_ok_def)
  assume "temp_path dir now md5 = place dir body"
  then have "below dir [itoa now @ ''.'' @ md5] = below dir (archive_elements (eq_id t) (warn_num t))"
    using temp_below(1) [OF assms] final_path_below [OF assms(1) ok] by (simp add: place_def t_def)
  then have e: "[itoa now @ ''.'' @ md5] = archive_elements (eq_id t) (warn_num t)"
    using below_inject archive_plain [OF ok] temp_below(2) [OF assms] by simp
  then have "eq_id t = []" by (auto simp: archive_elements_def split: if_splits)
  with e have "itoa now @ ''.'' @ md5 = ''.'' @ itoa (warn_num t)" by (simp add: archive_elements_def)
  moreover obtain c r where "itoa now = c # r" "is_digit c"
    using itoa_digits [OF assms(3)] by (cases "itoa now") auto
  ultimately show False by (auto simp: is_digit_def)
qed

lemma below_neq_Nil: "ns \<noteq> [] \<Longrightarrow> list_all plain_element ns \<Longrightarrow> below dir ns \<noteq> []"
proof -
  assume "ns \<noteq> []" "list_all plain_element ns"
  then have "join_slash (base_elements dir @ ns) \<noteq> []"
    using base_no_slash [of _ dir]
    by (cases "base_elements dir"; cases "base_elements dir @ ns" rule: join_slash.cases)
      (auto simp: plain_element_def)
  then show ?thesis by (simp add: below_def)
qed

lemma process_files:
  assumes "dir \<noteq> []" "md5_ok md5" "io_fine io" "p_store p = Some dir"
  shows "fs_files (snd (snd (process io md5 body (p, fs)))) =
    (fs_files fs)(temp_path dir (io_now io) md5 := None, place dir body \<mapsto> body)"
proof -
  have now: "0 \<le> io_now io" using assms(3) by (simp add: io_fine_def)
  have ne: "temp_path dir (io_now io) md5 \<noteq> []"
    using temp_below [OF assms(1,2) now] below_neq_Nil by simp
  show ?thesis
    using assms ne temp_not_place [OF assms(1,2) now, of body]
    by (simp add: process_def Let_def case_prod_beta write_temp_def write_file_def io_fine_def finalize_def
        rename_file_def place_def fun_upd_twist)
qed

definition temps :: "string \<Rightarrow> (io_outcome \<times> string \<times> bytes) list \<Rightarrow> string set" where
  "temps dir ts = (\<lambda>(io, md5, _). temp_path dir (io_now io) md5) ` set ts"

lemma temps_Cons [simp]:
  "temps dir [] = {}"
  "temps dir ((io, md5, body) # ts) = insert (temp_path dir (io_now io) md5) (temps dir ts)"
  by (auto simp: temps_def)

definition placed :: "string \<Rightarrow> (io_outcome \<times> string \<times> bytes) list \<Rightarrow> string \<rightharpoonup> bytes" where
  "placed dir ts = map_of (rev (map (\<lambda>(_, _, b). (place dir b, b)) ts))"

lemma placed_Cons: "placed dir ((io, md5, b) # ts) = [place dir b \<mapsto> b] ++ placed dir ts" "placed dir [] = Map.empty"
  by (simp_all add: placed_def)

lemma placed_append: "placed dir (ts @ us) = placed dir ts ++ placed dir us"
  by (simp add: placed_def)

lemma placed_dom: "(\<And>b. place dir b \<noteq> path) \<Longrightarrow> placed dir ts path = None"
proof (induction ts)
  case (Cons t ts)
  have "path \<noteq> place dir (snd (snd t))" by (rule Cons.prems [symmetric])
  moreover have "placed dir ts path = None" by (rule Cons.IH) (rule Cons.prems)
  ultimately show ?case by (cases t) (simp add: placed_Cons map_add_def)
qed (simp add: placed_Cons)

lemma process_all_files:
  assumes "dir \<noteq> []" "list_all (\<lambda>(io, md5, _). io_fine io \<and> md5_ok md5) ts" "p_store p = Some dir"
  shows "fs_files (snd (snd (process_all ts (p, fs)))) path =
    (if path \<in> temps dir ts then None
     else (fs_files fs ++ placed dir ts) path)"
  using assms(2,3)
proof (induction ts arbitrary: p fs)
  case (Cons t ts)
  obtain io md5 body where t: "t = (io, md5, body)" by (metis prod_cases3)
  have ok: "io_fine io" "md5_ok md5" "0 \<le> io_now io" using Cons.prems(1) t by (simp_all add: io_fine_def)
  obtain r p' fs' where s: "process io md5 body (p, fs) = (r, p', fs')" by (metis prod_cases3)
  have p': "p_store p' = Some dir" using process_result_eq(2) [of io md5 body p fs] s Cons.prems(2) by simp
  have f: "fs_files fs' = (fs_files fs)(temp_path dir (io_now io) md5 := None, place dir body \<mapsto> body)"
    using process_files [OF assms(1) ok(2,1) Cons.prems(2), of body fs] s by simp
  note IH = Cons.IH [OF _ p', of fs']
  have no: "place dir b \<noteq> temp_path dir (io_now io) md5" for b
    using temp_not_place [OF assms(1) ok(2,3), of b] by simp
  then have none: "placed dir ts (temp_path dir (io_now io) md5) = None" by (intro placed_dom) simp
  have "list_all (\<lambda>(io, md5, _). io_fine io \<and> md5_ok md5) ts" using Cons.prems(1) by simp
  from IH [OF this] show ?case
    using s f t no [of body] none
    by (simp add: case_prod_beta Let_def placed_Cons map_add_def split: option.splits)
qed (simp add: placed_Cons)




section \<open>Choosing a server\<close>

record resolver =
  r_override :: string
  r_cached :: "string list"

text \<open>\<open>fetched\<close> is what the fetch of the list returned, \<open>pick\<close> the index drawn by \<open>ChooseServer\<close>; \<open>None\<close>
  where the index is not below the length (drawing from an empty list panics).\<close>

datatype 'e resolved = Resolved string | Resolve_error 'e

definition resolve_server :: "('e + string list) \<Rightarrow> nat \<Rightarrow> resolver \<Rightarrow> 'e resolved option \<times> resolver" where
  "resolve_server fetched pick r =
     (if r_override r \<noteq> [] then (Some (Resolved (r_override r)), r)
      else case fetched of
        Inl err \<Rightarrow>
          if r_cached r = [] then (Some (Resolve_error err), r)
          else (map_option Resolved (choose_server pick (r_cached r)), r)
      | Inr servers \<Rightarrow> (map_option Resolved (choose_server pick servers), r\<lparr>r_cached := servers\<rparr>))"

fun resolve_all :: "(http_reply \<times> nat) list \<Rightarrow> resolver \<Rightarrow> list_err resolved option list \<times> resolver" where
  "resolve_all [] r = ([], r)"
| "resolve_all ((reply, pick) # xs) r =
     (let (a, r1) = resolve_server (fetch_server_list reply) pick r; (as, r2) = resolve_all xs r1
      in (a # as, r2))"

text \<open>The list of the last fetch that succeeded.\<close>

fun last_list :: "string list \<Rightarrow> http_reply list \<Rightarrow> string list" where
  "last_list l [] = l"
| "last_list l (r # rs) = last_list (case fetch_server_list r of Inl _ \<Rightarrow> l | Inr servers \<Rightarrow> servers) rs"

definition answer_ok :: "http_reply \<Rightarrow> string list \<Rightarrow> list_err resolved option \<Rightarrow> bool" where
  "answer_ok reply servers a \<longleftrightarrow>
     (if servers = [] then \<exists>e. fetch_server_list reply = Inl e \<and> a = Some (Resolve_error e)
      else \<exists>s \<in> set servers. s \<noteq> [] \<and> a = Some (Resolved s))"

lemma choose_ok:
  assumes "servers \<noteq> []" "[] \<notin> set servers"
  shows "\<exists>s \<in> set servers. s \<noteq> [] \<and> map_option Resolved (choose_server pick servers) = Some (Resolved s)"
proof -
  obtain s where s: "choose_server pick servers = Some s" using assms(1) by (simp add: choose_server_def)
  then have "s \<in> set servers" by (rule choose_server_member)
  with s assms(2) show ?thesis by auto
qed

lemma resolve_all_ok:
  assumes "r_override r = []" "[] \<notin> set (r_cached r)"
  shows "list_all (\<lambda>i. answer_ok (fst (xs ! i)) (last_list (r_cached r) (map fst (take (Suc i) xs)))
    (fst (resolve_all xs r) ! i)) [0..<length xs]"
  using assms
proof (induction xs arbitrary: r)
  case (Cons x xs)
  obtain reply pick where x: "x = (reply, pick)" by (cases x)
  obtain a r1 where s: "resolve_server (fetch_server_list reply) pick r = (a, r1)"
    by (cases "resolve_server (fetch_server_list reply) pick r")
  let ?l = "case fetch_server_list reply of Inl _ \<Rightarrow> r_cached r | Inr servers \<Rightarrow> servers"
  have r1: "r_override r1 = []" "r_cached r1 = ?l" "[] \<notin> set (r_cached r1)"
    using s Cons.prems fetch_server_list_ok
    by (auto simp: resolve_server_def split: sum.splits if_splits)
  have a: "answer_ok reply ?l a"
    using s Cons.prems choose_ok fetch_server_list_ok [of reply]
    by (auto simp: resolve_server_def answer_ok_def split: sum.splits if_splits)
  have "[0..<length (x # xs)] = 0 # map Suc [0..<length xs]"
    by (simp add: upt_conv_Cons map_Suc_upt del: upt_Suc)
  then show ?case
    using Cons.IH [OF r1(1,3)] a s x r1(2)
    by (simp add: list.pred_map comp_def case_prod_beta Let_def del: upt_Suc)
qed simp

text \<open>C38. The resolver never invents an address and survives an outage of the list: without an override,
  over any sequence of calls, each call answers with a non-empty entry of the list fetched last with
  success, by this call or an earlier one, whatever index is drawn; it reports an error only while no
  fetch has ever succeeded, and then the error of its own fetch.\<close>

theorem resolver_uses_last_list:
  "list_all (\<lambda>i. answer_ok (fst (xs ! i)) (last_list [] (map fst (take (Suc i) xs)))
      (fst (resolve_all xs \<lparr>r_override = [], r_cached = []\<rparr>) ! i)) [0..<length xs]"
  using resolve_all_ok [of "\<lparr>r_override = [], r_cached = []\<rparr>" xs] by simp


section \<open>The connection loop\<close>

text \<open>\<open>connectAndLogin\<close>: the address, the fate of the dial and of the login's write, and the login request.\<close>

datatype connect_error = No_address list_err | Dial_failed | Login_failed

definition connect_and_login :: "list_err resolved \<Rightarrow> bool \<Rightarrow> bool \<Rightarrow> credentials \<Rightarrow> string
    \<Rightarrow> connect_error + string \<times> bytes" where
  "connect_and_login addr dial_ok write_ok creds now =
     (case addr of
        Resolve_error e \<Rightarrow> Inl (No_address e)
      | Resolved a \<Rightarrow>
          if \<not> dial_ok then Inl Dial_failed
          else (case login write_ok creds now of None \<Rightarrow> Inl Login_failed | Some req \<Rightarrow> Inr (a, req)))"

text \<open>A turn of \<open>runConnectionLoop\<close>: the context is done; connecting failed and the sleep was completed or
  not; or a session ended, with the context done or not.\<close>

datatype wni_round = Wni_ctx_done | Wni_connect_failed bool | Wni_session_ended bool

definition wni_initial_backoff :: int where "wni_initial_backoff = 1 * second"
definition wni_max_backoff :: int where "wni_max_backoff = 60 * second"

fun wni_turn :: "wni_round turn" where
  "wni_turn b Wni_ctx_done = None"
| "wni_turn b (Wni_connect_failed full) =
     (if \<not> full then None else Some (Some b, next_backoff b wni_max_backoff))"
| "wni_turn b (Wni_session_ended cancelled) =
     (if cancelled then None else Some (None, wni_initial_backoff))"

fun wni_failed :: "wni_round \<Rightarrow> bool" where
  "wni_failed (Wni_connect_failed full) \<longleftrightarrow> full"
| "wni_failed _ \<longleftrightarrow> False"

interpretation wni_backoff: capped_backoff wni_turn wni_initial_backoff wni_max_backoff wni_failed
proof unfold_locales
  show "0 < wni_initial_backoff" "wni_initial_backoff \<le> wni_max_backoff"
    by (simp_all add: wni_initial_backoff_def wni_max_backoff_def second_def)
  show "wni_failed r \<Longrightarrow> wni_turn b r = Some (Some b, next_backoff b wni_max_backoff)" for r b
    by (cases r) auto
  show "wni_initial_backoff \<le> b' \<and> b' \<le> wni_max_backoff
      \<and> (\<forall>d. w = Some d \<longrightarrow> wni_initial_backoff \<le> d \<and> d \<le> wni_max_backoff)"
    if "wni_initial_backoff \<le> b" "b \<le> wni_max_backoff" "wni_turn b r = Some (w, b')" for b r w b'
    using that
    by (cases r) (auto simp: next_backoff_min wni_initial_backoff_def wni_max_backoff_def second_def split: if_splits)
qed

text \<open>C31. The WNI reconnect loop sleeps between one second and one minute whenever it sleeps, and after a
  session the delays of the failed attempts that follow start again at one second and double to the cap;
  but it does not sleep after a session, however short: a relay that accepts the login and drops the
  connection at once is dialled again without any delay, any number of times.\<close>

theorem wni_backoff_bounded:
  "(\<forall>d \<in> set (slept wni_turn wni_initial_backoff rs). 1 * second \<le> d \<and> d \<le> 60 * second)
   \<and> slept wni_turn wni_initial_backoff (Wni_session_ended False # replicate n (Wni_connect_failed True)) =
       map (\<lambda>k. min (2 ^ k * second) (60 * second)) [0..<n]
   \<and> run_turns wni_turn wni_initial_backoff (replicate n (Wni_session_ended False)) =
       (replicate n None, wni_initial_backoff)"
proof (intro conjI)
  have i: "wni_initial_backoff \<le> wni_initial_backoff" "wni_initial_backoff \<le> wni_max_backoff"
    by (simp_all add: wni_initial_backoff_def wni_max_backoff_def second_def)
  show "\<forall>d \<in> set (slept wni_turn wni_initial_backoff rs). 1 * second \<le> d \<and> d \<le> 60 * second"
    using wni_backoff.slept_bounds [OF i] by (auto simp: wni_initial_backoff_def wni_max_backoff_def)
  show "slept wni_turn wni_initial_backoff (Wni_session_ended False # replicate n (Wni_connect_failed True)) =
       map (\<lambda>k. min (2 ^ k * second) (60 * second)) [0..<n]"
    using wni_backoff.slept_failures [OF i, of "replicate n (Wni_connect_failed True)"]
    by (simp add: wni_initial_backoff_def wni_max_backoff_def)
  show "run_turns wni_turn wni_initial_backoff (replicate n (Wni_session_ended False)) =
       (replicate n None, wni_initial_backoff)"
    by (induction n) simp_all
qed

lemma wni_backoff_bounded_witness:
  "slept wni_turn wni_initial_backoff [Wni_connect_failed True] = [second]
   \<and> 1 * second \<le> second \<and> second \<le> 60 * second"
proof -
  have s: "slept wni_turn wni_initial_backoff [Wni_connect_failed True] = [second]"
    by (simp add: wni_initial_backoff_def)
  from wni_backoff_bounded [of "[Wni_connect_failed True]" 0]
  have "\<forall>d \<in> set (slept wni_turn wni_initial_backoff [Wni_connect_failed True]). 1 * second \<le> d \<and> d \<le> 60 * second"
    by (rule conjunct1)
  with s show ?thesis by simp
qed


section \<open>The daemon\<close>

text \<open>What \<open>Run\<close> sets up and what its \<open>onData\<close> callback changes: the processor, the file system, the
  posts started (one goroutine each, running \<open>Slack.send\<close>) and the IRC connections.\<close>

record daemon =
  dm_processor :: processor
  dm_fs :: file_system
  dm_posts :: "(hook \<times> string \<times> string) list"
  dm_irc :: "connection list"

definition to_slack_hooks :: "(string \<Rightarrow> string option) \<Rightarrow> config_hook list \<Rightarrow> hook list" where
  "to_slack_hooks url_host hs = map (\<lambda>h. \<lparr>hook_name = display_name url_host h, hook_url = ch_url h\<rparr>) hs"

definition new_processor :: "string option \<Rightarrow> dispatcher \<Rightarrow> processor" where
  "new_processor store d = \<lparr>p_store = store, p_dispatcher = d\<rparr>"

definition start_daemon :: "(string \<Rightarrow> string option) \<Rightarrow> bool \<Rightarrow> bool \<Rightarrow> config \<Rightarrow> file_system
    \<Rightarrow> store_err + daemon" where
  "start_daemon url_host mkdir_ok write_ok cfg fs =
     (let store = (if log_dir cfg \<noteq> []
            then (case open_store mkdir_ok write_ok (log_dir cfg) of Inl e \<Rightarrow> Inl e | Inr s \<Rightarrow> Inr (Some s))
            else Inr None);
          (all, lim) = (case slack_conf cfg of None \<Rightarrow> ([], [])
            | Some sc \<Rightarrow> (to_slack_hooks url_host (s_all sc), to_slack_hooks url_host (s_limited sc)))
      in case store of
           Inl e \<Rightarrow> Inl e
         | Inr st \<Rightarrow> Inr \<lparr>dm_processor = new_processor st (new_dispatcher all lim), dm_fs = fs,
             dm_posts = [], dm_irc = map (\<lambda>s. start_connection s) (irc_conf cfg)\<rparr>)"

definition dispatch_to_slack :: "process_result \<Rightarrow> (hook \<times> string \<times> string) list" where
  "dispatch_to_slack r = map (\<lambda>h. (h, pr_text r, pr_title r)) (pr_hooks r)"

definition dispatch_to_irc :: "connection list \<Rightarrow> process_result \<Rightarrow> connection list" where
  "dispatch_to_irc cs r = map (notify (pr_telegram r) (pr_text r)) cs"

definition on_data_received :: "io_outcome \<Rightarrow> string \<Rightarrow> bytes \<Rightarrow> daemon \<Rightarrow> daemon" where
  "on_data_received io md5 body d =
     (let (r, p, fs) = process io md5 body (dm_processor d, dm_fs d)
      in d\<lparr>dm_processor := p, dm_fs := fs, dm_posts := dm_posts d @ dispatch_to_slack r,
           dm_irc := dispatch_to_irc (dm_irc d) r\<rparr>)"

text \<open>The handlers \<open>runConnectionLoop\<close> installs: data goes to \<open>onData\<close>, the others only log.\<close>

definition app_handlers :: "bool \<Rightarrow> handlers" where
  "app_handlers log_keep_alive = \<lparr>on_data = True, on_keep_alive = log_keep_alive, on_response = True\<rparr>"

fun on_calls :: "(nat \<Rightarrow> io_outcome) \<Rightarrow> nat \<Rightarrow> call list \<Rightarrow> daemon \<Rightarrow> daemon" where
  "on_calls io n [] d = d"
| "on_calls io n (OnData md5 body # cs) d = on_calls io (Suc n) cs (on_data_received (io n) md5 body d)"
| "on_calls io n (_ # cs) d = on_calls io (Suc n) cs d"

fun call_bodies :: "call list \<Rightarrow> bytes list" where
  "call_bodies [] = []"
| "call_bodies (OnData md5 body # cs) = body # call_bodies cs"
| "call_bodies (_ # cs) = call_bodies cs"

text \<open>The posts and the IRC queues are functions of the telegrams alone.\<close>

definition post_of :: "telegram \<Rightarrow> hook list \<Rightarrow> (hook \<times> string \<times> string) list" where
  "post_of t hs = map (\<lambda>h. (h, fst (format t), snd (format t))) hs"

lemma on_calls_effects:
  "dm_posts (on_calls io n cs d) = dm_posts d @
     concat (map2 post_of (map decode (call_bodies cs))
       (select_all hooks_for (p_dispatcher (dm_processor d)) (map decode (call_bodies cs))))
   \<and> dm_irc (on_calls io n cs d) =
     map (\<lambda>c. foldl (\<lambda>c t. notify t (fst (format t)) c) c (map decode (call_bodies cs))) (dm_irc d)"
proof (induction cs arbitrary: n d)
  case (Cons c cs)
  show ?case
  proof (cases c)
    case (OnData md5 body)
    let ?d = "on_data_received (io n) md5 body d"
    have p: "p_dispatcher (dm_processor ?d) = snd (hooks_for (p_dispatcher (dm_processor d)) (decode body))"
      "dm_posts ?d = dm_posts d @ post_of (decode body) (fst (hooks_for (p_dispatcher (dm_processor d)) (decode body)))"
      "dm_irc ?d = map (notify (decode body) (fst (format (decode body)))) (dm_irc d)"
      using process_result_eq [of "io n" md5 body "dm_processor d" "dm_fs d"]
      by (simp_all add: on_data_received_def dispatch_to_slack_def dispatch_to_irc_def post_of_def
          case_prod_beta Let_def)
    show ?thesis using Cons.IH [of "Suc n" ?d] p OnData by simp
  qed (use Cons in simp_all)
qed simp


text \<open>The archive is that of processing the telegrams one after the other; their digests are those of the
  bodies where a server has sent them.\<close>

fun call_telegrams :: "(nat \<Rightarrow> io_outcome) \<Rightarrow> nat \<Rightarrow> call list \<Rightarrow> (io_outcome \<times> string \<times> bytes) list" where
  "call_telegrams io n [] = []"
| "call_telegrams io n (OnData md5 body # cs) = (io n, md5, body) # call_telegrams io (Suc n) cs"
| "call_telegrams io n (_ # cs) = call_telegrams io (Suc n) cs"

lemma call_telegrams_bodies: "map (\<lambda>(_, _, b). b) (call_telegrams io n cs) = call_bodies cs"
  by (induction io n cs rule: call_telegrams.induct) simp_all

lemma on_calls_archive:
  "snd (process_all (call_telegrams io n cs) (dm_processor d, dm_fs d)) =
     (dm_processor (on_calls io n cs d), dm_fs (on_calls io n cs d))"
proof (induction io n cs arbitrary: d rule: call_telegrams.induct)
  case (2 io n md5 body cs)
  let ?d = "on_data_received (io n) md5 body d"
  have "(dm_processor ?d, dm_fs ?d) = snd (process (io n) md5 body (dm_processor d, dm_fs d))"
    by (simp add: on_data_received_def case_prod_beta Let_def)
  with 2 [of ?d] show ?case by (simp add: case_prod_beta Let_def)
qed simp_all

lemma md5_hex_ok: "md5_ok (md5_hex b)"
proof -
  have "c \<in> set ''0123456789abcdef'' \<Longrightarrow> c \<noteq> slash \<and> c \<noteq> CHR ''.''" for c by auto
  moreover have "md5_hex b \<noteq> []" using length_md5_hex [of b] by auto
  ultimately show ?thesis
    using set_md5_hex [of b] md5_hex_graphic [of _ b] unfolding md5_ok_def by blast
qed

fun digest_ok :: "call \<Rightarrow> bool" where
  "digest_ok (OnData md5 body) \<longleftrightarrow> md5 = md5_hex body"
| "digest_ok _ \<longleftrightarrow> True"

lemma call_telegrams_ok:
  "list_all digest_ok cs \<Longrightarrow> (\<And>n. io_fine (io n)) \<Longrightarrow>
     list_all (\<lambda>(io, md5, _). io_fine io \<and> md5_ok md5) (call_telegrams io n cs)"
  by (induction io n cs rule: call_telegrams.induct) (simp_all add: md5_hex_ok)

lemma sent_digests: "list_all digest_ok (dispatch h (map sent_frame ms))"
proof (induction ms)
  case (Cons m ms)
  then show ?case by (cases m) (simp_all add: dispatch_def)
qed (simp add: dispatch_def)


section \<open>The whole run\<close>

text \<open>\<open>runConnectionLoop\<close> with what its sessions do: the context done at the loop's head, a failed attempt
  to connect with the sleep completed or not, or a session given by what its reads return, with the
  context done afterwards or not.  Each session has a parser of its own (\<open>Dial\<close> makes it); a panic of the
  parser ends the process.\<close>

datatype loop_event =
    Loop_ctx_done
  | Loop_failed connect_error bool
  | Loop_session "read_event list" bool

fun loop_round :: "loop_event \<Rightarrow> wni_round" where
  "loop_round Loop_ctx_done = Wni_ctx_done"
| "loop_round (Loop_failed e full) = Wni_connect_failed full"
| "loop_round (Loop_session es cancelled) = Wni_session_ended cancelled"

fun session_run :: "bool \<Rightarrow> loop_event \<Rightarrow> call list \<times> run_err option" where
  "session_run ka (Loop_session es cancelled) = run (app_handlers ka) new_parser es"
| "session_run ka _ = ([], None)"

fun connection_loop :: "(nat \<Rightarrow> io_outcome) \<Rightarrow> bool \<Rightarrow> int \<Rightarrow> nat \<Rightarrow> loop_event list \<Rightarrow> daemon \<Rightarrow> daemon" where
  "connection_loop io ka b n [] d = d"
| "connection_loop io ka b n (ev # evs) d =
     (let (calls, err) = session_run ka ev; d' = on_calls io n calls d
      in if err = Some Run_panic then d'
         else case wni_turn b (loop_round ev) of
                None \<Rightarrow> d'
              | Some (_, b') \<Rightarrow> connection_loop io ka b' (n + length calls) evs d')"

definition run_daemon :: "(string \<Rightarrow> string option) \<Rightarrow> bool \<Rightarrow> bool \<Rightarrow> (nat \<Rightarrow> io_outcome) \<Rightarrow> config \<Rightarrow> file_system
    \<Rightarrow> loop_event list \<Rightarrow> store_err + daemon" where
  "run_daemon url_host mkdir_ok write_ok io cfg fs evs =
     (case start_daemon url_host mkdir_ok write_ok cfg fs of
        Inl e \<Rightarrow> Inl e
      | Inr d \<Rightarrow> Inr (connection_loop io (w_log_keep_alive (wni_conf cfg)) wni_initial_backoff 0 evs d))"

text \<open>The loop is \<open>onData\<close> on the calls of all its sessions.\<close>

fun loop_calls :: "bool \<Rightarrow> int \<Rightarrow> loop_event list \<Rightarrow> call list" where
  "loop_calls ka b [] = []"
| "loop_calls ka b (ev # evs) =
     fst (session_run ka ev) @
     (if snd (session_run ka ev) = Some Run_panic then []
      else case wni_turn b (loop_round ev) of None \<Rightarrow> [] | Some (_, b') \<Rightarrow> loop_calls ka b' evs)"

lemma on_calls_append: "on_calls io n (xs @ ys) d = on_calls io (n + length xs) ys (on_calls io n xs d)"
  by (induction io n xs d rule: on_calls.induct) simp_all

lemma connection_loop_calls: "connection_loop io ka b n evs d = on_calls io n (loop_calls ka b evs) d"
proof (induction evs arbitrary: b n d)
  case (Cons ev evs)
  then show ?case by (auto simp: on_calls_append case_prod_beta Let_def split: option.split)
qed simp

lemma call_bodies_append: "call_bodies (xs @ ys) = call_bodies xs @ call_bodies ys"
  by (induction xs rule: call_bodies.induct) simp_all

text \<open>What the daemon was configured to tell.\<close>

definition slack_lists :: "(string \<Rightarrow> string option) \<Rightarrow> config \<Rightarrow> hook list \<times> hook list" where
  "slack_lists url_host cfg = (case slack_conf cfg of None \<Rightarrow> ([], [])
     | Some sc \<Rightarrow> (to_slack_hooks url_host (s_all sc), to_slack_hooks url_host (s_limited sc)))"

lemma start_daemon_Inr:
  assumes "start_daemon url_host mkdir_ok write_ok cfg fs = Inr d"
  shows "\<exists>store. dm_processor d = new_processor store (new_dispatcher (fst (slack_lists url_host cfg)) (snd (slack_lists url_host cfg)))"
    and "dm_posts d = []" and "dm_irc d = map start_connection (irc_conf cfg)"
  using assms by (auto simp: start_daemon_def slack_lists_def Let_def split: if_splits sum.splits prod.splits option.splits)

end
