(* ===== verification/Slack.thy ===== *)
theory Slack
  imports Notify "HOL-Library.Word"
begin

text \<open>
  \<open>internal/slack/notifier.go\<close>: posting one message to one webhook, with retries.  The HTTP exchange is
  the environment: \<open>env k\<close> says how the \<open>k\<close>-th attempt ends and whether the wait after it is completed
  (rather than cut short by the context).  A \<open>time.Duration\<close> is an \<open>int64\<close> of nanoseconds; where the
  source multiplies a number from the network by a second, the product wraps, and the model computes it
  on 64-bit words.
\<close>


section \<open>One attempt\<close>

datatype attempt = Request_error | Post_error | Response int string  \<comment> \<open>status, Retry-After\<close>

datatype send_error = Not_retryable | Retryable int int  \<comment> \<open>status, \<open>retryAfter\<close>\<close>

definition duration_of_seconds :: "int \<Rightarrow> int" where
  "duration_of_seconds secs = sint (word_of_int secs * word_of_int 1000000000 :: 64 word)"

text \<open>\<open>until\<close> stands for \<open>http.ParseTime\<close> and the clock: the nanoseconds until an HTTP date, or \<open>None\<close>
  where the header is no date.\<close>

definition parse_retry_after :: "(string \<Rightarrow> int option) \<Rightarrow> string \<Rightarrow> int" where
  "parse_retry_after until v =
     (if v = [] then 0
      else case atoi v of
        Some secs \<Rightarrow> duration_of_seconds secs
      | None \<Rightarrow> (case until v of Some d \<Rightarrow> if d > 0 then d else 0 | None \<Rightarrow> 0))"

definition send_once :: "(string \<Rightarrow> int option) \<Rightarrow> attempt \<Rightarrow> send_error option" where
  "send_once until a =
     (case a of
        Request_error \<Rightarrow> Some Not_retryable
      | Post_error \<Rightarrow> Some Not_retryable
      | Response status retry_after \<Rightarrow>
          if status = 429 \<or> status \<ge> 500 then Some (Retryable status (parse_retry_after until retry_after))
          else if status \<ge> 300 then Some Not_retryable
          else None)"


section \<open>The retry loop\<close>

definition maxAttempts :: nat where "maxAttempts = 3"
definition defaultRetryWait :: int where "defaultRetryWait = 1000000000"
definition maxRetryWait :: int where "maxRetryWait = 10 * 1000000000"

definition retry_wait :: "nat \<Rightarrow> int \<Rightarrow> int" where
  "retry_wait attempt retry_after =
     (let wait = (if retry_after \<le> 0 then defaultRetryWait * int attempt else retry_after)
      in if wait > maxRetryWait then maxRetryWait else wait)"

datatype send_result = Sent_ok | Gave_up nat send_error | Context_done nat

text \<open>The loop from one attempt on: the waits it starts and what \<open>Send\<close> returns.  The clock moves on, so \<open>until\<close>
  depends on the attempt.\<close>

function send_from :: "(nat \<Rightarrow> string \<Rightarrow> int option) \<Rightarrow> (nat \<Rightarrow> attempt \<times> bool) \<Rightarrow> nat \<Rightarrow> int list \<times> send_result" where
  "send_from until env attempt =
     (case send_once (until attempt) (fst (env attempt)) of
        None \<Rightarrow> ([], Sent_ok)
      | Some Not_retryable \<Rightarrow> ([], Gave_up attempt Not_retryable)
      | Some (Retryable st ra) \<Rightarrow>
          if attempt \<ge> maxAttempts then ([], Gave_up attempt (Retryable st ra))
          else let wait = retry_wait attempt ra
               in if snd (env attempt)
                  then let (ws, r) = send_from until env (Suc attempt) in (wait # ws, r)
                  else ([wait], Context_done attempt))"
  by pat_completeness auto
termination
  by (relation "measure (\<lambda>(until, env, attempt). maxAttempts - attempt)") auto

declare send_from.simps [simp del]

definition send :: "(nat \<Rightarrow> string \<Rightarrow> int option) \<Rightarrow> (nat \<Rightarrow> attempt \<times> bool) \<Rightarrow> int list \<times> send_result" where
  "send until env = send_from until env 1"


section \<open>Properties\<close>

lemma retry_wait_bounds: "0 < attempt \<Longrightarrow> 0 < retry_wait attempt ra \<and> retry_wait attempt ra \<le> maxRetryWait"
  by (simp add: retry_wait_def maxRetryWait_def defaultRetryWait_def Let_def)

lemma send_from_waits:
  "0 < a \<Longrightarrow> a \<le> maxAttempts \<Longrightarrow>
     length (fst (send_from until env a)) \<le> maxAttempts - a
     \<and> (\<forall>w \<in> set (fst (send_from until env a)). 0 < w \<and> w \<le> maxRetryWait)"
proof (induction until env a rule: send_from.induct)
  case (1 until env a)
  show ?case
  proof (cases "\<exists>st ra. send_once (until a) (fst (env a)) = Some (Retryable st ra) \<and> a < maxAttempts")
    case True
    then obtain st ra where s: "send_once (until a) (fst (env a)) = Some (Retryable st ra)" "a < maxAttempts" by blast
    note IH = "1.IH" [OF s(1) refl _ refl]
    show ?thesis
    proof (cases "snd (env a)")
      case True
      with IH s have "length (fst (send_from until env (Suc a))) \<le> maxAttempts - Suc a
          \<and> (\<forall>w \<in> set (fst (send_from until env (Suc a))). 0 < w \<and> w \<le> maxRetryWait)"
        by simp
      then show ?thesis using s True retry_wait_bounds [OF "1.prems"(1)]
        by (subst (1 2) send_from.simps) (auto simp: Let_def split: prod.splits)
    next
      case False
      then show ?thesis using s retry_wait_bounds [OF "1.prems"(1)]
        by (subst (1 2) send_from.simps) (auto simp: Let_def)
    qed
  next
    case False
    then show ?thesis
      by (subst (1 2) send_from.simps) (auto split: option.splits send_error.splits)
  qed
qed

lemma sum_list_bound:
  fixes b :: int
  shows "(\<forall>w \<in> set ws. w \<le> b) \<Longrightarrow> sum_list ws \<le> int (length ws) * b"
  by (induction ws) (auto simp: algebra_simps)

text \<open>A webhook cannot stall its sender: whatever the server answers, \<open>Retry-After\<close> values that
  overflow, lie in the past or ask for years included, and whatever the clock says, at most two waits
  happen, each longer than zero and at most ten seconds; together they stay within twenty seconds, less
  than the thirty seconds the caller allows.\<close>

lemma slack_waits_bounded:
  "let ws = fst (send until env)
   in length ws \<le> 2 \<and> list_all (\<lambda>w. 0 < w \<and> w \<le> 10 * 1000000000) ws \<and> sum_list ws \<le> 20 * 1000000000"
proof -
  have b: "length (fst (send until env)) \<le> 2"
    "\<forall>w \<in> set (fst (send until env)). 0 < w \<and> w \<le> maxRetryWait"
    using send_from_waits [of 1 until env] by (simp_all add: send_def maxAttempts_def)
  then have "sum_list (fst (send until env)) \<le> int (length (fst (send until env))) * maxRetryWait"
    by (intro sum_list_bound) auto
  also have "\<dots> \<le> 2 * maxRetryWait" using b(1) by (simp add: maxRetryWait_def)
  finally show ?thesis using b by (simp add: Let_def list_all_iff maxRetryWait_def)
qed

definition retryable :: "attempt \<Rightarrow> bool" where
  "retryable a \<longleftrightarrow> (case a of Response st _ \<Rightarrow> st = 429 \<or> st \<ge> 500 | _ \<Rightarrow> False)"

definition accepted :: "attempt \<Rightarrow> bool" where
  "accepted a \<longleftrightarrow> (case a of Response st _ \<Rightarrow> st < 300 | _ \<Rightarrow> False)"

lemma send_once_cases:
  "send_once until a = None \<longleftrightarrow> accepted a"
  "(\<exists>st ra. send_once until a = Some (Retryable st ra)) \<longleftrightarrow> retryable a"
  by (auto simp: send_once_def accepted_def retryable_def split: attempt.splits)

lemma send_from_step:
  "snd (send_from until env a) = Sent_ok \<longleftrightarrow>
     accepted (fst (env a))
     \<or> retryable (fst (env a)) \<and> a < maxAttempts \<and> snd (env a) \<and> snd (send_from until env (Suc a)) = Sent_ok"
  using send_once_cases [of "until a" "fst (env a)"]
  by (subst send_from.simps) (auto simp: Let_def split: option.splits send_error.splits prod.splits)

text \<open>When a message counts as sent: exactly where one of the three attempts is answered with a
  status below 300 and every attempt before it with 429 or 5xx, its wait completed.  A client error, a
  transport error or a redirect ends the sending at once.\<close>

lemma slack_sent_iff:
  "snd (send until env) = Sent_ok \<longleftrightarrow>
     (\<exists>k \<in> {1, 2, 3}. accepted (fst (env k))
        \<and> (\<forall>j \<in> {1..<k}. retryable (fst (env j)) \<and> snd (env j)))"
proof -
  have "{1..<2::nat} = {1}" "{1..<3::nat} = {1, 2}" by auto
  then show ?thesis
    using send_from_step [of until env 1] send_from_step [of until env 2] send_from_step [of until env 3]
    by (auto simp: send_def maxAttempts_def numeral_2_eq_2 numeral_3_eq_3)
qed

lemma slack_sent_iff_example:
  "snd (send (\<lambda>_ _. None) (\<lambda>k. (if k = 1 then Response 503 ''2'' else Response 200 [], True))) = Sent_ok"
  by (rule slack_sent_iff [THEN iffD2]) (auto simp: accepted_def retryable_def)

text \<open>The product of a huge \<open>Retry-After\<close> wraps: about 292 years ahead reads as a moment in the past, and
  the default wait is taken.\<close>

lemma retry_after_wraps:
  "parse_retry_after until ''9223372037'' < 0"
  "retry_wait 1 (parse_retry_after until ''9223372037'') = defaultRetryWait"
proof -
  have "atoi ''9223372037'' = Some 9223372037"
    by (simp add: atoi_def is_digit_def dec_val_def digit_val_def)
  then have "parse_retry_after until ''9223372037'' = - 9223372036709551616"
    by (simp add: parse_retry_after_def duration_of_seconds_def signed_take_bit_int_eq_self)
  then show "parse_retry_after until ''9223372037'' < 0"
    "retry_wait 1 (parse_retry_after until ''9223372037'') = defaultRetryWait"
    by (simp_all add: retry_wait_def maxRetryWait_def defaultRetryWait_def Let_def)
qed

end
