(* ===== verification/Slack_Timed.thy ===== *)
theory Slack_Timed
  imports Slack
begin

text \<open>
  \<open>internal/slack/notifier.go\<close> and \<open>dispatchToSlack\<close> of \<open>internal/app/app.go\<close> in time: the HTTP client gives
  up on a request after ten seconds, the context of one \<open>Send\<close> is done thirty seconds after it starts, and
  waits pass.  Times are nanoseconds.  Each run in time is a run of \<open>send\<close> of the theory Slack, whose
  environment then says what the clock made of each attempt.
\<close>


section \<open>Runs in time\<close>

definition clientTimeout :: int where "clientTimeout = 10 * 1000000000"
definition slackSendTimeout :: int where "slackSendTimeout = 30 * 1000000000"

text \<open>What would come back for an attempt if nothing cut it short, and how long it would take.\<close>

record exchange =
  ex_takes :: int
  ex_answer :: attempt

text \<open>An attempt from a moment on: what it returns and when.  Where an answer and a timeout fall on the same
  nanosecond, the timeout counts.\<close>

definition attempt_at :: "int \<Rightarrow> int \<Rightarrow> exchange \<Rightarrow> attempt \<times> int" where
  "attempt_at deadline now x =
     (let cut = min (now + clientTimeout) deadline
      in if now + ex_takes x < cut then (ex_answer x, now + ex_takes x) else (Post_error, cut))"

text \<open>\<open>date\<close> reads an HTTP date as a moment.\<close>

definition until_at :: "(string \<Rightarrow> int option) \<Rightarrow> int \<Rightarrow> string \<Rightarrow> int option" where
  "until_at date now v = map_option (\<lambda>t. t - now) (date v)"

function timed_from :: "(string \<Rightarrow> int option) \<Rightarrow> int \<Rightarrow> (nat \<Rightarrow> exchange) \<Rightarrow> nat \<Rightarrow> int \<Rightarrow> int \<times> send_result" where
  "timed_from date deadline xs attempt now =
     (let (a, t) = attempt_at deadline now (xs attempt)
      in case send_once (until_at date t) a of
           None \<Rightarrow> (t, Sent_ok)
         | Some Not_retryable \<Rightarrow> (t, Gave_up attempt Not_retryable)
         | Some (Retryable st ra) \<Rightarrow>
             if attempt \<ge> maxAttempts then (t, Gave_up attempt (Retryable st ra))
             else let wait = retry_wait attempt ra
                  in if t + wait < deadline then timed_from date deadline xs (Suc attempt) (t + wait)
                     else (deadline, Context_done attempt))"
  by pat_completeness auto
termination
  by (relation "measure (\<lambda>(date, deadline, xs, attempt, now). maxAttempts - attempt)") auto

declare timed_from.simps [simp del]

text \<open>\<open>Send\<close> with a context that is done a limit after the start: when it ends, and what it returned.\<close>

definition send_within :: "int \<Rightarrow> (string \<Rightarrow> int option) \<Rightarrow> (nat \<Rightarrow> exchange) \<Rightarrow> int \<Rightarrow> int \<times> send_result" where
  "send_within limit date xs start = timed_from date (start + limit) xs 1 start"

text \<open>The goroutine of one hook.\<close>

definition timed_send :: "(string \<Rightarrow> int option) \<Rightarrow> (nat \<Rightarrow> exchange) \<Rightarrow> int \<Rightarrow> int \<times> send_result" where
  "timed_send date xs start = send_within slackSendTimeout date xs start"


section \<open>A run in time is a run\<close>

text \<open>When each attempt starts, if it does.\<close>

fun start_of :: "(string \<Rightarrow> int option) \<Rightarrow> int \<Rightarrow> (nat \<Rightarrow> exchange) \<Rightarrow> int \<Rightarrow> nat \<Rightarrow> int" where
  "start_of date deadline xs start 0 = start"
| "start_of date deadline xs start (Suc k) =
     (let s = start_of date deadline xs start k; (a, t) = attempt_at deadline s (xs (Suc k))
      in t + (case send_once (until_at date t) a of Some (Retryable st ra) \<Rightarrow> retry_wait (Suc k) ra | _ \<Rightarrow> 0))"

definition timed_env :: "(string \<Rightarrow> int option) \<Rightarrow> int \<Rightarrow> (nat \<Rightarrow> exchange) \<Rightarrow> int \<Rightarrow> nat \<Rightarrow> attempt \<times> bool" where
  "timed_env date deadline xs start k =
     (fst (attempt_at deadline (start_of date deadline xs start (k - 1)) (xs k)),
      start_of date deadline xs start k < deadline)"

definition timed_until :: "(string \<Rightarrow> int option) \<Rightarrow> int \<Rightarrow> (nat \<Rightarrow> exchange) \<Rightarrow> int \<Rightarrow> nat \<Rightarrow> string \<Rightarrow> int option" where
  "timed_until date deadline xs start k =
     until_at date (snd (attempt_at deadline (start_of date deadline xs start (k - 1)) (xs k)))"

lemma timed_from_send_from:
  "snd (timed_from date deadline xs (Suc k) (start_of date deadline xs start k)) =
   snd (send_from (timed_until date deadline xs start) (timed_env date deadline xs start) (Suc k))"
proof (induction "maxAttempts - k" arbitrary: k rule: less_induct)
  case less
  let ?s = "start_of date deadline xs start k"
  obtain a t where a: "attempt_at deadline ?s (xs (Suc k)) = (a, t)" by fastforce
  have e: "timed_env date deadline xs start (Suc k) = (a, start_of date deadline xs start (Suc k) < deadline)"
    "timed_until date deadline xs start (Suc k) = until_at date t"
    by (simp_all add: timed_env_def timed_until_def a)
  show ?case
  proof (cases "\<exists>st ra. send_once (until_at date t) a = Some (Retryable st ra) \<and> \<not> maxAttempts \<le> Suc k")
    case True
    then obtain st ra where r: "send_once (until_at date t) a = Some (Retryable st ra)" "\<not> maxAttempts \<le> Suc k"
      by blast
    then have n: "start_of date deadline xs start (Suc k) = t + retry_wait (Suc k) ra" by (simp add: a Let_def)
    have "maxAttempts - Suc k < maxAttempts - k" using r(2) by linarith
    from less [OF this] show ?thesis
      unfolding n using r
      by (subst timed_from.simps, subst send_from.simps) (simp add: a e n Let_def case_prod_beta)
  next
    case False
    then show ?thesis
      by (subst timed_from.simps, subst send_from.simps)
        (auto simp: a e Let_def split: option.split send_error.split)
  qed
qed

lemma timed_is_send:
  "snd (timed_send date xs start) =
   snd (send (timed_until date (start + slackSendTimeout) xs start) (timed_env date (start + slackSendTimeout) xs start))"
  using timed_from_send_from [of date "start + slackSendTimeout" xs 0 start] by (simp add: timed_send_def send_within_def send_def)


section \<open>The end of a goroutine\<close>

lemma attempt_at_bounds:
  "0 \<le> ex_takes x \<Longrightarrow> now \<le> deadline \<Longrightarrow>
     now \<le> snd (attempt_at deadline now x) \<and> snd (attempt_at deadline now x) \<le> deadline"
  by (auto simp: attempt_at_def Let_def clientTimeout_def)

lemma timed_from_bounds:
  "(\<And>k. 0 \<le> ex_takes (xs k)) \<Longrightarrow> 0 < attempt \<Longrightarrow> now \<le> deadline \<Longrightarrow>
     now \<le> fst (timed_from date deadline xs attempt now) \<and> fst (timed_from date deadline xs attempt now) \<le> deadline"
proof (induction date deadline xs attempt now rule: timed_from.induct)
  case (1 date deadline xs attempt now)
  obtain a t where a: "attempt_at deadline now (xs attempt) = (a, t)" by fastforce
  then have t: "now \<le> t" "t \<le> deadline" using attempt_at_bounds [of "xs attempt" now deadline] "1.prems" by simp_all
  show ?case
  proof (cases "\<exists>st ra. send_once (until_at date t) a = Some (Retryable st ra) \<and> \<not> maxAttempts \<le> attempt
      \<and> t + retry_wait attempt ra < deadline")
    case True
    then obtain st ra where r: "send_once (until_at date t) a = Some (Retryable st ra)" "\<not> maxAttempts \<le> attempt"
      "t + retry_wait attempt ra < deadline" by blast
    have w: "0 < retry_wait attempt ra" using retry_wait_bounds [OF "1.prems"(2)] by blast
    have "t + retry_wait attempt ra \<le> fst (timed_from date deadline xs (Suc attempt) (t + retry_wait attempt ra))
        \<and> fst (timed_from date deadline xs (Suc attempt) (t + retry_wait attempt ra)) \<le> deadline"
      by (rule "1.IH" [OF a [symmetric] refl r(1) refl r(2) refl r(3) "1.prems"(1)]) (use r(3) in auto)
    then show ?thesis using r t w by (subst (1 2) timed_from.simps) (simp add: a Let_def)
  next
    case False
    then show ?thesis using t "1.prems"(3)
      by (subst (1 2) timed_from.simps) (auto simp: a Let_def split: option.split send_error.split)
  qed
qed

lemma send_within_bounds:
  assumes "\<And>k. 0 \<le> ex_takes (xs k)" "0 \<le> limit"
  shows "start \<le> fst (send_within limit date xs start) \<and> fst (send_within limit date xs start) \<le> start + limit"
  unfolding send_within_def by (rule timed_from_bounds [OF assms(1)]) (use assms(2) in auto)

text \<open>C24. A webhook cannot hold up the daemon's goroutines: whatever the servers answer, and however late or
  never, the goroutine that sends one message to one hook ends at most thirty seconds after it was started,
  and what \<open>Send\<close> does in it is a run of the retry loop on what the clock makes of the answers, with at most two waits, each longer than
  zero and at most ten seconds, \<open>Retry-After\<close> values that overflow, lie in the past or ask for years
  included.\<close>

theorem slack_send_bounded:
  assumes "\<And>k. 0 \<le> ex_takes (xs k)"
  shows "start \<le> fst (timed_send date xs start) \<and> fst (timed_send date xs start) \<le> start + 30 * 1000000000
    \<and> (let deadline = start + slackSendTimeout; (ws, r) = send (timed_until date deadline xs start) (timed_env date deadline xs start)
       in r = snd (timed_send date xs start) \<and> length ws \<le> 2 \<and> list_all (\<lambda>w. 0 < w \<and> w \<le> 10 * 1000000000) ws)"
proof -
  let ?u = "timed_until date (start + slackSendTimeout) xs start" and ?e = "timed_env date (start + slackSendTimeout) xs start"
  have "0 \<le> slackSendTimeout" by (simp add: slackSendTimeout_def)
  then have "start \<le> fst (timed_send date xs start) \<and> fst (timed_send date xs start) \<le> start + slackSendTimeout"
    unfolding timed_send_def by (intro send_within_bounds assms)
  then show ?thesis using slack_waits_bounded [of ?u ?e] unfolding slackSendTimeout_def Let_def
    by (simp add: timed_is_send slackSendTimeout_def case_prod_beta)
qed

lemma slack_send_bounded_witness:
  "fst (timed_send (\<lambda>_. None) (\<lambda>k. \<lparr>ex_takes = 10 ^ 15, ex_answer = Response 200 []\<rparr>) 7) \<le> 7 + 30 * 1000000000"
  using slack_send_bounded [of "\<lambda>k. \<lparr>ex_takes = 10 ^ 15, ex_answer = Response 200 []\<rparr>" 7 "\<lambda>_. None"] by simp


section \<open>Answers that come in time\<close>

lemma start_of_prompt:
  assumes "\<And>k. 0 \<le> ex_takes (xs k) \<and> 3 * ex_takes (xs k) < clientTimeout"
  shows "k \<le> 2 \<Longrightarrow> start \<le> start_of date (start + slackSendTimeout) xs start k
    \<and> 3 * (start_of date (start + slackSendTimeout) xs start k - start) \<le> int k * (4 * clientTimeout)"
proof (induction k)
  case (Suc k)
  let ?s = "start_of date (start + slackSendTimeout) xs start k"
  have s: "start \<le> ?s" "3 * (?s - start) \<le> int k * (4 * clientTimeout)" "k \<le> 1" using Suc by simp_all
  have x: "0 \<le> ex_takes (xs (Suc k))" "3 * ex_takes (xs (Suc k)) < clientTimeout" using assms by blast+
  have "int k * (4 * clientTimeout) \<le> 4 * clientTimeout" using s(3) by (simp add: clientTimeout_def)
  then have a: "attempt_at (start + slackSendTimeout) ?s (xs (Suc k)) = (ex_answer (xs (Suc k)), ?s + ex_takes (xs (Suc k)))"
    using s x by (simp add: attempt_at_def slackSendTimeout_def clientTimeout_def Let_def)
  have w: "0 < retry_wait (Suc k) ra" "retry_wait (Suc k) ra \<le> clientTimeout" for ra
    using retry_wait_bounds [of "Suc k" ra] by (simp_all add: maxRetryWait_def clientTimeout_def)
  have "0 \<le> clientTimeout" by (simp add: clientTimeout_def)
  then have "start_of date (start + slackSendTimeout) xs start (Suc k) - ?s - ex_takes (xs (Suc k)) \<in> {0..clientTimeout}"
    using w by (auto simp: a Let_def less_imp_le split: option.split send_error.split)
  then show ?case using s x by (simp add: algebra_simps)
qed simp

lemma timed_env_prompt:
  assumes "\<And>k. 0 \<le> ex_takes (xs k) \<and> 3 * ex_takes (xs k) < clientTimeout" "k \<in> {1, 2, 3}"
  shows "fst (timed_env date (start + slackSendTimeout) xs start k) = ex_answer (xs k)"
    and "k \<noteq> 3 \<Longrightarrow> snd (timed_env date (start + slackSendTimeout) xs start k)"
proof -
  let ?s = "start_of date (start + slackSendTimeout) xs start"
  have k: "k - 1 \<le> 2" using assms(2) by auto
  note p = start_of_prompt [where xs = xs and start = start and date = date, OF assms(1)]
  have "3 * (?s (k - 1) - start) \<le> 2 * (4 * clientTimeout)"
  proof -
    have "int (k - 1) * (4 * clientTimeout) \<le> 2 * (4 * clientTimeout)"
      using k by (intro mult_right_mono) (auto simp: clientTimeout_def)
    then show ?thesis using p [OF k] by linarith
  qed
  then show "fst (timed_env date (start + slackSendTimeout) xs start k) = ex_answer (xs k)"
    using p [OF k] assms(1) [of k]
    by (simp add: timed_env_def attempt_at_def slackSendTimeout_def clientTimeout_def Let_def)
  assume "k \<noteq> 3"
  then have "k \<le> 2" using assms(2) by auto
  moreover have "int k * (4 * clientTimeout) \<le> 2 * (4 * clientTimeout)"
    using calculation by (intro mult_right_mono) (auto simp: clientTimeout_def)
  ultimately have "3 * (?s k - start) \<le> 2 * (4 * clientTimeout)" using p [of k] by linarith
  then show "snd (timed_env date (start + slackSendTimeout) xs start k)"
    by (simp add: timed_env_def slackSendTimeout_def clientTimeout_def)
qed

text \<open>C25. Thirty seconds are enough where the hook answers promptly: if every answer takes less than a third of
  ten seconds, no timeout and no deadline interferes, and the message counts as sent exactly where one of the three
  attempts is answered with a status below 300 and every attempt before it with 429 or 5xx, whatever their
  \<open>Retry-After\<close> headers ask for.\<close>

theorem slack_sent_in_time:
  assumes "\<And>k. 0 \<le> ex_takes (xs k) \<and> 3 * ex_takes (xs k) < clientTimeout"
  shows "snd (timed_send date xs start) = Sent_ok \<longleftrightarrow>
    (\<exists>k \<in> {1, 2, 3}. accepted (ex_answer (xs k)) \<and> (\<forall>j \<in> {1..<k}. retryable (ex_answer (xs j))))"
proof -
  let ?e = "timed_env date (start + slackSendTimeout) xs start"
  note e = timed_env_prompt [where xs = xs and start = start and date = date, OF assms]
  have r: "(\<forall>j \<in> {1..<k}. retryable (fst (?e j)) \<and> snd (?e j)) \<longleftrightarrow> (\<forall>j \<in> {1..<k}. retryable (ex_answer (xs j)))"
    if k: "k \<in> {1, 2, 3}" for k
  proof (rule ball_cong [OF refl])
    fix j assume "j \<in> {1..<k}"
    then have "j = 1 \<or> j = 2" using k by auto
    then show "retryable (fst (?e j)) \<and> snd (?e j) \<longleftrightarrow> retryable (ex_answer (xs j))" using e(1) [of j] e(2) [of j] by auto
  qed
  show ?thesis
    unfolding timed_is_send slack_sent_iff by (intro bex_cong refl) (simp only: e(1) r)
qed

lemma slack_sent_in_time_witness:
  "snd (timed_send (\<lambda>_. None) (\<lambda>k. \<lparr>ex_takes = 3000000000, ex_answer = if k = 3 then Response 200 [] else Response 429 ''3600''\<rparr>) 0) = Sent_ok"
  by (rule slack_sent_in_time [THEN iffD2]) (auto simp: clientTimeout_def accepted_def retryable_def)

text \<open>The bound is sharp: with 3.4 seconds each, the third answer comes too late.  And a hook
  that takes ten seconds once is not asked again.\<close>

lemma slack_too_late:
  "timed_send (\<lambda>_. None) (\<lambda>k. \<lparr>ex_takes = 3400000000, ex_answer = if k = 3 then Response 200 [] else Response 429 ''3600''\<rparr>) 0
    = (30 * 1000000000, Gave_up 3 Not_retryable)"
  "timed_send (\<lambda>_. None) (\<lambda>k. \<lparr>ex_takes = if k = 1 then 10 * 1000000000 else 0, ex_answer = Response 200 []\<rparr>) 0
    = (10 * 1000000000, Gave_up 1 Not_retryable)"
  by code_simp+

end
