(* ===== verification/Eewview_Text.thy ===== *)
theory Eewview_Text
  imports Eewmsg "HOL-Library.Multiset"
begin

text \<open>
  \<open>internal/eewview/summary.go\<close>, \<open>html.go\<close>, \<open>config.go\<close> and the parts of \<open>detail.go\<close> and \<open>sjis.go\<close> that make
  text: summaries, escaping, the fields and the area rows of the detail page, the marking of control
  bytes.  Values of type \<open>template.HTML\<close> are strings of HTML.
\<close>


section \<open>Summaries\<close>

fun view_split_pairs :: "string \<Rightarrow> string list" where
  "view_split_pairs (a # b # s) = [a, b] # view_split_pairs s"
| "view_split_pairs _ = []"

definition view_at :: "string list \<Rightarrow> nat \<Rightarrow> string" where
  "view_at parts i = (if i < length parts then parts ! i else [])"

definition time_only :: "string \<Rightarrow> string" where
  "time_only raw = (let p = view_split_pairs raw in view_at p 3 @ '':'' @ view_at p 4 @ '':'' @ view_at p 5)"

definition full_date_time :: "string \<Rightarrow> string" where
  "full_date_time raw =
     (let p = view_split_pairs raw
      in ''20'' @ view_at p 0 @ ''/'' @ view_at p 1 @ ''/'' @ view_at p 2 @ '' '' @ view_at p 3 @ '':''
         @ view_at p 4 @ '':'' @ view_at p 5)"

definition is_final_for_viewer :: "telegram \<Rightarrow> bool" where
  "is_final_for_viewer t \<longleftrightarrow> 8 \<le> ncn_type t"

definition final_mark :: string where
  "final_mark = ''('' @ utf8 [0x6700, 0x7D42] @ '')''"

definition center_text :: "telegram \<Rightarrow> string" where
  "center_text t = utf8 [0x9707, 0x592E] @ '':N'' @ fmt_1f (center_lat t) @ ''/E'' @ fmt_1f (center_lng t)
     @ ''('' @ center_name t @ '')'' @ utf8 [0x6DF1, 0x3055] @ itoa (center_depth t) @ ''km''"

definition magnitude_text :: "telegram \<Rightarrow> string" where
  "magnitude_text t = '' '' @ utf8 [0x6700, 0x5927] @ '':M'' @ fmt_1f (magnitude t) @ '' ''
     @ utf8 [0x9707, 0x5EA6] @ shindo t"

definition list_summary_text :: "telegram \<Rightarrow> string" where
  "list_summary_text t =
     (let suffix = (if is_final_for_viewer t then final_mark else utf8 [0x3000, 0x3000, 0x3000, 0x3000]);
          times = utf8 [0x7B2C] @ fmt_0d 2 (warn_num t) @ utf8 [0x5831] @ suffix;
          head = time_only (warn_time t) @ times @ '' ('' @ time_only (eq_time t) @ utf8 [0x767A, 0x751F] @ '')'';
          msg = (if is_cancellation t then head @ '' '' @ utf8 [0x53D6, 0x308A, 0x6D88, 0x3057]
                 else head @ center_text t @ magnitude_text t)
      in if 0 < length (ebi t)
         then msg @ '' ('' @ utf8 [0x5730, 0x57DF, 0x4E88, 0x60F3, 0x9707, 0x5EA6, 0x60C5, 0x5831, 0x3042, 0x308A] @ '')''
         else msg)"

definition detail_summary_text :: "telegram \<Rightarrow> string" where
  "detail_summary_text t =
     (let times = '' '' @ utf8 [0x7B2C] @ itoa (warn_num t) @ utf8 [0x5831]
            @ (if is_final_for_viewer t then final_mark else []);
          warn_full = full_date_time (warn_time t);
          eq_full = full_date_time (eq_time t);
          head = warn_full @ times @ '' ('' @ eq_full @ utf8 [0x767A, 0x751F] @ '')''
      in if is_cancellation t then head @ '' '' @ utf8 [0x53D6, 0x308A, 0x6D88, 0x3057]
         else head @ center_text t @ magnitude_text t)"


section \<open>HTML\<close>

text \<open>\<open>template.HTMLEscapeString\<close>.\<close>

definition escape_char :: "char \<Rightarrow> string" where
  "escape_char c =
     (if c = CHR 0x22 then ''&#34;''
      else if c = CHR 0x27 then ''&#39;''
      else if c = CHR ''&'' then ''&amp;''
      else if c = CHR ''<'' then ''&lt;''
      else if c = CHR ''>'' then ''&gt;''
      else if c = CHR 0x00 then utf8 [0xFFFD]
      else [c])"

definition escaped :: "string \<Rightarrow> string" where
  "escaped s = concat (map escape_char s)"

definition link :: "string \<Rightarrow> string \<Rightarrow> string" where
  "link href lbl = ''<a href='' @ [CHR 0x22] @ escaped href @ [CHR 0x22] @ ''>'' @ escaped lbl @ ''</a>''"


section \<open>The detail page\<close>

definition acc_suffix :: "string \<Rightarrow> string" where
  "acc_suffix lbl = (if lbl = [] then [] else ''('' @ lbl @ '')'')"

definition warn_num_label :: "telegram \<Rightarrow> string" where
  "warn_num_label t = utf8 [0x7B2C] @ itoa (warn_num t) @ utf8 [0x5831]
     @ (if is_final_for_viewer t then final_mark else [])"

definition build_fields :: "telegram \<Rightarrow> (string \<times> string) list" where
  "build_fields t =
     (let fields =
        [(utf8 [0x5730, 0x9707] @ ''ID'', escaped (eq_id t)),
         (utf8 [0x901A, 0x77E5, 0x7A2E, 0x985E], escaped (msg_type t)),
         (utf8 [0x901A, 0x77E5, 0x5185, 0x5BB9], escaped (code_type t)),
         (utf8 [0x901A, 0x77E5, 0x5BFE, 0x8C61], escaped (warn_type t)),
         (utf8 [0x5831, 0x6570], escaped (warn_num_label t)),
         (utf8 [0x767A, 0x4FE1, 0x5B98, 0x7F72], escaped (section_text t)),
         (utf8 [0x691C, 0x77E5, 0x65E5, 0x6642], escaped (full_date_time (eq_time t))),
         (utf8 [0x901A, 0x77E5, 0x65E5, 0x6642], escaped (full_date_time (warn_time t)))]
      in if is_cancellation t \<or> center_code t = [] then fields
         else
           let uri = ''https://maps.google.com/maps?q='' @ fmt_1f (center_lat t) @ '','' @ fmt_1f (center_lng t);
               center_label = ''N'' @ fmt_1f (center_lat t) @ '' E'' @ fmt_1f (center_lng t);
               loc = link uri center_label
                 @ escaped (''('' @ center_name t @ '')'' @ acc_suffix (center_accurate t))
           in fields @
             [(utf8 [0x9707, 0x592E, 0x4F4D, 0x7F6E], loc),
              (utf8 [0x9707, 0x6E90, 0x6DF1, 0x5EA6],
                 escaped (itoa (center_depth t) @ ''km'' @ acc_suffix (depth_accurate t))),
              (utf8 [0x30DE, 0x30B0, 0x30CB, 0x30C1, 0x30E5, 0x30FC, 0x30C9],
                 escaped (''M'' @ fmt_1f (magnitude t) @ acc_suffix (magnitude_accurate t))),
              (utf8 [0x6700, 0x5927, 0x9707, 0x5EA6], escaped (shindo t))])"

record ebi_row =
  row_name :: string
  row_shindo :: string
  row_time :: string

definition ebi_row_of :: "ebi_entry \<Rightarrow> ebi_row" where
  "ebi_row_of e =
     (let s = utf8 [0x9707, 0x5EA6] @ eshindo1 e;
          s' = (if eshindo2_code e = ''//'' then s @ utf8 [0x4EE5, 0x4E0A]
                else if eshindo1 e \<noteq> eshindo2 e then s @ utf8 [0xFF5E, 0x9707, 0x5EA6] @ eshindo2 e
                else s);
          arrival =
            (if etime e = ''//////'' then utf8 [0x65E2, 0x306B, 0x5230, 0x9054]
             else let p = view_split_pairs (etime e)
                  in if 3 \<le> length p then p ! 0 @ '':'' @ p ! 1 @ '':'' @ p ! 2 else etime e)
      in \<lparr>row_name = ename e, row_shindo = s', row_time = arrival\<rparr>)"

definition zero_ebi :: ebi_entry where
  "zero_ebi = \<lparr>ename = [], eshindo1 = [], eshindo1_code = [], eshindo2 = [], eshindo2_code = [], etime = [],
     eis_warnded = [], eis_warnded_code = [], earrive = [], earrive_code = []\<rparr>"

text \<open>The keys as the \<open>range\<close> loop visits them, sorted.\<close>

definition build_ebi_rows :: "(string \<times> ebi_entry) list \<Rightarrow> ebi_row list" where
  "build_ebi_rows m =
     (if length m = 0 then []
      else map (\<lambda>area. ebi_row_of (case map_of m area of None \<Rightarrow> zero_ebi | Some e \<Rightarrow> e)) (sort (map fst m)))"

definition mark_control_chars :: "string \<Rightarrow> string" where
  "mark_control_chars s = concat (map (\<lambda>c.
     if c = CHR 0x01 then ''[SOH]'' @ [nl] else if c = CHR 0x02 then ''[STX]'' @ [nl]
     else if c = CHR 0x03 then ''[ETX]'' @ [nl] else [c]) s)"


section \<open>Configuration\<close>

record view_config =
  data_dir :: string
  path_base :: string
  viewer_path :: string
  listen_addr :: string

text \<open>\<open>getenv\<close> gives the empty string for a variable that is not set.\<close>

definition env_or :: "(string \<Rightarrow> string) \<Rightarrow> string \<Rightarrow> string \<Rightarrow> string" where
  "env_or getenv key def = (if getenv key \<noteq> [] then getenv key else def)"

definition load_config_from_env :: "(string \<Rightarrow> string) \<Rightarrow> view_config" where
  "load_config_from_env getenv = \<lparr>data_dir = env_or getenv ''EEW_DATA_DIR'' ''./eewlog/'',
     path_base = env_or getenv ''EEW_PATH_BASE'' ''./'', viewer_path = env_or getenv ''EEW_VIEWER'' ''eew-show'',
     listen_addr = env_or getenv ''EEW_LISTEN_ADDR'' '':8080''\<rparr>"

lemma load_config_neq_Nil:
  "data_dir (load_config_from_env g) \<noteq> []" "path_base (load_config_from_env g) \<noteq> []"
  "viewer_path (load_config_from_env g) \<noteq> []" "listen_addr (load_config_from_env g) \<noteq> []"
  by (simp_all add: load_config_from_env_def env_or_def)


section \<open>Properties\<close>

lemma view_split_pairs_eq: "view_split_pairs s = split_pairs s"
  by (induction s rule: view_split_pairs.induct) auto

lemma full_date_time_stamp: "full_date_time raw = stamp (split_pairs raw)"
  by (simp add: full_date_time_def stamp_def view_at_def at_def view_split_pairs_eq Let_def)

text \<open>The archive viewer and the notifier agree on a telegram's times and report number, and differ on
  "final" only where they mean to: the viewer's detail summary starts with the notifier's text up to
  the report number, marks as final only what the notifier marks, and leaves out the mark exactly for
  the corrections, report kinds 1 to 7.\<close>

lemma viewer_agrees_with_notifier:
  "let t = decode raw; head = stamp (split_pairs (warn_time t)) @ '' '' @ utf8 [0x7B2C] @ itoa (warn_num t) @ utf8 [0x5831]
   in prefix head (fst (format t)) \<and> prefix head (detail_summary_text t)
      \<and> (is_final_for_viewer t \<longleftrightarrow> is_final t \<and> \<not> (1 \<le> ncn_type t \<and> ncn_type t \<le> 7))"
  by (auto simp: format_def format_times_def detail_summary_text_def full_date_time_stamp
      is_final_for_viewer_def is_final_def Let_def prefix_def)

text \<open>Escaping is a code without common prefixes, so it can be undone.\<close>

lemma escape_char_neq_Nil [simp]: "escape_char c \<noteq> []"
  by (simp add: escape_char_def utf8_def utf8_rune_def)

lemma escape_char_prefix_free:
  assumes "c \<noteq> CHR 0x00" "d \<noteq> CHR 0x00" "escape_char c @ u = escape_char d @ v"
  shows "c = d \<and> u = v"
proof -
  have k: "escape_char c = ''&#34;'' \<and> c = CHR 0x22 \<or> escape_char c = ''&#39;'' \<and> c = CHR 0x27
      \<or> escape_char c = ''&amp;'' \<and> c = CHR ''&'' \<or> escape_char c = ''&lt;'' \<and> c = CHR ''<''
      \<or> escape_char c = ''&gt;'' \<and> c = CHR ''>'' \<or> escape_char c = [c] \<and> c \<noteq> CHR ''&''"
    if "c \<noteq> CHR 0x00" for c
    using that by (simp add: escape_char_def)
  from k [OF assms(1)] k [OF assms(2)] assms(3) show ?thesis
    by (elim disjE conjE) simp_all
qed

lemma escaped_inject:
  "CHR 0x00 \<notin> set s \<Longrightarrow> CHR 0x00 \<notin> set t \<Longrightarrow> escaped s = escaped t \<Longrightarrow> s = t"
proof (induction s arbitrary: t)
  case Nil
  show ?case
  proof (cases t)
    case (Cons d u)
    then have "escape_char d @ escaped u = []" using Nil(3) by (simp add: escaped_def)
    then show ?thesis by simp
  qed simp
next
  case (Cons c s)
  have "t \<noteq> []" using Cons.prems(3) by (metis append_is_Nil_conv concat.simps escape_char_neq_Nil escaped_def list.map)
  then obtain d u where t: "t = d # u" by (cases t) simp
  have "escape_char c @ escaped s = escape_char d @ escaped u" using Cons.prems(3) t by (simp add: escaped_def)
  then have "c = d \<and> escaped s = escaped u"
    using Cons.prems(1,2) t by (intro escape_char_prefix_free) (metis list.set_intros(1))+
  moreover from this have "s = u"
    using Cons.prems(1,2) t by (intro Cons.IH) (metis list.set_intros(2), metis list.set_intros(2), simp)
  ultimately show ?case using t by simp
qed

definition inert_byte :: "char \<Rightarrow> bool" where
  "inert_byte c \<longleftrightarrow> c \<noteq> CHR ''<'' \<and> c \<noteq> CHR ''>'' \<and> c \<noteq> CHR 0x22 \<and> c \<noteq> CHR 0x27 \<and> c \<noteq> CHR 0x00"

lemma escape_char_inert: "list_all inert_byte (escape_char c)"
  by (simp add: escape_char_def utf8_def utf8_rune_def inert_byte_def char_of_def)

lemma escaped_inert: "list_all inert_byte (escaped s)"
  by (induction s) (simp_all add: escaped_def escape_char_inert)

lemma escaped_bytes: "c \<in> set (escaped s) \<Longrightarrow> inert_byte c"
  using escaped_inert by (metis list_all_iff)

text \<open>C37. No text can break out of its place in a page: an escaped text holds no angle bracket, no quote and
  no NUL byte whatever it is made of, and different texts (without NUL bytes) stay different, so nothing
  is lost; a link built from any address and any label has exactly the two tags of its own and its
  address attribute ends where it should.\<close>

theorem html_no_breakout:
  "set (escaped s) \<inter> {CHR ''<'', CHR ''>'', CHR 0x22, CHR 0x27, CHR 0x00} = {}
   \<and> filter (\<lambda>c. c = CHR ''<'' \<or> c = CHR ''>'' \<or> c = CHR 0x22) (link href lbl) = [CHR ''<'', CHR 0x22, CHR 0x22, CHR ''>'', CHR ''<'', CHR ''>'']
   \<and> (CHR 0x00 \<notin> set s \<longrightarrow> CHR 0x00 \<notin> set t \<longrightarrow> (escaped s = escaped t) = (s = t))"
proof (intro conjI impI)
  show "set (escaped s) \<inter> {CHR ''<'', CHR ''>'', CHR 0x22, CHR 0x27, CHR 0x00} = {}"
    using escaped_bytes [of _ s] by (auto simp: inert_byte_def)
  have "filter (\<lambda>c. c = CHR ''<'' \<or> c = CHR ''>'' \<or> c = CHR 0x22) (escaped x) = []" for x
    using escaped_bytes [of _ x] by (auto simp: filter_empty_conv inert_byte_def)
  then show "filter (\<lambda>c. c = CHR ''<'' \<or> c = CHR ''>'' \<or> c = CHR 0x22) (link href lbl) = [CHR ''<'', CHR 0x22, CHR 0x22, CHR ''>'', CHR ''<'', CHR ''>'']"
    by (simp add: link_def)
qed (auto dest: escaped_inject)

lemma html_no_breakout_witness:
  "CHR 0x00 \<notin> set ''a<b'' \<and> (escaped ''a<b'' = escaped ''a>b'') = (''a<b'' = ''a>b'')"
  using html_no_breakout [of "''a<b''" "[]" "[]" "''a>b''"] by simp

text \<open>The area table does not depend on the order in which Go iterates the map: for maps with the same
  entries, listed in whatever order, the rows are the same, one for each area, in the order of the area
  codes.\<close>

lemma ebi_rows_deterministic:
  assumes "distinct (map fst m)" "mset m' = mset m"
  shows "build_ebi_rows m' = build_ebi_rows m \<and> length (build_ebi_rows m) = length m"
proof -
  have keys: "mset (map fst m') = mset (map fst m)" using assms(2) by simp
  then have d: "distinct (map fst m')" using assms(1) by (metis mset_eq_imp_distinct_iff)
  have "map_of m' = map_of m"
    using map_of_inject_set [OF d assms(1)] mset_eq_setD [OF assms(2)] by (rule iffD2)
  moreover have "sort (map fst m') = sort (map fst m)"
    using keys by (metis sorted_list_of_multiset_mset)
  moreover have "length m' = length m" using assms(2) by (metis size_mset)
  ultimately show ?thesis by (simp add: build_ebi_rows_def)
qed

lemma ebi_rows_example:
  "let a = (''212'', zero_ebi\<lparr>ename := ''A''\<rparr>); b = (''010'', zero_ebi\<lparr>ename := ''B''\<rparr>)
   in build_ebi_rows [b, a] = build_ebi_rows [a, b] \<and> length (build_ebi_rows [a, b]) = 2"
  using ebi_rows_deterministic [of "[(''212'', zero_ebi\<lparr>ename := ''A''\<rparr>), (''010'', zero_ebi\<lparr>ename := ''B''\<rparr>)]"
      "[(''010'', zero_ebi\<lparr>ename := ''B''\<rparr>), (''212'', zero_ebi\<lparr>ename := ''A''\<rparr>)]"]
  by (simp add: Let_def add_mset_commute)

end
