(* ===== verification/Eewview_Server.thy ===== *)
theory Eewview_Server
  imports Eewview_Text Eewlog "HOL-Library.Product_Lexorder"
begin

text \<open>
  \<open>internal/eewview/list.go\<close> and the handler of \<open>detail.go\<close>: what a request reads and what page it gets.  The
  archive is seen through three functions: which directories exist, what a directory lists, what a file
  holds.  The template engine and the Shift-JIS decoder are not part of the model: a page is the data
  handed to its template, and the decoder is the parameter \<open>sjis\<close>.
\<close>


section \<open>Query values and names\<close>

definition saturate :: "string \<Rightarrow> int \<Rightarrow> int \<Rightarrow> int" where
  "saturate raw mn mx =
     (if raw = [] then 0
      else let v = (case atoi raw of None \<Rightarrow> 0 | Some v \<Rightarrow> v)
           in if v > mx then mx else if v < mn then mn else v)"

definition eewFileNameRE :: rx where
  "eewFileNameRE = rseq [Bol, Grp (Rep is_digit 1 None True), Lit ''.'', Grp (Rep is_digit 1 None True), Eol]"

definition detailNameRE :: rx where
  "detailNameRE = rseq [Bol, exactly 14 is_digit, Lit ''.'', Rep is_digit 1 (Some 4) True, Eol]"

definition split_eew_name :: "string \<Rightarrow> (string \<times> int) option" where
  "split_eew_name name =
     (case submatch eewFileNameRE name of
        None \<Rightarrow> None
      | Some m \<Rightarrow> (case atoi (m ! 1) of None \<Rightarrow> None | Some n \<Rightarrow> Some (m ! 0, n)))"

definition less_eew_file :: "string \<Rightarrow> string \<Rightarrow> bool" where
  "less_eew_file a b =
     (case (split_eew_name a, split_eew_name b) of
        (Some (a_id, a_num), Some (b_id, b_num)) \<Rightarrow> if a_id = b_id then a_num < b_num else a < b
      | _ \<Rightarrow> a < b)"

text \<open>\<open>sort.Slice\<close> sorts by a comparison, equal names in some order; here in the order they came in.\<close>

fun insert_by :: "('a \<Rightarrow> 'a \<Rightarrow> bool) \<Rightarrow> 'a \<Rightarrow> 'a list \<Rightarrow> 'a list" where
  "insert_by lt x [] = [x]"
| "insert_by lt x (y # ys) = (if lt y x then y # insert_by lt x ys else x # y # ys)"

definition sort_by :: "('a \<Rightarrow> 'a \<Rightarrow> bool) \<Rightarrow> 'a list \<Rightarrow> 'a list" where
  "sort_by lt xs = foldr (insert_by lt) xs []"


section \<open>The archive as the viewer sees it\<close>

record archive =
  dir_exists :: "string \<Rightarrow> bool"
  dir_list :: "string \<Rightarrow> (string \<times> bool) list option"  \<comment> \<open>names, and whether they are directories\<close>
  file_read :: "string \<Rightarrow> bytes option"

definition numeric_subdirs :: "archive \<Rightarrow> string \<Rightarrow> string list" where
  "numeric_subdirs fs d =
     (case dir_list fs d of
        None \<Rightarrow> []
      | Some es \<Rightarrow> sort (map fst (filter (\<lambda>(n, is_dir). is_dir \<and> n \<noteq> [] \<and> is_digit (hd n)) es)))"

section \<open>The list page\<close>

datatype response = List_page "string list" | Internal_error

definition year_dir :: "view_config \<Rightarrow> int \<Rightarrow> string" where
  "year_dir cfg y = join_path [data_dir cfg, itoa y]"

definition month_dir :: "view_config \<Rightarrow> int \<Rightarrow> int \<Rightarrow> string" where
  "month_dir cfg y m = join_path [data_dir cfg, fmt_0d 4 y, fmt_0d 2 m]"

definition day_dir :: "view_config \<Rightarrow> int \<Rightarrow> int \<Rightarrow> int \<Rightarrow> string" where
  "day_dir cfg y m d = join_path [data_dir cfg, fmt_0d 4 y, fmt_0d 2 m, fmt_0d 2 d]"

definition year_link :: "view_config \<Rightarrow> int \<Rightarrow> string" where
  "year_link cfg y = link (path_base cfg @ ''?year='' @ itoa y) (itoa y @ utf8 [0x5E74])"

definition month_link :: "view_config \<Rightarrow> int \<Rightarrow> int \<Rightarrow> string" where
  "month_link cfg y m = link (path_base cfg @ ''?year='' @ itoa y @ ''&month='' @ itoa m) (itoa m @ utf8 [0x6708])"

definition day_link :: "view_config \<Rightarrow> int \<Rightarrow> int \<Rightarrow> int \<Rightarrow> string" where
  "day_link cfg y m d =
     link (path_base cfg @ ''?year='' @ itoa y @ ''&month='' @ itoa m @ ''&day='' @ itoa d) (itoa d @ utf8 [0x65E5])"

definition day_title :: "int \<Rightarrow> int \<Rightarrow> int \<Rightarrow> string" where
  "day_title y m d = itoa y @ utf8 [0x5E74] @ itoa m @ utf8 [0x6708] @ itoa d @ utf8 [0x65E5]"

text \<open>Names that are no numbers (or too big for an \<open>int\<close>) are skipped.\<close>

definition numbers :: "string list \<Rightarrow> int list" where
  "numbers ns = List.map_filter atoi ns"

definition file_row :: "view_config \<Rightarrow> string \<Rightarrow> string \<Rightarrow> bytes \<Rightarrow> string" where
  "file_row cfg pre name body =
     escaped pre @ '' '' @ link (path_base cfg @ viewer_path cfg @ ''?name='' @ name) (utf8 [0x25A0]) @ '' ''
       @ escaped (list_summary_text (decode body))"

definition list_handler :: "view_config \<Rightarrow> archive \<Rightarrow> string \<Rightarrow> string \<Rightarrow> string \<Rightarrow> response" where
  "list_handler cfg fs qyear qmonth qday =
     (let year = saturate qyear 2000 3000; month = saturate qmonth 1 12; day = saturate qday 1 31
      in if \<not> dir_exists fs (year_dir cfg year) then
           List_page (map (year_link cfg) (numbers (numeric_subdirs fs (data_dir cfg))))
         else if \<not> dir_exists fs (month_dir cfg year month) then
           List_page (map (\<lambda>m. year_link cfg year @ month_link cfg year m)
             (numbers (numeric_subdirs fs (year_dir cfg year))))
         else if \<not> dir_exists fs (day_dir cfg year month day) then
           List_page (map (\<lambda>d. year_link cfg year @ month_link cfg year month @ day_link cfg year month d)
             (numbers (numeric_subdirs fs (month_dir cfg year month))))
         else
           (case dir_list fs (day_dir cfg year month day) of
              None \<Rightarrow> Internal_error
            | Some es \<Rightarrow>
                let pre = day_title year month day;
                    names = filter (\<lambda>n. split_eew_name n \<noteq> None)
                      (map fst (filter (\<lambda>(n, is_dir). \<not> is_dir) es))
                in List_page (List.map_filter (\<lambda>name.
                     map_option (file_row cfg pre name)
                       (file_read fs (join_path [day_dir cfg year month day, name])))
                     (sort_by less_eew_file names))))"


section \<open>The detail page\<close>

record detail_page =
  dp_title :: string
  dp_path_base :: string
  dp_back :: string
  dp_summary :: string
  dp_fields :: "(string \<times> string) list"
  dp_ebi :: "ebi_row list"
  dp_map :: "(int \<times> int) option"
  dp_raw :: string

datatype detail_response = Bad_name | Not_found | Detail detail_page

text \<open>\<open>filepath.Abs\<close> with the working directory \<open>cwd\<close>.\<close>

definition abs_path :: "string \<Rightarrow> string \<Rightarrow> string" where
  "abs_path cwd p = (if is_rooted p then clean_path p else join_path [cwd, p])"

definition telegram_path :: "string \<Rightarrow> string \<Rightarrow> string \<Rightarrow> string option" where
  "telegram_path cwd dir name =
     (if length name < 8 then None
      else let full = join_path [dir, take 4 name, take 2 (drop 4 name), take 2 (drop 6 name), name];
               base = abs_path cwd dir; resolved = abs_path cwd full
           in if prefix base resolved then Some full else None)"

definition detail_handler :: "(bytes \<Rightarrow> string) \<Rightarrow> string \<Rightarrow> view_config \<Rightarrow> archive \<Rightarrow> string \<Rightarrow> detail_response" where
  "detail_handler sjis cwd cfg fs name =
     (if \<not> matches detailNameRE name then Bad_name
      else case telegram_path cwd (data_dir cfg) name of
        None \<Rightarrow> Bad_name
      | Some path \<Rightarrow>
          (case file_read fs path of
             None \<Rightarrow> Not_found
           | Some raw \<Rightarrow>
               let t = decode raw
               in Detail \<lparr>dp_title = detail_summary_text t, dp_path_base = escaped (path_base cfg),
                    dp_back = path_base cfg @ ''?year='' @ take 4 name @ ''&month='' @ take 2 (drop 4 name)
                      @ ''&day='' @ take 2 (drop 6 name),
                    dp_summary = detail_summary_text t,
                    dp_fields = build_fields t, dp_ebi = build_ebi_rows (ebi t),
                    dp_map = (if \<not> is_cancellation t \<and> center_code t \<noteq> []
                      then Some (center_lat t, center_lng t) else None),
                    dp_raw = mark_control_chars (sjis raw)\<rparr>))"

text \<open>\<open>NewServer\<close>: which handler a path takes, for a viewer path without blanks and braces (which
  \<open>ServeMux\<close> reads as more than a path) and request paths that are clean (others are redirected to
  their clean form first).  The exact path of the viewer, or every path below it where it ends in a
  slash, goes to the detail handler, every other path to the list handler.  Registering the same
  pattern twice panics: \<open>None\<close>.\<close>

datatype route = To_detail | To_list

definition viewer_route :: "view_config \<Rightarrow> string" where
  "viewer_route cfg = slash #
     (if prefix ''/'' (viewer_path cfg) then drop 1 (viewer_path cfg) else viewer_path cfg)"

definition new_server :: "view_config \<Rightarrow> (string \<Rightarrow> route) option" where
  "new_server cfg =
     (let r = viewer_route cfg
      in if r = ''/'' then None
         else Some (\<lambda>path. if path = r \<or> (suffix ''/'' r \<and> prefix r path) then To_detail else To_list))"

lemma new_server_routes:
  "map_option (\<lambda>s. (s ''/eew-show'', s ''/'', s ''/eew-show2'')) (new_server (load_config_from_env (\<lambda>_. []))) =
     Some (To_detail, To_list, To_list)"
  "new_server (load_config_from_env ((\<lambda>_. [])(''EEW_VIEWER'' := ''/''))) = None"
  by (simp_all add: new_server_def viewer_route_def load_config_from_env_def env_or_def Let_def suffix_def)


section \<open>Names\<close>

text \<open>What a match of these two patterns says.\<close>

lemma rmatch_Rep_inv:
  "(cs, j, t) \<in> set (rmatch (Rep p lo hi g) i s) \<Longrightarrow>
     \<exists>w. s = w @ t \<and> list_all p w \<and> lo \<le> length w \<and> (case hi of None \<Rightarrow> True | Some h \<Rightarrow> length w \<le> h)
       \<and> cs = [] \<and> j = i + length w"
proof -
  assume "(cs, j, t) \<in> set (rmatch (Rep p lo hi g) i s)"
  then obtain k where k: "k \<in> set (rep_counts p lo hi g s)" "cs = []" "j = i + k" "t = drop k s" by auto
  then show ?thesis
    using rep_counts_take [OF k(1)] by (intro exI [of _ "take k s"]) (auto simp: min_absorb2 split: option.splits)
qed

lemma rmatch_Lit_inv: "(cs, j, t) \<in> set (rmatch (Lit w) i s) \<Longrightarrow> s = w @ t \<and> cs = [] \<and> j = i + length w"
  by (auto simp: prefix_def split: if_splits)

lemma rmatch_Grp_inv:
  "(cs, j, t) \<in> set (rmatch (Grp (Rep p lo hi g)) i s) \<Longrightarrow>
     \<exists>w. s = w @ t \<and> list_all p w \<and> lo \<le> length w \<and> (case hi of None \<Rightarrow> True | Some h \<Rightarrow> length w \<le> h)
       \<and> cs = [w] \<and> j = i + length w"
proof -
  assume "(cs, j, t) \<in> set (rmatch (Grp (Rep p lo hi g)) i s)"
  then obtain ds where d: "(ds, j, t) \<in> set (rmatch (Rep p lo hi g) i s)" and cs: "cs = take (j - i) s # ds"
    by auto
  from rmatch_Rep_inv [OF d] obtain w where w: "s = w @ t" "list_all p w" "lo \<le> length w"
    "case hi of None \<Rightarrow> True | Some h \<Rightarrow> length w \<le> h" "j = i + length w" "ds = []" by blast
  with cs have "cs = [w]" by simp
  with w show ?thesis by blast
qed

lemma rmatch_Seq_inv:
  "(cs, j, t) \<in> set (rmatch (Seq a b) i s) \<Longrightarrow>
     \<exists>ds k u es. (ds, k, u) \<in> set (rmatch a i s) \<and> (es, j, t) \<in> set (rmatch b k u) \<and> cs = ds @ es"
  by auto

lemma rmatch_Eol_inv: "(cs, j, t) \<in> set (rmatch Eol i s) \<Longrightarrow> s = [] \<and> t = [] \<and> cs = []"
  by (auto split: if_splits)

lemma submatch_Bol_inv: "submatch (Seq Bol r) s = Some m \<Longrightarrow> \<exists>j t. (m, j, t) \<in> set (rmatch r 0 s)"
proof -
  assume "submatch (Seq Bol r) s = Some m"
  then obtain x xs where x: "rmatch r 0 s = x # xs" "m = fst x" by (auto simp: submatch_Bol split: list.splits)
  then have "(m, fst (snd x), snd (snd x)) \<in> set (rmatch r 0 s)" by simp
  then show ?thesis by blast
qed

lemma submatch_name_inv:
  assumes "submatch eewFileNameRE s = Some m"
  shows "\<exists>a b. s = a @ ''.'' @ b \<and> list_all is_digit a \<and> list_all is_digit b \<and> a \<noteq> [] \<and> b \<noteq> [] \<and> m = [a, b]"
proof -
  let ?r = "Seq (Grp (Rep is_digit 1 None True)) (Seq (Lit ''.'') (Seq (Grp (Rep is_digit 1 None True)) Eol))"
  obtain j t where m: "(m, j, t) \<in> set (rmatch ?r 0 s)"
    using submatch_Bol_inv [of ?r s m] assms unfolding eewFileNameRE_def rseq.simps by blast
  from rmatch_Seq_inv [OF m] obtain c1 k1 u1 e1 where
    1: "(c1, k1, u1) \<in> set (rmatch (Grp (Rep is_digit 1 None True)) 0 s)"
      "(e1, j, t) \<in> set (rmatch (Seq (Lit ''.'') (Seq (Grp (Rep is_digit 1 None True)) Eol)) k1 u1)" "m = c1 @ e1"
    by blast
  from rmatch_Seq_inv [OF 1(2)] obtain c2 k2 u2 e2 where
    2: "(c2, k2, u2) \<in> set (rmatch (Lit ''.'') k1 u1)"
      "(e2, j, t) \<in> set (rmatch (Seq (Grp (Rep is_digit 1 None True)) Eol) k2 u2)" "e1 = c2 @ e2"
    by blast
  from rmatch_Seq_inv [OF 2(2)] obtain c3 k3 u3 e3 where
    3: "(c3, k3, u3) \<in> set (rmatch (Grp (Rep is_digit 1 None True)) k2 u2)"
      "(e3, j, t) \<in> set (rmatch Eol k3 u3)" "e2 = c3 @ e3"
    by blast
  from rmatch_Grp_inv [OF 1(1)] obtain a where
    a: "s = a @ u1" "list_all is_digit a" "1 \<le> length a" "c1 = [a]" by blast
  from rmatch_Grp_inv [OF 3(1)] obtain b where
    b: "u2 = b @ u3" "list_all is_digit b" "1 \<le> length b" "c3 = [b]" by blast
  show ?thesis
    using a b 1(3) 2(3) 3(3) rmatch_Lit_inv [OF 2(1)] rmatch_Eol_inv [OF 3(2)]
    by (intro exI [of _ a] exI [of _ b]) auto
qed

lemma first_Eol: "first Eol i [] ([], i, [])"
  by (simp add: first_def)

lemma submatch_name:
  assumes "list_all is_digit a" "list_all is_digit b" "a \<noteq> []" "b \<noteq> []"
  shows "submatch eewFileNameRE (a @ ''.'' @ b) = Some [a, b]"
proof -
  have 1: "first (Grp (Rep is_digit 1 None True)) 0 (a @ ''.'' @ b) ([a], 0 + length a, ''.'' @ b)"
    using assms by (intro first_greedy) (auto simp: is_digit_def)
  have 2: "first (Lit ''.'') i (''.'' @ b) ([], i + length ''.'', b)" for i by (rule first_Lit)
  have 3: "first (Grp (Rep is_digit 1 None True)) i (b @ []) ([b], i + length b, [])" for i
    using assms by (intro first_greedy) auto
  have "\<exists>j t. first (Seq (Grp (Rep is_digit 1 None True)) (Seq (Lit ''.'') (Seq (Grp (Rep is_digit 1 None True)) Eol)))
      0 (a @ ''.'' @ b) ([a, b], j, t)"
    using first_Seq [OF 1 first_Seq [OF 2 first_Seq [OF 3 [simplified] first_Eol]]] by auto
  then show ?thesis
    unfolding eewFileNameRE_def rseq.simps submatch_Bol by (auto simp: first_def)
qed

lemma dot_no_digit [simp]: "\<not> is_digit CHR ''.''"
  by (simp add: is_digit_def)

lemma split_eew_name_iff:
  "split_eew_name s = Some (eqid, num) \<longleftrightarrow>
     (\<exists>b. s = eqid @ ''.'' @ b \<and> list_all is_digit eqid \<and> eqid \<noteq> [] \<and> list_all is_digit b \<and> b \<noteq> [] \<and> atoi b = Some num)"
proof
  assume h: "split_eew_name s = Some (eqid, num)"
  then obtain m where m: "submatch eewFileNameRE s = Some m" by (auto simp: split_eew_name_def split: option.splits)
  from submatch_name_inv [OF this] h m
  show "\<exists>b. s = eqid @ ''.'' @ b \<and> list_all is_digit eqid \<and> eqid \<noteq> [] \<and> list_all is_digit b \<and> b \<noteq> [] \<and> atoi b = Some num"
    by (auto simp: split_eew_name_def split: option.splits)
next
  assume "\<exists>b. s = eqid @ ''.'' @ b \<and> list_all is_digit eqid \<and> eqid \<noteq> [] \<and> list_all is_digit b \<and> b \<noteq> [] \<and> atoi b = Some num"
  then obtain b where b: "s = eqid @ ''.'' @ b" "list_all is_digit eqid" "list_all is_digit b" "eqid \<noteq> []"
    "b \<noteq> []" "atoi b = Some num" by blast
  from submatch_name [OF b(2-5)] b(6) show "split_eew_name s = Some (eqid, num)"
    unfolding b(1) split_eew_name_def by (simp only: option.case nth_Cons_0 One_nat_def nth_Cons_Suc)
qed

text \<open>Bytewise comparison of two such names compares the ids, because a dot is less than a digit.\<close>

lemma dot_less_digit: "is_digit d \<Longrightarrow> CHR ''.'' < d"
  by (simp add: is_digit_def less_char_def)

lemma append_dot_less:
  "list_all is_digit a \<Longrightarrow> list_all is_digit b \<Longrightarrow> a \<noteq> b \<Longrightarrow>
     a @ CHR ''.'' # x < b @ CHR ''.'' # y \<longleftrightarrow> a < b"
proof (induction a arbitrary: b)
  case Nil
  then obtain d b' where "b = d # b'" "is_digit d" by (cases b) auto
  then show ?case using dot_less_digit [of d] by simp
next
  case (Cons c a)
  show ?case
  proof (cases b)
    case Nil
    then have "CHR ''.'' < c" using dot_less_digit [of c] Cons.prems(1) by simp
    then show ?thesis using Nil by auto
  next
    case (Cons d b')
    then show ?thesis using Cons.IH [of b'] Cons.prems by auto
  qed
qed

lemma less_by_report:
  assumes "split_eew_name a = Some (aid, an)" "split_eew_name b = Some (bid, bn)"
  shows "less_eew_file a b \<longleftrightarrow> (aid, an) < (bid, bn)"
proof -
  obtain x y where a: "a = aid @ CHR ''.'' # x" "list_all is_digit aid"
    and b: "b = bid @ CHR ''.'' # y" "list_all is_digit bid"
    using assms by (auto simp: split_eew_name_iff)
  show ?thesis
  proof (cases "aid = bid")
    case True
    then show ?thesis using assms by (simp add: less_eew_file_def less_prod_def)
  next
    case False
    then show ?thesis
      using assms append_dot_less [OF a(2) b(2) False, of x y] a(1) b(1)
      by (simp add: less_eew_file_def less_prod_def) (metis order_less_le)
  qed
qed

text \<open>The order of the file list is the one it means to be: on archive names, \<open>lessEEWFile\<close> is "earlier
  id, or the same id and smaller report number as a number", so it is a strict weak ordering (sorting
  by it is well defined, although the source mixes two comparisons), and report 10 comes after
  report 9.\<close>

lemma file_order_is_by_report:
  assumes "split_eew_name a = Some (aid, an)" "split_eew_name b = Some (bid, bn)"
  shows "less_eew_file a b \<longleftrightarrow> (aid, an) < (bid, bn)"
  using assms by (rule less_by_report)

lemma file_order_example:
  "less_eew_file ''20110312042346.9'' ''20110312042346.10''"
proof -
  have "split_eew_name ''20110312042346.9'' = Some (''20110312042346'', 9)"
    "split_eew_name ''20110312042346.10'' = Some (''20110312042346'', 10)"
    by (simp_all add: split_eew_name_iff is_digit_def atoi_def dec_val_def digit_val_def)
  from file_order_is_by_report [OF this] show ?thesis by (simp add: less_prod_def)
qed

text \<open>Sorting by it.\<close>

lemma mset_insert_by: "mset (insert_by lt x xs) = add_mset x (mset xs)"
  by (induction xs) auto

lemma mset_sort_by [simp]: "mset (sort_by lt xs) = mset xs"
  by (induction xs) (auto simp: sort_by_def mset_insert_by)

lemma set_sort_by: "set (sort_by lt xs) = set xs"
  by (metis mset_sort_by set_mset_mset)

lemma sorted_insert_by:
  fixes f :: "'a \<Rightarrow> 'k :: linorder"
  assumes "\<forall>y \<in> set ys. lt y x \<longleftrightarrow> f y < f x" "sorted (map f ys)"
  shows "sorted (map f (insert_by lt x ys))"
  using assms
proof (induction ys)
  case (Cons y ys)
  have s: "set (insert_by lt x ys) = insert x (set ys)" by (induction ys) auto
  show ?case using Cons s by (auto simp: not_less intro: order.trans)
qed simp

lemma sorted_sort_by:
  fixes f :: "'a \<Rightarrow> 'k :: linorder"
  assumes "\<forall>x \<in> set xs. \<forall>y \<in> set xs. lt x y \<longleftrightarrow> f x < f y"
  shows "sorted (map f (sort_by lt xs))"
  using assms
proof (induction xs)
  case (Cons x xs)
  have "sort_by lt (x # xs) = insert_by lt x (sort_by lt xs)" by (simp add: sort_by_def)
  moreover have "sorted (map f (insert_by lt x (sort_by lt xs)))"
    using Cons by (intro sorted_insert_by) (auto simp: set_sort_by)
  ultimately show ?case by simp
qed (simp add: sort_by_def)


section \<open>Paths of the viewer\<close>

lemma foldl_rooted_no_dots: "''..'' \<notin> set st \<Longrightarrow> ''..'' \<notin> set (foldl (push_element True) st es)"
proof (induction es arbitrary: st)
  case (Cons e es)
  have "''..'' \<notin> set (push_element True st e)" using Cons.prems by (cases st) auto
  then show ?case using Cons.IH by simp
qed simp

lemma push_cases:
  "e \<noteq> ''..'' \<Longrightarrow> push_element r st e = e # st"
  "x \<noteq> ''..'' \<Longrightarrow> push_element r (x # st) ''..'' = st"
  "push_element True [] ''..'' = []"
  "\<not> (st \<noteq> [] \<and> hd st \<noteq> ''..'') \<Longrightarrow> push_element False st ''..'' = ''..'' # st"
  by auto

declare push_element.simps [simp del]

lemma foldl_resolved:
  assumes "r = False \<or> st = []"
  shows "foldl (push_element True) st (rev (foldl (push_element r) [] es)) = foldl (push_element True) st es"
proof (induction es rule: rev_induct)
  case (snoc e es)
  let ?S = "foldl (push_element r) [] es"
  show ?case
  proof (cases "e = ''..''")
    case False
    then show ?thesis using snoc by (simp add: push_cases)
  next
    case up: True
    show ?thesis
    proof (cases "?S \<noteq> [] \<and> hd ?S \<noteq> ''..''")
      case True
      then obtain x S' where S: "?S = x # S'" "x \<noteq> ''..''" by (cases ?S) auto
      then have "foldl (push_element True) st es = x # foldl (push_element True) st (rev S')"
        using snoc by (simp add: push_cases)
      then show ?thesis using S up by (simp add: push_cases)
    next
      case stuck: False
      show ?thesis
      proof (cases r)
        case True
        then have "''..'' \<notin> set ?S" using foldl_rooted_no_dots [of "[]" es] by simp
        with stuck have "?S = []" by (metis hd_in_set)
        then show ?thesis using snoc assms True up by (simp add: push_cases)
      next
        case False
        then have "push_element r ?S e = e # ?S" using push_cases(4) [OF stuck] up by simp
        then show ?thesis using snoc by simp
      qed
    qed
  qed
qed simp

lemma resolve_idem: "resolve r (resolve r es) = resolve r es"
proof -
  have "foldl (push_element r) [] (rev (foldl (push_element r) [] es)) = foldl (push_element r) [] es"
  proof (induction es rule: rev_induct)
    case (snoc e es)
    let ?S = "foldl (push_element r) [] es"
    show ?case
    proof (cases "e = ''..''")
      case False
      then show ?thesis using snoc by (simp add: push_cases)
    next
      case up: True
      show ?thesis
      proof (cases "?S \<noteq> [] \<and> hd ?S \<noteq> ''..''")
        case True
        then obtain x S' where S: "?S = x # S'" "x \<noteq> ''..''" by (cases ?S) auto
        then show ?thesis using snoc up by (simp add: push_cases)
      next
        case stuck: False
        show ?thesis
        proof (cases r)
          case True
          then have "''..'' \<notin> set ?S" using foldl_rooted_no_dots [of "[]" es] by simp
          with stuck have "?S = []" by (metis hd_in_set)
          then show ?thesis using True up by (simp add: push_cases)
        next
          case False
          then have "push_element r ?S e = e # ?S" using push_cases(4) [OF stuck] up by simp
          then show ?thesis using snoc by simp
        qed
      qed
    qed
  qed simp
  then show ?thesis by (simp add: resolve_def)
qed

lemma resolve_resolved:
  "resolve True (resolve True es) = resolve True es"
  "resolve True (cs @ resolve False es) = resolve True (cs @ es)"
proof -
  show "resolve True (resolve True es) = resolve True es"
    unfolding resolve_def using foldl_resolved [of True "[]" es] by simp
  show "resolve True (cs @ resolve False es) = resolve True (cs @ es)"
    unfolding resolve_def using foldl_resolved [of False _ es] by simp
qed

lemma elements_join_strict:
  "\<forall>e \<in> set ns. e \<noteq> [] \<and> e \<noteq> ''.'' \<and> slash \<notin> set e \<Longrightarrow> elements (join_slash ns) = ns"
  by (induction ns rule: join_slash.induct) (auto simp: elements_append elements_def)

lemma base_strict: "e \<in> set (base_elements dir) \<Longrightarrow> e \<noteq> [] \<and> e \<noteq> ''.'' \<and> slash \<notin> set e"
  using base_no_slash [of e dir] resolve_subset [of "is_rooted dir" "elements dir"]
  by (auto simp: base_elements_def elements_def)

lemma elements_below:
  assumes "list_all plain_element ns"
  shows "elements (below dir ns) = base_elements dir @ ns"
proof -
  have "elements (join_slash (base_elements dir @ ns)) = base_elements dir @ ns"
    using assms base_strict by (intro elements_join_strict) (auto simp: list_all_iff plain_element_def)
  moreover have "elements (slash # s) = elements s" for s
    using elements_append [of "[]" s] by simp
  ultimately show ?thesis by (simp add: below_def)
qed

lemma prefix_join_slash: "prefix (join_slash xs) (join_slash (xs @ ns))"
proof (induction xs rule: join_slash.induct)
  case (2 e)
  then show ?case by (cases ns) auto
qed auto

lemma rooted_below: "is_rooted dir \<Longrightarrow> is_rooted (below dir ns)"
  by (simp add: below_def is_rooted_def)

lemma unrooted_below:
  assumes "\<not> is_rooted dir" "list_all plain_element ns" "ns \<noteq> []"
  shows "\<not> is_rooted (below dir ns)"
proof -
  obtain e es where e: "base_elements dir @ ns = e # es" using assms(3) by (cases "base_elements dir @ ns") auto
  then have "e \<in> set (base_elements dir) \<or> e \<in> set ns" by (metis Un_iff list.set_intros(1) set_append)
  then have "e \<noteq> [] \<and> slash \<notin> set e"
    using base_no_slash assms(2) by (auto simp: list_all_iff plain_element_def)
  then obtain c r where "e = c # r" "c \<noteq> slash" by (cases e) auto
  then show ?thesis using e assms(1) by (cases es) (simp_all add: below_def is_rooted_def)
qed

lemma abs_below:
  assumes "is_rooted cwd" "dir \<noteq> []" "list_all plain_element ns" "ns \<noteq> []"
  shows "prefix (abs_path cwd dir) (abs_path cwd (below dir ns))"
proof (cases "is_rooted dir")
  case True
  then have "abs_path cwd dir = slash # join_slash (base_elements dir)"
    by (simp add: abs_path_def clean_path_def base_elements_def)
  moreover have "abs_path cwd (below dir ns) = slash # join_slash (base_elements dir @ ns)"
    using True rooted_below [OF True] assms(3)
    by (simp add: abs_path_def clean_path_def elements_below resolve_plain)
      (simp add: base_elements_def resolve_resolved)
  ultimately show ?thesis by (simp add: prefix_join_slash)
next
  case False
  have join: "join_path [cwd, p] = slash # join_slash (resolve True (elements cwd @ elements p))" if "p \<noteq> []" for p
  proof -
    have "cwd \<noteq> []" "is_rooted (cwd @ slash # p)" using assms(1) by (auto simp: is_rooted_def)
    then show ?thesis by (simp add: join_path_def clean_path_def elements_append)
  qed
  have "below dir ns \<noteq> []" using elements_below [OF assms(3), of dir] assms(4) by auto
  then have "abs_path cwd (below dir ns) =
      slash # join_slash (resolve True ((elements cwd @ base_elements dir) @ ns))"
    using unrooted_below [OF False assms(3,4)] assms(3) by (simp add: abs_path_def join elements_below)
  also have "resolve True ((elements cwd @ base_elements dir) @ ns) = resolve True (elements cwd @ elements dir) @ ns"
    using assms(3) False by (simp add: resolve_plain base_elements_def resolve_resolved del: append_assoc)
  finally show ?thesis using False assms(2) by (simp add: abs_path_def join prefix_join_slash)
qed


text \<open>A name joined to a path below a directory is one element further down.\<close>

lemma base_below: "list_all plain_element ns \<Longrightarrow> ns \<noteq> [] \<Longrightarrow> base_elements (below dir ns) = base_elements dir @ ns"
proof -
  assume ns: "list_all plain_element ns" "ns \<noteq> []"
  have "is_rooted (below dir ns) = is_rooted dir" using rooted_below unrooted_below ns by blast
  moreover have "resolve (is_rooted dir) (base_elements dir) = base_elements dir"
    unfolding base_elements_def by (rule resolve_idem)
  ultimately show ?thesis
    using elements_below [OF ns(1)] resolve_plain [OF ns(1)] by (simp add: base_elements_def)
qed

lemma join_below:
  assumes "list_all plain_element ns" "ns \<noteq> []" "plain_element e"
  shows "join_path [below dir ns, e] = below dir (ns @ [e])"
proof -
  have r: "is_rooted (below dir ns) = is_rooted dir" using rooted_below unrooted_below assms(1,2) by blast
  have "below dir ns \<noteq> []" using elements_below [OF assms(1), of dir] assms(2) by auto
  then have "join_path [below dir ns, e] = below (below dir ns) [e]"
    using join_path_below [of "below dir ns" "[e]"] assms(3) by (simp add: plain_element_def)
  also have "\<dots> = below dir (ns @ [e])"
    using r assms(1,2) by (simp add: below_def [of "below dir ns"] base_below) (simp add: below_def)
  finally show ?thesis .
qed

text \<open>A number printed with the width of the digits it was read from.\<close>

lemma fmt_0d_dec_val:
  assumes "list_all is_digit a" "a \<noteq> []"
  shows "fmt_0d (length a) (int (dec_val a)) = a"
proof -
  have "replicate (length a - length (show_nat (dec_val a))) CHR ''0'' @ show_nat (dec_val a) = a"
    using assms
  proof (induction a rule: rev_induct)
    case (snoc c a)
    show ?case
    proof (cases "dec_val a = 0")
      case True
      have s: "show_nat (dec_val (a @ [c])) = [c]" using True snoc.prems(1) by (simp add: show_nat.simps)
      have "a = replicate (length a) CHR ''0''"
      proof (cases "a = []")
        case False
        have "show_nat 0 = ''0''" by code_simp
        with snoc.IH snoc.prems(1) False True have e: "replicate (length a - 1) CHR ''0'' @ ''0'' = a" by simp
        moreover have "replicate (length a) CHR ''0'' = replicate (length a - 1) CHR ''0'' @ ''0''"
          using False by (cases a) (simp_all add: replicate_append_same)
        ultimately show ?thesis by simp
      qed simp
      then show ?thesis using s by simp
    next
      case False
      then have "a \<noteq> []" by auto
      moreover have "show_nat (dec_val (a @ [c])) = show_nat (dec_val a) @ [c]"
        using False snoc.prems(1) by (subst show_nat.simps) simp
      ultimately show ?thesis using snoc.IH snoc.prems(1) by simp
    qed
  qed simp
  then show ?thesis by (simp add: fmt_0d_def)
qed


section \<open>Properties\<close>

text \<open>What the name pattern of the detail page lets through.\<close>

lemma detail_name_inv:
  assumes "matches detailNameRE s"
  shows "\<exists>a b. s = a @ ''.'' @ b \<and> list_all is_digit a \<and> length a = 14 \<and> list_all is_digit b \<and> b \<noteq> []"
proof -
  let ?r = "Seq (exactly 14 is_digit) (Seq (Lit ''.'') (Seq (Rep is_digit 1 (Some 4) True) Eol))"
  obtain x where "submatch (Seq Bol ?r) s = Some x"
    using assms unfolding matches_def detailNameRE_def rseq.simps submatch_def by auto
  from submatch_Bol_inv [OF this] obtain j t where m: "(x, j, t) \<in> set (rmatch ?r 0 s)" by blast
  from rmatch_Seq_inv [OF m] obtain c1 k1 u1 e1 where
    1: "(c1, k1, u1) \<in> set (rmatch (exactly 14 is_digit) 0 s)"
      "(e1, j, t) \<in> set (rmatch (Seq (Lit ''.'') (Seq (Rep is_digit 1 (Some 4) True) Eol)) k1 u1)" by blast
  from rmatch_Seq_inv [OF 1(2)] obtain c2 k2 u2 e2 where
    2: "(c2, k2, u2) \<in> set (rmatch (Lit ''.'') k1 u1)"
      "(e2, j, t) \<in> set (rmatch (Seq (Rep is_digit 1 (Some 4) True) Eol) k2 u2)" by blast
  from rmatch_Seq_inv [OF 2(2)] obtain c3 k3 u3 e3 where
    3: "(c3, k3, u3) \<in> set (rmatch (Rep is_digit 1 (Some 4) True) k2 u2)" "(e3, j, t) \<in> set (rmatch Eol k3 u3)"
    by blast
  from rmatch_Rep_inv [OF 1(1)] obtain a where
    a: "s = a @ u1" "list_all is_digit a" "14 \<le> length a" "case Some 14 of None \<Rightarrow> True | Some h \<Rightarrow> length a \<le> h"
    by blast
  from rmatch_Rep_inv [OF 3(1)] obtain b where b: "u2 = b @ u3" "list_all is_digit b" "1 \<le> length b" by blast
  show ?thesis
    using a b rmatch_Lit_inv [OF 2(1)] rmatch_Eol_inv [OF 3(2)]
    by (intro exI [of _ a] exI [of _ b]) auto
qed

lemma detail_name_ok:
  assumes "list_all is_digit a" "length a = 14" "list_all is_digit b" "b \<noteq> []" "length b \<le> 4"
  shows "matches detailNameRE (a @ ''.'' @ b)"
proof -
  have t: "takeWhile is_digit b = b" "take 4 b = b"
    using assms(3,5) by (simp_all add: list_all_iff takeWhile_eq_all_conv)
  have "rev [1..<Suc (length b)] = length b # rev [1..<length b]"
    using assms(4) by (cases b) (auto simp: upt_Suc_append)
  then have 3: "first (Rep is_digit 1 (Some 4) True) i (b @ []) ([], i + length b, [])" for i
    unfolding first_def rep_counts_def rmatch.simps Let_def option.case append_Nil2 t if_True by simp
  have 1: "first (exactly 14 is_digit) 0 (a @ ''.'' @ b) ([], 0 + 14, ''.'' @ b)"
    using assms(1,2) by (simp add: first_def rep_counts_exactly)
  have "\<exists>j t. first (Seq (exactly 14 is_digit) (Seq (Lit ''.'') (Seq (Rep is_digit 1 (Some 4) True) Eol)))
      0 (a @ ''.'' @ b) ([], j, t)"
    using first_Seq [OF 1 first_Seq [OF first_Lit first_Seq [OF 3 [simplified] first_Eol]]] by auto
  then have "submatch detailNameRE (a @ ''.'' @ b) \<noteq> None"
    unfolding detailNameRE_def rseq.simps submatch_Bol by (auto simp: first_def)
  then show ?thesis by (simp add: matches_def submatch_def)
qed

lemma name_elements:
  assumes "list_all is_digit a" "length a = 14" "list_all is_digit b" "b \<noteq> []"
  defines "name \<equiv> a @ ''.'' @ b"
  shows "list_all plain_element [take 4 name, take 2 (drop 4 name), take 2 (drop 6 name), name]"
    and "[take 4 name, take 2 (drop 4 name), take 2 (drop 6 name)] = [take 4 a, take 2 (drop 4 a), take 2 (drop 6 a)]"
proof -
  show e: "[take 4 name, take 2 (drop 4 name), take 2 (drop 6 name)] = [take 4 a, take 2 (drop 4 a), take 2 (drop 6 a)]"
    using assms(2) by (simp add: name_def)
  have "plain_element name" unfolding name_def using assms(1,3,4) by (rule dotted_plain)
  moreover have "plain_element (take 4 a)" "plain_element (take 2 (drop 4 a))" "plain_element (take 2 (drop 6 a))"
    using list_all_take_drop [OF assms(1)] list_all_take_drop [where p = is_digit] assms(2)
    by (auto intro!: digits_plain)
  ultimately show "list_all plain_element [take 4 name, take 2 (drop 4 name), take 2 (drop 6 name), name]"
    using e by simp
qed

lemma telegram_path_below:
  assumes "is_rooted cwd" "dir \<noteq> []" "list_all is_digit a" "length a = 14" "list_all is_digit b" "b \<noteq> []"
  shows "telegram_path cwd dir (a @ ''.'' @ b) =
    Some (below dir [take 4 a, take 2 (drop 4 a), take 2 (drop 6 a), a @ ''.'' @ b])"
proof -
  let ?name = "a @ ''.'' @ b"
  let ?ns = "[take 4 ?name, take 2 (drop 4 ?name), take 2 (drop 6 ?name), ?name]"
  note ns = name_elements [OF assms(3-6)]
  have "filter (\<lambda>e. e \<noteq> []) ?ns = ?ns" using ns(1) by (simp add: plain_element_def)
  then have "join_path (dir # ?ns) = below dir ?ns"
    using join_path_below [OF assms(2), of ?ns] ns(1) by (simp add: list_all_iff)
  moreover have "prefix (abs_path cwd dir) (abs_path cwd (below dir ?ns))"
    using assms(1,2) ns(1) by (intro abs_below) auto
  ultimately show ?thesis
    using assms(4) ns(2) by (simp add: telegram_path_def Let_def)
qed

text \<open>C35. No request reads outside the archive: whatever the name parameter, the detail page is refused as a
  bad name or reads one file that lies below the data directory, four plain elements down, whatever
  the configured directory and the working directory are; an accepted name never fails the second,
  lexical check.\<close>

theorem detail_reads_below_data_dir:
  assumes "is_rooted cwd" "data_dir cfg \<noteq> []"
  shows "detail_handler sjis cwd cfg fs name = Bad_name \<and> \<not> matches detailNameRE name
    \<or> (\<exists>ns path. length ns = 4 \<and> list_all plain_element ns \<and> path = below (data_dir cfg) ns
         \<and> telegram_path cwd (data_dir cfg) name = Some path
         \<and> (detail_handler sjis cwd cfg fs name = Not_found \<longleftrightarrow> file_read fs path = None))"
proof (cases "matches detailNameRE name")
  case True
  from detail_name_inv [OF True] obtain a b where
    n: "name = a @ ''.'' @ b" "list_all is_digit a" "length a = 14" "list_all is_digit b" "b \<noteq> []" by blast
  let ?ns = "[take 4 a, take 2 (drop 4 a), take 2 (drop 6 a), name]"
  have p: "telegram_path cwd (data_dir cfg) name = Some (below (data_dir cfg) ?ns)"
    using telegram_path_below [OF assms n(2-5)] n(1) by simp
  have e: "list_all plain_element ?ns" using name_elements(1) [OF n(2-5)] n(1,3) by simp
  have "detail_handler sjis cwd cfg fs name = Not_found \<longleftrightarrow> file_read fs (below (data_dir cfg) ?ns) = None"
    using True p by (simp add: detail_handler_def Let_def split: option.splits)
  then show ?thesis
    using p e by (intro disjI2 exI [of _ ?ns] exI [of _ "below (data_dir cfg) ?ns"]) simp
qed (simp add: detail_handler_def)

lemma detail_reads_below_data_dir_witness:
  "detail_handler id ''/srv'' \<lparr>data_dir = ''log'', path_base = ''./'', viewer_path = ''eew-show'', listen_addr = '':80''\<rparr>
     \<lparr>dir_exists = (\<lambda>_. False), dir_list = (\<lambda>_. None), file_read = (\<lambda>_. None)\<rparr> ''../../etc/passwd'' = Bad_name"
proof -
  have "\<not> matches detailNameRE ''../../etc/passwd''"
  proof
    assume "matches detailNameRE ''../../etc/passwd''"
    from detail_name_inv [OF this] show False by (auto simp: is_digit_def Cons_eq_append_conv)
  qed
  then show ?thesis
    using detail_reads_below_data_dir [of "''/srv''"
        "\<lparr>data_dir = ''log'', path_base = ''./'', viewer_path = ''eew-show'', listen_addr = '':80''\<rparr>" id
        "\<lparr>dir_exists = (\<lambda>_. False), dir_list = (\<lambda>_. None), file_read = (\<lambda>_. None)\<rparr>" "''../../etc/passwd''"]
    by (auto simp: is_rooted_def detail_handler_def)
qed

definition name_key :: "string \<Rightarrow> string \<times> int" where
  "name_key n = (case split_eew_name n of None \<Rightarrow> ([], 0) | Some k \<Rightarrow> k)"

text \<open>A day's page lists the day's reports, all of them and in order: where the day exists and can be
  listed, the page has one row for each readable file whose name has the archive's form, made of that
  file's content, and the rows are in the order of id and report number.\<close>

lemma day_page_rows:
  assumes "dir_exists fs (year_dir cfg (saturate qy 2000 3000))"
    and "dir_exists fs (month_dir cfg (saturate qy 2000 3000) (saturate qm 1 12))"
    and "dir_exists fs (day_dir cfg (saturate qy 2000 3000) (saturate qm 1 12) (saturate qd 1 31))"
    and "dir_list fs (day_dir cfg (saturate qy 2000 3000) (saturate qm 1 12) (saturate qd 1 31)) = Some es"
  shows "\<exists>names. list_handler cfg fs qy qm qd =
      (let y = saturate qy 2000 3000; m = saturate qm 1 12; d = saturate qd 1 31
       in List_page (List.map_filter (\<lambda>n. map_option (file_row cfg (day_title y m d) n)
            (file_read fs (join_path [day_dir cfg y m d, n]))) names))
    \<and> mset names = mset (filter (\<lambda>n. split_eew_name n \<noteq> None) (map fst (filter (\<lambda>(n, d). \<not> d) es)))
    \<and> sorted (map name_key names)"
proof -
  let ?ns = "filter (\<lambda>n. split_eew_name n \<noteq> None) (map fst (filter (\<lambda>(n, d). \<not> d) es))"
  have key: "less_eew_file x y \<longleftrightarrow> name_key x < name_key y" if xy: "x \<in> set ?ns" "y \<in> set ?ns" for x y
  proof -
    obtain ai an bi bn where s: "split_eew_name x = Some (ai, an)" "split_eew_name y = Some (bi, bn)"
      using xy by auto
    show ?thesis using less_by_report [OF s] s by (simp add: name_key_def)
  qed
  have "sorted (map name_key (sort_by less_eew_file ?ns))"
    using key by (intro sorted_sort_by) blast
  then show ?thesis
    using assms by (intro exI [of _ "sort_by less_eew_file ?ns"] conjI)
      (simp_all add: list_handler_def Let_def)
qed

lemma day_page_rows_example:
  "let cfg = \<lparr>data_dir = ''log'', path_base = ''./'', viewer_path = ''eew-show'', listen_addr = '':80''\<rparr> in
   \<exists>names. list_handler cfg
      \<lparr>dir_exists = (\<lambda>_. True), dir_list = (\<lambda>_. Some [(''1.10'', False), (''1.9'', False)]), file_read = (\<lambda>_. Some [])\<rparr>
      ''2011'' ''3'' ''12'' =
    List_page (List.map_filter (\<lambda>n. map_option (file_row cfg
      (day_title (saturate ''2011'' 2000 3000) (saturate ''3'' 1 12) (saturate ''12'' 1 31)) n) (Some [])) names)
    \<and> sorted (map name_key names)"
  using day_page_rows [of "\<lparr>dir_exists = (\<lambda>_. True), dir_list = (\<lambda>_. Some [(''1.10'', False), (''1.9'', False)]), file_read = (\<lambda>_. Some [])\<rparr>"
      "\<lparr>data_dir = ''log'', path_base = ''./'', viewer_path = ''eew-show'', listen_addr = '':80''\<rparr>"
      "''2011''" "''3''" "''12''" "[(''1.10'', False), (''1.9'', False)]"]
  unfolding Let_def by (simp del: map_filter_simps) blast

text \<open>Query values are kept in range and links lead where they say: \<open>saturate\<close> gives 0 for an absent value
  and otherwise a number within the bounds, and a number within the bounds that the page wrote into a
  link is read back as itself; so the directories looked at always have a year of 0 or 2000 to 3000.
  A number too long for an \<open>int\<close> is taken for the lower bound, not the upper one.\<close>

lemma saturate_range:
  assumes "0 < mn" "mn \<le> mx" "mx < 2 ^ 63"
  shows "(saturate raw mn mx = 0 \<longleftrightarrow> raw = []) \<and> saturate raw mn mx \<in> insert 0 {mn..mx}
    \<and> (mn \<le> v \<and> v \<le> mx \<longrightarrow> saturate (itoa v) mn mx = v)
    \<and> saturate ''9999999999999999999'' mn mx = mn"
proof -
  have "dec_val ''9999999999999999999'' = 9999999999999999999"
    by (simp add: dec_val_def digit_val_def)
  moreover have "list_all is_digit ''9999999999999999999''" by (simp add: is_digit_def)
  ultimately have "atoi ''9999999999999999999'' = None" by (simp add: atoi_digits)
  moreover have "itoa v \<noteq> [] \<and> atoi (itoa v) = Some v" if "mn \<le> v" "v \<le> mx"
    using that assms atoi_itoa [of v] by (simp add: itoa_def)
  ultimately show ?thesis using assms by (auto simp: saturate_def Let_def)
qed

lemma saturate_range_example: "saturate ''99'' 1 12 \<in> insert 0 {1..12} \<and> saturate (itoa 7) 1 12 = 7"
proof -
  have p: "0 < (1::int)" "(1::int) \<le> 12" "(12::int) < 2 ^ 63" by simp_all
  from saturate_range [OF p, of "''99''" 7] show ?thesis
    by (elim conjE) (intro conjI, assumption, simp)
qed

end
