(* ===== verification/Commands.thy ===== *)
theory Commands
  imports App Slack_Timed Eewview_Server
begin

text \<open>
  \<open>cmd/eew-notifier/main.go\<close>, \<open>cmd/eew-replay/main.go\<close> and \<open>cmd/eew-view/main.go\<close>: the log level, the exit
  status of the daemon's and the viewer's commands, and the replay of telegram files.
\<close>


section \<open>Log level\<close>

text \<open>\<open>strings.ToLower\<close> as far as a comparison with ASCII words can tell: ASCII capitals, and the two other
  characters whose lower case is ASCII, the dotted capital I (U+0130) and the Kelvin sign (U+212A).\<close>

fun to_lower :: "bytes \<Rightarrow> bytes" where
  "to_lower [] = []"
| "to_lower (c # s) =
     (if c = CHR 0xC4 \<and> prefix [CHR 0xB0] s then CHR ''i'' # to_lower (drop 1 s)
      else if c = CHR 0xE2 \<and> prefix [CHR 0x84, CHR 0xAA] s then CHR ''k'' # to_lower (drop 2 s)
      else (if upper c then char_of ((of_char c :: nat) + 32) else c) # to_lower s)"

datatype log_level = Level_debug | Level_info | Level_warn | Level_error

definition parse_log_level :: "string \<Rightarrow> log_level option" where
  "parse_log_level s =
     (let l = to_lower s
      in if l = ''debug'' then Some Level_debug
         else if l = ''info'' \<or> l = [] then Some Level_info
         else if l = ''warn'' \<or> l = ''warning'' then Some Level_warn
         else if l = ''error'' then Some Level_error
         else None)"

lemma parse_log_level_examples:
  "parse_log_level [] = Some Level_info" "parse_log_level ''Debug'' = Some Level_debug"
  "parse_log_level ''WARNING'' = Some Level_warn" "parse_log_level ''trace'' = None"
  "parse_log_level (utf8 [0x130] @ ''nfo'') = Some Level_info"
  by code_simp+


section \<open>The daemon's command\<close>

text \<open>The exit status; \<open>run_ok\<close> says whether \<open>app.Run\<close> returns without an error.\<close>

definition notifier_main :: "string \<Rightarrow> string list \<Rightarrow> (string \<Rightarrow> load_err + config) \<Rightarrow> (config \<Rightarrow> bool) \<Rightarrow> nat" where
  "notifier_main level args load_config run_ok =
     (case parse_log_level level of
        None \<Rightarrow> 2
      | Some _ \<Rightarrow>
          (case load_config (case args of [] \<Rightarrow> ''config.yaml'' | p # _ \<Rightarrow> p) of
             Inl _ \<Rightarrow> 1
           | Inr cfg \<Rightarrow> if run_ok cfg then 0 else 1))"

text \<open>With the daemon of the theory App, which fails only where its archive cannot be opened.\<close>

lemma notifier_exit:
  "notifier_main level args load_config (\<lambda>cfg. \<exists>d. run_daemon url_host mk wr io cfg fs evs = Inr d) = 0 \<longleftrightarrow>
     parse_log_level level \<noteq> None
     \<and> (\<exists>cfg. load_config (case args of [] \<Rightarrow> ''config.yaml'' | p # _ \<Rightarrow> p) = Inr cfg
          \<and> (log_dir cfg = [] \<or> (mk \<and> wr)))"
  by (auto simp: notifier_main_def run_daemon_def start_daemon_def open_store_def Let_def
      split: option.split sum.split prod.split)


section \<open>Replay\<close>

datatype replay_step =
    Unreadable string
  | Printed bytes
  | Posted hook string string

definition replay_print :: "string \<Rightarrow> string \<Rightarrow> string \<Rightarrow> bytes" where
  "replay_print path title txt = ''=== '' @ path @ '' ==='' @ [nl] @ ''title: '' @ title @ [nl] @ ''text:  '' @ txt @ [nl, nl]"

definition replay_file :: "(string \<Rightarrow> bytes option) \<Rightarrow> string \<Rightarrow> string \<Rightarrow> replay_step list" where
  "replay_file rd webhook path =
     (case rd path of
        None \<Rightarrow> [Unreadable path]
      | Some body \<Rightarrow>
          let (txt, title) = format (decode body)
          in Printed (replay_print path title txt) #
             (if webhook \<noteq> [] then [Posted \<lparr>hook_name = ''eew-replay'', hook_url = webhook\<rparr> txt title] else []))"

text \<open>The exit status without files, or the steps.\<close>

definition replay :: "(string \<Rightarrow> bytes option) \<Rightarrow> string \<Rightarrow> string list \<Rightarrow> nat + replay_step list" where
  "replay rd webhook paths = (if paths = [] then Inl 2 else Inr (concat (map (replay_file rd webhook) paths)))"

fun posted :: "replay_step \<Rightarrow> (hook \<times> string \<times> string) list" where
  "posted (Posted h txt title) = [(h, txt, title)]"
| "posted _ = []"

text \<open>A replay posts what the daemon posts to a hook of that name: for each readable file, the same text
  and title.\<close>

lemma replay_posts:
  assumes "webhook \<noteq> []" "replay rd webhook paths = Inr out"
  shows "concat (map posted out) =
    concat (map (\<lambda>t. post_of t [\<lparr>hook_name = ''eew-replay'', hook_url = webhook\<rparr>]) (map decode (List.map_filter rd paths)))"
proof -
  have "concat (map posted (concat (map (replay_file rd webhook) ps))) =
      concat (map (\<lambda>t. post_of t [\<lparr>hook_name = ''eew-replay'', hook_url = webhook\<rparr>]) (map decode (List.map_filter rd ps)))" for ps
    using assms(1) by (induction ps)
      (auto simp: replay_file_def post_of_def case_prod_beta Let_def split: option.split)
  then show ?thesis using assms(2) by (auto simp: replay_def split: if_splits)
qed


text \<open>The sends one after the other, each with a context of ten seconds: when the last one ends.  What the hook
  answers is given for each post.\<close>

definition replayTimeout :: int where "replayTimeout = 10 * 1000000000"

fun replay_sends :: "(string \<Rightarrow> int option) \<Rightarrow> (nat \<Rightarrow> exchange) list \<Rightarrow> int \<Rightarrow> send_result list \<times> int" where
  "replay_sends date [] now = ([], now)"
| "replay_sends date (xs # xss) now =
     (let (t, r) = send_within replayTimeout date xs now in apfst (Cons r) (replay_sends date xss t))"

lemma replay_ends:
  "\<forall>xs \<in> set xss. \<forall>k. 0 \<le> ex_takes (xs k) \<Longrightarrow>
     length (fst (replay_sends date xss now)) = length xss
     \<and> snd (replay_sends date xss now) \<le> now + int (length xss) * replayTimeout"
proof (induction xss arbitrary: now)
  case (Cons xs xss)
  obtain t r where s: "send_within replayTimeout date xs now = (t, r)" by fastforce
  have "t \<le> now + replayTimeout"
    using send_within_bounds [of xs replayTimeout now date] Cons.prems s by (simp add: replayTimeout_def)
  with Cons.IH [of t] Cons.prems s show ?case by (simp add: algebra_simps)
qed simp

text \<open>A context of ten seconds leaves no room for the longest wait: a hook that asks for ten seconds or more is
  not asked again.\<close>

lemma replay_no_long_retry:
  "fst (replay_sends (\<lambda>_. None) [\<lambda>k. \<lparr>ex_takes = 0, ex_answer = Response 429 ''10''\<rparr>] 0) = [Context_done 1]"
  by code_simp


section \<open>The viewer's command\<close>

text \<open>The exit status: the server cannot be built (its templates do not parse), a pattern is registered
  twice, which panics, or the listener ends, by a shutdown or with an error.\<close>

definition viewer_serve :: "bool \<Rightarrow> nat" where
  "viewer_serve shut_down = (if shut_down then 0 else 1)"

text \<open>The server while it runs: requests come and are answered, a signal arrives, the listener fails.
  \<open>Shutdown\<close> makes \<open>ListenAndServe\<close> return at once and goes on in its own goroutine, for which \<open>main\<close> does not
  wait: the requests still active are cut when the process exits.\<close>

datatype view_event = Request_starts nat | Request_ends nat | Signal | Listener_fails

record view_state =
  v_active :: "nat list"
  v_answered :: "nat list"
  v_exit :: "nat option"

fun view_step :: "view_event \<Rightarrow> view_state \<Rightarrow> view_state" where
  "view_step (Request_starts r) v = (if v_exit v = None then v\<lparr>v_active := r # v_active v\<rparr> else v)"
| "view_step (Request_ends r) v =
     (if v_exit v = None \<and> r \<in> set (v_active v)
      then v\<lparr>v_active := remove1 r (v_active v), v_answered := r # v_answered v\<rparr> else v)"
| "view_step Signal v = (if v_exit v = None then v\<lparr>v_exit := Some (viewer_serve True)\<rparr> else v)"
| "view_step Listener_fails v = (if v_exit v = None then v\<lparr>v_exit := Some (viewer_serve False)\<rparr> else v)"

definition view_run :: "view_event list \<Rightarrow> view_state" where
  "view_run es = foldl (\<lambda>v e. view_step e v) \<lparr>v_active = [], v_answered = [], v_exit = None\<rparr> es"

lemma view_run_snoc: "view_run (es @ [e]) = view_step e (view_run es)"
  by (simp add: view_run_def)

lemma view_exited: "v_exit v \<noteq> None \<Longrightarrow> foldl (\<lambda>v e. view_step e v) v es = v"
proof (induction es)
  case (Cons e es)
  then have "view_step e v = v" by (cases e) auto
  then show ?case using Cons by simp
qed simp

text \<open>The five seconds that the shutdown grants are not granted: what is not answered when the signal comes is
  never answered.\<close>

lemma shutdown_cuts_requests:
  assumes "v_exit (view_run es) = None"
  shows "v_answered (view_run (es @ Signal # fs)) = v_answered (view_run es)
    \<and> v_active (view_run (es @ Signal # fs)) = v_active (view_run es) \<and> v_exit (view_run (es @ Signal # fs)) = Some 0"
proof -
  have "view_run (es @ Signal # fs) = view_step Signal (view_run es)"
    using view_exited [of "view_step Signal (view_run es)" fs] assms by (simp add: view_run_def)
  then show ?thesis using assms by (simp add: viewer_serve_def)
qed

definition viewer_main :: "(string \<Rightarrow> string) \<Rightarrow> bool \<Rightarrow> bool \<Rightarrow> nat" where
  "viewer_main getenv templates_ok shut_down =
     (if \<not> templates_ok then 1
      else case new_server (load_config_from_env getenv) of
        None \<Rightarrow> 2
      | Some _ \<Rightarrow> viewer_serve shut_down)"

lemma viewer_exit: "viewer_main getenv True shut_down = 2 \<longleftrightarrow> getenv ''EEW_VIEWER'' = ''/''"
proof -
  have "viewer_route cfg = ''/'' \<longleftrightarrow> viewer_path cfg \<in> {[], ''/''}" for cfg
    by (cases "viewer_path cfg") (auto simp: viewer_route_def)
  moreover have "viewer_path (load_config_from_env getenv) \<in> {[], ''/''} \<longleftrightarrow> getenv ''EEW_VIEWER'' = ''/''"
    by (auto simp: load_config_from_env_def env_or_def)
  ultimately show ?thesis by (auto simp: viewer_main_def viewer_serve_def new_server_def Let_def split: option.split)
qed

end
