(* ===== verification/Wni_Session.thy ===== *)
theory Wni_Session
  imports Wni_Client
begin

text \<open>
  A whole session between a server that writes as \<open>internal/wnisim/server.go\<close> does and the read loop of
  \<open>internal/wni/client.go\<close>: connections that break in the middle of a block, and pings between the
  blocks.
\<close>


section \<open>Broken connections\<close>

text \<open>The messages that lie completely within the first \<open>k\<close> bytes of the stream.\<close>

fun complete :: "nat \<Rightarrow> server_send list \<Rightarrow> server_send list" where
  "complete k [] = []"
| "complete k (m # ms) =
     (if length (send_bytes m) \<le> k then m # complete (k - length (send_bytes m)) ms else [])"

lemma complete_fits: "list_all send_fits ms \<Longrightarrow> list_all send_fits (complete k ms)"
  by (induction ms arbitrary: k) (simp_all del: send_bytes.simps)

text \<open>All of a message but its last byte gives no frame yet.\<close>

lemma feed_all_but_last:
  assumes "send_fits m"
  shows "rframes (feed_loop now wok (at_line n Map.empty (butlast (send_bytes m)))) = []"
proof (cases m)
  case SendResponseOK
  let ?l3 = "''X-WNI-Protocol-Version'' @ '': '' @ ''2.1'' @ nl # []"
  let ?l2 = "''X-WNI-Result'' @ '': '' @ ''OK'' @ nl # ?l3"
  let ?l1 = "''X-WNI-ID'' @ '': '' @ ''Response'' @ nl # ?l2"
  let ?f = "\<lambda>h b. feed_loop now wok (at_line n h b)"
  have p: "plain_line ''HTTP/1.0 200 OK''" by code_simp
  have "?f Map.empty (butlast (send_bytes m)) = ?f Map.empty ?l1"
    using feed_other_line [OF p, of now wok n Map.empty ?l1]
    by (simp add: SendResponseOK response_ok_bytes_def)
  also have "\<dots> = ?f [''X-WNI-ID'' \<mapsto> ''Response''] ?l2"
    by (rule feed_token_line) (simp_all add: token_def graphic_def)
  also have "\<dots> = ?f [''X-WNI-ID'' \<mapsto> ''Response'', ''X-WNI-Result'' \<mapsto> ''OK''] ?l3"
    by (rule feed_token_line) (simp_all add: token_def graphic_def)
  also have "\<dots> = ?f response_header []"
    unfolding response_header_def by (rule feed_token_line) (simp_all add: token_def graphic_def)
  finally show ?thesis by (simp add: feed_loop_Wait)
next
  case SendKeepAlive
  have "feed_loop now wok (at_line n Map.empty (butlast (send_bytes m))) =
      feed_loop now wok (at_line n [''X-WNI-ID'' \<mapsto> ''Keep-Alive''] [])"
    using feed_token_line [of "''X-WNI-ID''" "''Keep-Alive''" now wok n Map.empty "[]"]
    by (simp add: SendKeepAlive keep_alive_bytes_def token_def graphic_def)
  then show ?thesis by (simp add: feed_loop_Wait)
next
  case (SendData body)
  show ?thesis
  proof (cases "body = []")
    case False
    then have "butlast (send_bytes m) = data_block_header body @ butlast body"
      by (simp add: SendData send_data_bytes_def butlast_append)
    then show ?thesis
      using assms False feed_data_header [of body now wok n "butlast body"]
      by (simp add: SendData feed_loop_Wait parse_step_def body_step_def)
  next
    case True
    let ?len = "itoa (int (length body))"
    let ?l3 = "''X-WNI-Data-MD5'' @ '': '' @ md5_hex body @ nl # []"
    let ?l2 = "''Content-Length'' @ '': '' @ ?len @ nl # ?l3"
    let ?l1 = "''X-WNI-ID'' @ '': '' @ ''Data'' @ nl # ?l2"
    let ?f = "\<lambda>h b. feed_loop now wok (at_line n h b)"
    have "?f Map.empty (butlast (send_bytes m)) = ?f Map.empty ?l1"
      using True by (simp add: SendData send_data_bytes_def data_block_header_def butlast_append)
    also have "\<dots> = ?f [''X-WNI-ID'' \<mapsto> ''Data''] ?l2"
      by (rule feed_token_line) (simp_all add: token_def graphic_def)
    also have "\<dots> = ?f [''X-WNI-ID'' \<mapsto> ''Data'', ''Content-Length'' \<mapsto> ?len] ?l3"
      by (rule feed_token_line) (simp_all add: token_def [of "''Content-Length''"] graphic_def)
    also have "\<dots> = ?f (data_header body) []"
      unfolding data_header_def
      by (rule feed_token_line) (simp_all add: token_def [of "''X-WNI-Data-MD5''"] graphic_def)
    finally show ?thesis by (simp add: feed_loop_Wait)
  qed
qed

lemma send_bytes_neq_Nil [simp]: "send_bytes m \<noteq> []"
  by (cases m) (simp_all add: response_ok_bytes_def keep_alive_bytes_def send_data_bytes_def data_block_header_def)

lemma feed_calm:
  assumes "list_all send_fits ms"
  shows "calm_result (feed_loop now wok (at_line n Map.empty (stream_of ms)))"
  using feed_stream [OF assms, of now wok n "[]"] by (simp add: calm_result_def feed_loop_Wait)

lemma calm_loop_prefix:
  assumes "calm_result (feed_loop now wok (at_line n h (a @ b)))"
  shows "calm_result (feed_loop now' wok' (at_line n h a))"
proof -
  have "calm_result (feed_loop now True (at_line n h (a @ b)))"
    using assms feed_loop_calm_env [OF assms] by metis
  from feed_loop_calm_prefix [of now "at_line n h a" b now] this
  have c: "calm_result (feed_loop now True (at_line n h a))" by simp
  show ?thesis using feed_loop_calm_env [OF c] c by metis
qed

text \<open>A strict prefix of a message gives no frame, so a prefix of the stream gives the frames of the
  complete messages.\<close>

lemma feed_partial:
  assumes "send_fits m" "send_bytes m = a @ b" "b \<noteq> []"
  shows "rframes (feed_loop now wok (at_line n Map.empty a)) = []"
proof -
  have bl: "butlast (send_bytes m) = a @ butlast b" using assms(2,3) by (simp add: butlast_append)
  have c: "calm_result (feed_loop now wok (at_line n Map.empty a))"
    using feed_calm [of "[m]" now wok n] assms(1,2)
    by (intro calm_loop_prefix [of now wok n Map.empty a b]) (simp add: stream_of_def)
  have "feed_loop now wok (at_line n Map.empty (a @ butlast b)) = (let r1 = feed_loop now wok (at_line n Map.empty a);
      r2 = feed now wok (rstate r1) (butlast b) in r2\<lparr>rframes := rframes r1 @ rframes r2\<rparr>)"
    using feed_loop_more [OF c, of now wok "butlast b"] by simp
  then show ?thesis using feed_all_but_last [OF assms(1), of now wok n] bl by (simp add: Let_def)
qed

lemma feed_prefix_frames:
  assumes "list_all send_fits ms"
  shows "rframes (feed_loop now wok (at_line n Map.empty (take k (stream_of ms)))) = map sent_frame (complete k ms)"
  using assms
proof (induction ms arbitrary: n k)
  case Nil
  then show ?case by (simp add: stream_of_def feed_loop_Wait)
next
  case (Cons m ms)
  have fits: "send_fits m" "list_all send_fits ms" using Cons.prems by simp_all
  show ?case
  proof (cases "length (send_bytes m) \<le> k")
    case True
    then have "take k (stream_of (m # ms)) = send_bytes m @ take (k - length (send_bytes m)) (stream_of ms)"
      by (simp add: stream_of_def)
    then show ?thesis using Cons.IH [OF fits(2)] feed_send [OF fits(1)] True
      by (simp del: send_bytes.simps sent_frame.simps)
  next
    case False
    then have "take k (stream_of (m # ms)) = take k (send_bytes m)" by (simp add: stream_of_def)
    then show ?thesis
      using feed_partial [OF fits(1), of "take k (send_bytes m)" "drop k (send_bytes m)"] False
      by (simp del: send_bytes.simps)
  qed
qed

text \<open>The read loop on such a connection: whatever was cut off, the calls are those of the complete
  messages, and the loop ends with the error of the read.\<close>

lemma read_prefix:
  assumes "list_all send_fits ms" and "concat (map fst xs) = take k (stream_of ms)"
  shows "run h new_parser (map got xs @ [Read_err]) = (dispatch h (map sent_frame (complete k ms)), Some Run_read)"
proof -
  have new: "new_parser\<lparr>pbuf := pbuf new_parser @ d\<rparr> = at_line 0 Map.empty d" for d
    by (simp add: new_parser_def at_line_def)
  have "calm_result (feed_loop [] True (at_line 0 Map.empty (take k (stream_of ms) @ drop k (stream_of ms))))"
    using feed_calm [OF assms(1), of "[]" True 0] by simp
  from calm_loop_prefix [OF this] have calm: "calm_stream new_parser (concat (map fst xs))"
    by (simp add: calm_stream_def feed_def new assms(2))
  have frames: "snd (read_chunks feed_frames new_parser (map fst xs)) = map sent_frame (complete k ms)"
  proof (cases xs)
    case Nil
    then have "take k (stream_of ms) = []" using assms(2) by simp
    then have "map sent_frame (complete k ms) = []"
      using feed_prefix_frames [OF assms(1), of "[]" True 0 k] by (simp add: feed_loop_Wait)
    with Nil show ?thesis by simp
  next
    case (Cons x xs')
    then have "read_chunks feed_frames new_parser (map fst xs) = feed_frames new_parser (concat (map fst xs))"
      using wni.read_chunks_concat [of new_parser "fst x" "map fst xs'"] calm by simp
    then show ?thesis
      using feed_prefix_frames [OF assms(1), of "[]" True 0 k]
      by (simp add: feed_frames_def feed_def new assms(2) Let_def)
  qed
  show ?thesis
    using run_calm [OF calm, of h "[Read_err]"] frames by (simp add: case_prod_beta)
qed


section \<open>Pings between the blocks\<close>

text \<open>What a server writes up to the end of a ping's line.\<close>

lemma feed_before_ping:
  assumes "list_all send_fits ms"
  shows "feed_loop now wok (at_line n Map.empty (stream_of ms @ get_quirk)) =
    \<lparr>rstate = at_line (foldl size_after n ms) Map.empty get_quirk, rframes = map sent_frame ms, racks = [], rstatus = Ok\<rparr>"
  using feed_stream [OF assms, of now wok n get_quirk]
  by (simp add: feed_loop_Wait parse_step_Wait get_quirk_def deliver_def)


section \<open>Properties\<close>

text \<open>A broken connection loses at most the block that was under way: when the first \<open>k\<close> bytes of a
  server's messages arrive, in any pieces and with the break anywhere, also inside a header line or a
  body, the read loop has called the handlers for exactly the messages that are complete within the
  \<open>k\<close> bytes, never for a part of one, and ends with the error of the read.\<close>

lemma broken_connection_delivers:
  assumes "list_all send_fits ms" and "concat (map fst xs) = take k (stream_of ms)"
  shows "run h new_parser (map got xs @ [Read_err]) = (dispatch h (map sent_frame (complete k ms)), Some Run_read)"
  using assms by (rule read_prefix)

lemma broken_connection_delivers_example:
  "let ms = [SendKeepAlive, SendData ''abc'']; h = \<lparr>on_data = True, on_keep_alive = True, on_response = True\<rparr>
   in run h new_parser (map got [(take 7 (stream_of ms), ''t'', True), (drop 7 (take 60 (stream_of ms)), ''t'', True)] @ [Read_err])
        = ([OnKeepAlive], Some Run_read)"
proof -
  let ?ms = "[SendKeepAlive, SendData ''abc'']"
  let ?xs = "[(take 7 (stream_of ?ms), ''t'', True), (drop 7 (take 60 (stream_of ?ms)), ''t'', True)]"
  have len: "length (send_bytes SendKeepAlive) = 22" by (simp add: keep_alive_bytes_def)
  have long: "\<not> length (send_bytes (SendData ''abc'')) \<le> 38"
    by (simp add: send_data_bytes_def data_block_header_def)
  have c: "complete 60 ?ms = [SendKeepAlive]" using len long by (simp del: send_bytes.simps)
  have "take 7 (stream_of ?ms) = take 7 (take 60 (stream_of ?ms))" by simp
  then have cat: "concat (map fst ?xs) = take 60 (stream_of ?ms)"
    by (simp only: list.map concat.simps fst_conv append_Nil2 append_take_drop_id)
  show ?thesis
    using broken_connection_delivers [OF _ cat, of "\<lparr>on_data = True, on_keep_alive = True, on_response = True\<rparr>"]
    unfolding c Let_def by (simp add: dispatch_def)
qed

end
