(* ===== verification/Wnisim_Main.thy ===== *)
theory Wnisim_Main
  imports Wni_Session Eewlog
begin

text \<open>
  \<open>cmd/wnisim/main.go\<close>: the command around the simulator: which files are replayed, and the writes of
  \<open>handleConn\<close> in their order, each one call of \<open>conn.Write\<close>.  An outcome function says which writes
  succeed; whether an awaited acknowledgement came is only logged.
\<close>


section \<open>Files and flags\<close>

text \<open>A directory listing gives names and whether they are directories.\<close>

definition telegram_files :: "(string \<times> bool) list option \<Rightarrow> string \<Rightarrow> string list option" where
  "telegram_files listing dir =
     map_option (\<lambda>es. sort (map (\<lambda>(n, _). join_path [dir, n]) (filter (\<lambda>(_, is_dir). \<not> is_dir) es))) listing"

text \<open>The checks at the start of \<open>main\<close>: the exit status, or the files to serve.\<close>

definition sim_start :: "string \<Rightarrow> string \<Rightarrow> (string \<times> bool) list option \<Rightarrow> nat + string list" where
  "sim_start dir mode listing =
     (if dir = [] then Inl 1
      else if mode \<noteq> ''before'' \<and> mode \<noteq> ''coalesced'' then Inl 1
      else case telegram_files listing dir of
        None \<Rightarrow> Inl 1
      | Some files \<Rightarrow> if files = [] then Inl 1 else Inr files)"


section \<open>One connection\<close>

datatype sim_write =
    Sim_response
  | Sim_ping
  | Sim_data bytes
  | Sim_data_ping bytes
  | Sim_keep_alive

fun sim_bytes :: "sim_write \<Rightarrow> bytes" where
  "sim_bytes Sim_response = response_ok_bytes"
| "sim_bytes Sim_ping = get_ping_bytes"
| "sim_bytes (Sim_data body) = send_data_bytes body"
| "sim_bytes (Sim_data_ping body) = send_data_then_get_ping_bytes body"
| "sim_bytes Sim_keep_alive = keep_alive_bytes"

text \<open>The loop over the files, from write number \<open>n\<close> and file number \<open>i\<close> on: a file that cannot be read
  or is empty is skipped (it still counts), a failing write ends the connection.  The result is the writes,
  and whether the loop came to its end, after which \<open>handleConn\<close> blocks for good.\<close>

fun serve_files :: "string \<Rightarrow> int \<Rightarrow> (string \<Rightarrow> bytes option) \<Rightarrow> (nat \<Rightarrow> bool) \<Rightarrow> nat \<Rightarrow> nat \<Rightarrow> string list
    \<Rightarrow> sim_write list \<times> bool" where
  "serve_files mode every rd wok n i [] = ([], True)"
| "serve_files mode every rd wok n i (f # fs) =
     (let send_ping = (every > 0 \<and> int i mod every = 0)
      in case rd f of
           None \<Rightarrow> serve_files mode every rd wok n (Suc i) fs
         | Some body \<Rightarrow>
             if body = [] then serve_files mode every rd wok n (Suc i) fs
             else if send_ping \<and> mode = ''coalesced'' then
               (if \<not> wok n then ([], False)
                else apfst (Cons (Sim_data_ping body)) (serve_files mode every rd wok (Suc n) (Suc i) fs))
             else if send_ping then
               (if \<not> wok n then ([], False)
                else apfst (Cons Sim_ping) (if \<not> wok (Suc n) then ([], False)
                  else apfst (Cons (Sim_data body)) (serve_files mode every rd wok (Suc (Suc n)) (Suc i) fs)))
             else
               (if \<not> wok n then ([], False)
                else apfst (Cons (Sim_data body)) (serve_files mode every rd wok (Suc n) (Suc i) fs)))"

text \<open>\<open>handleConn\<close>: nothing is written unless the login arrives.\<close>

definition handle_conn :: "string \<Rightarrow> int \<Rightarrow> (string \<Rightarrow> bytes option) \<Rightarrow> (nat \<Rightarrow> bool) \<Rightarrow> login_result \<Rightarrow> string list
    \<Rightarrow> sim_write list \<times> bool" where
  "handle_conn mode every rd wok req files =
     (case req of
        Login _ \<Rightarrow> if \<not> wok 0 then ([], False) else apfst (Cons Sim_response) (serve_files mode every rd wok 1 0 files)
      | _ \<Rightarrow> ([], False))"


section \<open>The listener\<close>

text \<open>The loop of \<open>main\<close> over what \<open>Accept\<close> returns: the writes on each connection taken, and the exit status,
  \<open>None\<close> while the process runs on, in \<open>Accept\<close> or in a \<open>handleConn\<close> that does not return.\<close>

fun accept_loop :: "bool \<Rightarrow> ('c \<Rightarrow> sim_write list \<times> bool) \<Rightarrow> 'c option list \<Rightarrow> sim_write list list \<times> nat option" where
  "accept_loop once serve [] = ([], None)"
| "accept_loop once serve (None # cs) = ([], Some 1)"
| "accept_loop once serve (Some c # cs) =
     (let (ws, blocked) = serve c
      in if blocked then ([ws], None)
         else if once then ([ws], Some 0)
         else apfst (Cons ws) (accept_loop once serve cs))"

definition sim_main :: "string \<Rightarrow> string \<Rightarrow> (string \<times> bool) list option \<Rightarrow> bool \<Rightarrow> bool
    \<Rightarrow> (string list \<Rightarrow> 'c \<Rightarrow> sim_write list \<times> bool) \<Rightarrow> 'c option list \<Rightarrow> sim_write list list \<times> nat option" where
  "sim_main dir mode listing listen_ok once serve cs =
     (case sim_start dir mode listing of
        Inl st \<Rightarrow> ([], Some st)
      | Inr files \<Rightarrow> if \<not> listen_ok then ([], Some 1) else accept_loop once (serve files) cs)"

text \<open>The flag \<open>-once\<close> and reconnecting clients: a connection on which everything could be written is the
  last one served, and the process does not end.\<close>

lemma served_connection_is_last:
  assumes "\<forall>n. wok n"
  shows "accept_loop once (\<lambda>c. handle_conn mode every rd wok (Login (hdr c)) files) (Some c # cs) =
    ([fst (handle_conn mode every rd wok (Login (hdr c)) files)], None)"
proof -
  have "snd (serve_files mode every rd wok n i files)" for n i
    using assms by (induction files arbitrary: n i) (auto simp: Let_def split: option.split)
  then show ?thesis using assms by (simp add: handle_conn_def case_prod_beta)
qed


section \<open>What the client makes of it\<close>

text \<open>The messages of a write, and whether a ping follows them.\<close>

fun sim_messages :: "sim_write \<Rightarrow> server_send list \<times> bool" where
  "sim_messages Sim_response = ([SendResponseOK], False)"
| "sim_messages Sim_ping = ([], True)"
| "sim_messages (Sim_data body) = ([SendData body], False)"
| "sim_messages (Sim_data_ping body) = ([SendData body], True)"
| "sim_messages Sim_keep_alive = ([SendKeepAlive], False)"

lemma sim_bytes_messages:
  "sim_bytes w = stream_of (fst (sim_messages w)) @ (if snd (sim_messages w) then get_ping_bytes else [])"
  by (cases w) (simp_all add: stream_of_def send_data_then_get_ping_bytes_def send_data_bytes_def get_ping_bytes_def)

text \<open>The data blocks among the writes, and what every file in turn contributes.\<close>

fun sim_bodies :: "sim_write list \<Rightarrow> bytes list" where
  "sim_bodies [] = []"
| "sim_bodies (Sim_data body # ws) = body # sim_bodies ws"
| "sim_bodies (Sim_data_ping body # ws) = body # sim_bodies ws"
| "sim_bodies (_ # ws) = sim_bodies ws"

definition contents :: "(string \<Rightarrow> bytes option) \<Rightarrow> string list \<Rightarrow> bytes list" where
  "contents rd files = filter (\<lambda>b. b \<noteq> []) (List.map_filter rd files)"

lemma contents_simps [simp]:
  "contents rd [] = []"
  "contents rd (f # fs) = (case rd f of None \<Rightarrow> contents rd fs
     | Some b \<Rightarrow> if b = [] then contents rd fs else b # contents rd fs)"
  by (simp_all add: contents_def split: option.split)

lemma serve_bodies:
  "\<forall>n. wok n \<Longrightarrow> sim_bodies (fst (serve_files mode every rd wok n i files)) = contents rd files"
  by (induction mode every rd wok n i files rule: serve_files.induct)
    (auto simp: Let_def split: option.splits)

fun is_data :: "call \<Rightarrow> bool" where
  "is_data (OnData _ _) = True"
| "is_data _ = False"

lemma sim_data_calls:
  "on_data h \<Longrightarrow> filter is_data (dispatch h (map sent_frame (concat (map (fst \<circ> sim_messages) ws)))) =
     map (\<lambda>b. OnData (md5_hex b) b) (sim_bodies ws)"
  by (induction ws rule: sim_bodies.induct) (simp_all add: dispatch_def)

lemma sim_messages_fit:
  "\<forall>b \<in> set (sim_bodies ws). length b < 2 ^ 63 \<Longrightarrow> list_all send_fits (concat (map (fst \<circ> sim_messages) ws))"
  by (induction ws rule: sim_bodies.induct) simp_all


text \<open>\<open>AwaitAck\<close> on lines, and on those of the client's acknowledgement.\<close>

lemma await_ack_lines:
  "await_ack (map Line ls) = (if \<exists>l \<in> set ls. sublist ''200 OK'' l then Some True else None)"
  by (induction ls) simp_all

text \<open>The simulator recognises the client's acknowledgement.\<close>

lemma ack_recognised:
  assumes "clean_line now"
  shows "await_ack (map Line (read_lines (ack_msg now))) = Some True"
proof -
  let ?ls = "[''HTTP/1.0 200 OK'', ''Content-Type: application/fast-cast'', ''Server: FastCaster/1.0.0 (Unix)'',
    ''X-WNI-ID: Response'', ''X-WNI-Result: OK'', ''X-WNI-Protocol-Version: 2.1'', ''X-WNI-Time: '' @ now, []]"
  have "ack_msg now = concat (map (\<lambda>l. l @ [nl]) ?ls)" by (simp add: ack_msg_def)
  moreover have "read_lines (concat (map (\<lambda>l. l @ [nl]) ?ls)) = ?ls"
    using assms by (intro read_lines_request) (simp add: clean_line_def)
  moreover have "sublist ''200 OK'' ''HTTP/1.0 200 OK''" by code_simp
  ultimately show ?thesis by simp
qed

end
