(* ===== verification/Wnisim_Loop.thy ===== *)
theory Wnisim_Loop
  imports Wnisim_Main
begin

text \<open>
  The simulator and the client at work on one connection: \<open>handleConn\<close> of \<open>cmd/wnisim/main.go\<close> with its
  keep-alive goroutine, \<open>Run\<close> and \<open>Feed\<close> of \<open>internal/wni\<close>, and the bytes under way between them, as a step
  relation.  Every interleaving is a sequence of steps: a write of the simulator, a tick of the keep-alive
  timer, a read of the client of any length, the arrival of an acknowledgement.  The connection lasts, and
  no acknowledgement takes the five seconds after which the simulator would go on without it.
\<close>


section \<open>The system\<close>

record loop_state =
  l_todo :: "sim_write list"   \<comment> \<open>what \<open>handleConn\<close> has still to write\<close>
  l_wait :: bool               \<comment> \<open>it is in \<open>AwaitAck\<close>\<close>
  l_down :: bytes              \<comment> \<open>written by the simulator, not yet read\<close>
  l_client :: parser
  l_failed :: bool             \<comment> \<open>\<open>Run\<close> has returned\<close>
  l_calls :: "call list"
  l_up :: "string list"        \<comment> \<open>lines from the client, not yet consumed\<close>

definition loop_start :: "sim_write list \<Rightarrow> loop_state" where
  "loop_start ws = \<lparr>l_todo = ws, l_wait = False, l_down = [], l_client = new_parser, l_failed = False,
     l_calls = [], l_up = []\<rparr>"

text \<open>One turn of \<open>Run\<close> on the bytes \<open>d\<close> of a read, \<open>rest\<close> behind them.\<close>

definition client_read :: "handlers \<Rightarrow> string \<Rightarrow> bytes \<Rightarrow> bytes \<Rightarrow> loop_state \<Rightarrow> loop_state" where
  "client_read h now d rest s =
     (let r = feed now True (l_client s) d
      in s\<lparr>l_down := rest, l_client := rstate r, l_failed := rstatus r \<noteq> Ok,
          l_calls := l_calls s @ (if rstatus r = Panicked then [] else dispatch h (rframes r)),
          l_up := l_up s @ concat (map read_lines (racks r))\<rparr>)"

abbreviation ok_line :: "string \<Rightarrow> bool" where
  "ok_line l \<equiv> sublist ''200 OK'' l"

definition clock_ok :: "clock_time \<Rightarrow> bool" where
  "clock_ok t \<longleftrightarrow> 0 \<le> t_year t \<and> 0 \<le> t_month t \<and> 0 \<le> t_day t \<and> 0 \<le> t_hour t \<and> 0 \<le> t_minute t \<and> 0 \<le> t_second t
     \<and> 0 \<le> t_nanos t"

inductive loop_step :: "handlers \<Rightarrow> loop_state \<Rightarrow> loop_state \<Rightarrow> bool" for h :: handlers where
  sim_writes: "\<not> l_wait s \<Longrightarrow> l_todo s = w # ws \<Longrightarrow>
    loop_step h s (s\<lparr>l_todo := ws, l_wait := snd (sim_messages w), l_down := l_down s @ sim_bytes w\<rparr>)"
| timer_ticks: "Sim_response \<notin> set (l_todo s) \<Longrightarrow>
    loop_step h s (s\<lparr>l_down := l_down s @ sim_bytes Sim_keep_alive\<rparr>)"
| client_reads: "\<not> l_failed s \<Longrightarrow> l_down s = d @ rest \<Longrightarrow> d \<noteq> [] \<Longrightarrow> clock_ok t \<Longrightarrow>
    loop_step h s (client_read h (wni_timestamp t) d rest s)"
| ack_comes: "l_wait s \<Longrightarrow> l_up s = pre @ l # post \<Longrightarrow> list_all (\<lambda>l. \<not> ok_line l) pre \<Longrightarrow> ok_line l \<Longrightarrow>
    loop_step h s (s\<lparr>l_wait := False, l_up := post\<rparr>)"

definition idle :: "loop_state \<Rightarrow> bool" where
  "idle s \<longleftrightarrow> l_todo s = [] \<and> \<not> l_wait s \<and> l_down s = []"

text \<open>The data a file list amounts to.\<close>

definition data_of :: "bytes list \<Rightarrow> call list" where
  "data_of bs = map (\<lambda>b. OnData (md5_hex b) b) bs"


section \<open>What is left behind a ping\<close>

text \<open>A read that ends with a ping may hold the beginning of a keep-alive block behind it; \<open>Feed\<close> drops that,
  and what follows is the rest of the block: it gives no data and leaves the parser between two blocks.\<close>

definition quiet :: "frame list \<Rightarrow> bool" where
  "quiet fs \<longleftrightarrow> list_all (\<lambda>f. fkind f \<noteq> FrameData) fs"

lemma quiet_calls: "quiet fs \<Longrightarrow> filter is_data (dispatch h fs) = []"
proof (induction fs)
  case (Cons f fs)
  have "filter is_data (dispatch_frame h f) = []" using Cons.prems by (cases "fkind f") (simp_all add: quiet_def)
  then show ?case using Cons by (simp add: quiet_def dispatch_def del: dispatch_frame.simps)
qed simp

definition harmless :: "bytes \<Rightarrow> bool" where
  "harmless g \<longleftrightarrow> (\<forall>n. \<exists>fs. quiet fs \<and> (\<forall>now wok r.
     feed_loop now wok (at_line n Map.empty (g @ r)) = deliver fs (feed_loop now wok (at_line n Map.empty r))))"

lemma blank_quiet:
  assumes "map_get h ''X-WNI-ID'' \<noteq> ''Data''"
  shows "feed_loop now wok (at_line n h (nl # r)) =
    deliver [header_frame (map_get h ''X-WNI-ID'') h] (feed_loop now wok (at_line n Map.empty r))"
  using assms by (simp add: feed_deliver feed_blank_line block_end_def Let_def)

lemma quiet_header_frame [simp]: "quiet [header_frame wid h]"
  by (simp add: quiet_def header_frame_def)

lemma harmless_Nil: "harmless []"
  by (auto simp: harmless_def quiet_def intro!: exI [of _ "[]"])

lemma harmless_nl: "harmless [nl]"
  unfolding harmless_def
proof
  fix n
  let ?f = "header_frame (map_get Map.empty ''X-WNI-ID'') Map.empty"
  have "feed_loop now wok (at_line n Map.empty ([nl] @ r)) = deliver [?f] (feed_loop now wok (at_line n Map.empty r))" for now wok r
    using blank_quiet [of Map.empty now wok n r] by simp
  then show "\<exists>fs. quiet fs \<and> (\<forall>now wok r. feed_loop now wok (at_line n Map.empty ([nl] @ r)) =
      deliver fs (feed_loop now wok (at_line n Map.empty r)))"
    using quiet_header_frame by blast
qed

lemma harmless_append: "harmless a \<Longrightarrow> harmless b \<Longrightarrow> harmless (a @ b)"
  unfolding harmless_def
proof
  fix n
  assume a: "\<forall>n. \<exists>fs. quiet fs \<and> (\<forall>now wok r. feed_loop now wok (at_line n Map.empty (a @ r)) =
      deliver fs (feed_loop now wok (at_line n Map.empty r)))"
    and b: "\<forall>n. \<exists>fs. quiet fs \<and> (\<forall>now wok r. feed_loop now wok (at_line n Map.empty (b @ r)) =
      deliver fs (feed_loop now wok (at_line n Map.empty r)))"
  obtain fs gs where "quiet fs" "quiet gs"
    "\<forall>now wok r. feed_loop now wok (at_line n Map.empty (a @ r)) = deliver fs (feed_loop now wok (at_line n Map.empty r))"
    "\<forall>now wok r. feed_loop now wok (at_line n Map.empty (b @ r)) = deliver gs (feed_loop now wok (at_line n Map.empty r))"
    using a b by meson
  then have "quiet (fs @ gs) \<and> (\<forall>now wok r. feed_loop now wok (at_line n Map.empty ((a @ b) @ r)) =
      deliver (fs @ gs) (feed_loop now wok (at_line n Map.empty r)))"
    by (simp add: quiet_def)
  then show "\<exists>fs. quiet fs \<and> (\<forall>now wok r. feed_loop now wok (at_line n Map.empty ((a @ b) @ r)) =
      deliver fs (feed_loop now wok (at_line n Map.empty r)))" by blast
qed

text \<open>A line without a colon, and one with.\<close>

lemma harmless_other:
  assumes "plain_line l" "l \<noteq> []" "CHR '':'' \<notin> set l"
  shows "harmless (l @ [nl, nl])"
proof -
  have "harmless (l @ [nl])"
    unfolding harmless_def
    using feed_other_line [OF assms] by (intro allI exI [of _ "[]"]) (simp add: quiet_def)
  from harmless_append [OF this harmless_nl] show ?thesis by simp
qed

lemma harmless_header:
  assumes "plain_line (k @ CHR '':'' # v)" "CHR '':'' \<notin> set k" "trim_space v \<noteq> ''Data''"
  shows "harmless (k @ CHR '':'' # v @ [nl, nl])"
  unfolding harmless_def
proof
  fix n
  let ?h = "[trim_space k \<mapsto> trim_space v]"
  have w: "map_get ?h ''X-WNI-ID'' \<noteq> ''Data''" using assms(3) by (simp add: map_get_def)
  have "feed_loop now wok (at_line n Map.empty ((k @ CHR '':'' # v @ [nl, nl]) @ r)) =
      deliver [header_frame (map_get ?h ''X-WNI-ID'') ?h] (feed_loop now wok (at_line n Map.empty r))" for now wok r
    using feed_header_line [OF assms(1,2), of now wok n Map.empty "nl # r"] blank_quiet [OF w, of now wok n r] by simp
  then show "\<exists>fs. quiet fs \<and> (\<forall>now wok r. feed_loop now wok (at_line n Map.empty ((k @ CHR '':'' # v @ [nl, nl]) @ r)) =
      deliver fs (feed_loop now wok (at_line n Map.empty r)))"
    using quiet_header_frame by blast
qed

text \<open>What \<open>keep_alive_bytes\<close> may end with: nothing, its empty lines, or a part of its header line.\<close>

definition tail_ok :: "bytes \<Rightarrow> bool" where
  "tail_ok g \<longleftrightarrow> g = [] \<or> g = [nl] \<or> g = [nl, nl]
     \<or> (let l = take (length g - 2) g
        in g = l @ [nl, nl] \<and> l \<noteq> [] \<and> plain_line l
           \<and> (case cut_at CHR '':'' l of None \<Rightarrow> True | Some (k, v) \<Rightarrow> trim_space v \<noteq> ''Data''))"

lemma tail_ok_harmless: "tail_ok g \<Longrightarrow> harmless g"
proof -
  assume "tail_ok g"
  then consider "g = []" | "g = [nl]" | "g = [] @ [nl] @ [nl]"
    | l where "g = l @ [nl, nl]" "l \<noteq> []" "plain_line l"
        "case cut_at CHR '':'' l of None \<Rightarrow> True | Some (k, v) \<Rightarrow> trim_space v \<noteq> ''Data''"
    unfolding tail_ok_def Let_def by auto
  then show ?thesis
  proof cases
    case 3
    then show ?thesis using harmless_append [OF harmless_nl harmless_nl] by simp
  next
    case (4 l)
    show ?thesis
    proof (cases "cut_at CHR '':'' l")
      case None
      then show ?thesis using harmless_other [OF 4(3,2)] 4(1) by simp
    next
      case (Some kv)
      then obtain k v where kv: "cut_at CHR '':'' l = Some (k, v)" by (cases kv) auto
      then have "l = k @ CHR '':'' # v" "CHR '':'' \<notin> set k" by (simp_all add: cut_at_Some)
      then show ?thesis using harmless_header [of k v] 4 kv by simp
    qed
  qed (simp_all add: harmless_nl harmless_Nil)
qed

lemma keep_alive_harmless:
  assumes "suffix g keep_alive_bytes"
  shows "harmless g"
proof -
  have "list_all tail_ok (suffixes keep_alive_bytes)" by code_simp
  then have "tail_ok g" using assms by (simp add: list_all_iff in_set_suffixes)
  then show ?thesis by (rule tail_ok_harmless)
qed


section \<open>Reading in pieces\<close>

definition fed :: "int \<Rightarrow> bytes \<Rightarrow> feed_result" where
  "fed n x = feed_loop [] True (at_line n Map.empty x)"

lemma fed_Nil [simp]: "rstate (fed n []) = at_line n Map.empty []" "rframes (fed n []) = []"
  by (simp_all add: fed_def feed_loop_Wait)

lemma fed_prefix: "calm_result (fed n (a @ b)) \<Longrightarrow> calm_result (fed n a)"
  unfolding fed_def by (rule calm_loop_prefix)

text \<open>One more read within a calm stream.\<close>

lemma fed_next:
  fixes now
  assumes "calm_result (fed n (x @ d))"
  defines "r \<equiv> feed now True (rstate (fed n x)) d"
  shows "calm_result r" "rstate r = rstate (fed n (x @ d))" "rframes (fed n (x @ d)) = rframes (fed n x) @ rframes r"
proof -
  have "feed_loop now True (at_line n Map.empty (x @ d)) = fed n (x @ d)"
    using feed_loop_calm_env [OF assms(1) [unfolded fed_def]] by (simp add: fed_def)
  moreover have "feed_loop now True (at_line n Map.empty (x @ d)) = r\<lparr>rframes := rframes (fed n x) @ rframes r\<rparr>"
    using feed_loop_more [OF fed_prefix [OF assms(1), unfolded fed_def], of now True d]
    by (simp add: r_def fed_def Let_def)
  ultimately have "fed n (x @ d) = r\<lparr>rframes := rframes (fed n x) @ rframes r\<rparr>" by simp
  then show "calm_result r" "rstate r = rstate (fed n (x @ d))" "rframes (fed n (x @ d)) = rframes (fed n x) @ rframes r"
    using assms(1) by (simp_all add: calm_result_def)
qed

text \<open>A read that reaches the end of a ping's line.\<close>

lemma fed_ping:
  fixes now z
  assumes "calm_result (fed n (x @ d))" "rstate (fed n (x @ d)) = at_line m Map.empty get_quirk"
  defines "r \<equiv> feed now True (rstate (fed n x)) (d @ nl # z)"
  shows "rstate r = at_line m Map.empty []" "racks r = [ack_msg now]" "rstatus r = Ok"
    "rframes (fed n (x @ d)) = rframes (fed n x) @ rframes r"
proof -
  note f = fed_next [OF assms(1), of now]
  have q: "nl \<notin> set get_quirk" "sublist get_quirk (trim_right_cr get_quirk)" by code_simp+
  let ?r1 = "feed now True (rstate (fed n x)) d"
  have "feed now True (rstate ?r1) (nl # z) =
      \<lparr>rstate = at_line m Map.empty [], rframes = [], racks = [ack_msg now], rstatus = Ok\<rparr>"
    unfolding f(2) assms(2) using feed_quirk_line [OF q, of now m Map.empty z] by (simp add: feed_def)
  then have "r = \<lparr>rstate = at_line m Map.empty [], rframes = rframes ?r1, racks = [ack_msg now], rstatus = Ok\<rparr>"
    using calm_feed_append [OF f(1), of now True "nl # z"] by (simp add: r_def Let_def)
  then show "rstate r = at_line m Map.empty []" "racks r = [ack_msg now]" "rstatus r = Ok"
    "rframes (fed n (x @ d)) = rframes (fed n x) @ rframes r"
    using f(3) by simp_all
qed

text \<open>The streams of the simulator: the rest of a keep-alive block, messages, and a ping or nothing.\<close>

lemma fed_stream:
  assumes "suffix g keep_alive_bytes" "list_all send_fits ms"
  shows "calm_result (fed n (g @ stream_of ms))"
    "\<exists>fs. quiet fs \<and> rframes (fed n (g @ stream_of ms)) = fs @ map sent_frame ms"
    "calm_result (fed n (g @ stream_of ms @ get_quirk))"
    "rstate (fed n (g @ stream_of ms @ get_quirk)) = at_line (foldl size_after n ms) Map.empty get_quirk"
    "\<exists>fs. quiet fs \<and> rframes (fed n (g @ stream_of ms @ get_quirk)) = fs @ map sent_frame ms"
proof -
  obtain fs where fs: "quiet fs" "\<And>now wok r. feed_loop now wok (at_line n Map.empty (g @ r)) =
      deliver fs (feed_loop now wok (at_line n Map.empty r))"
    using keep_alive_harmless [OF assms(1)] unfolding harmless_def by meson
  have a: "fed n (g @ stream_of ms) = deliver (fs @ map sent_frame ms) (fed (foldl size_after n ms) [])"
    using feed_stream [OF assms(2), of "[]" True n "[]"] by (simp add: fed_def fs(2))
  then show "calm_result (fed n (g @ stream_of ms))"
    "\<exists>fs. quiet fs \<and> rframes (fed n (g @ stream_of ms)) = fs @ map sent_frame ms"
    using fs(1) by (auto simp: calm_result_def fed_def feed_loop_Wait)
  have "fed n (g @ stream_of ms @ get_quirk) = deliver fs
      \<lparr>rstate = at_line (foldl size_after n ms) Map.empty get_quirk, rframes = map sent_frame ms, racks = [], rstatus = Ok\<rparr>"
    using feed_before_ping [OF assms(2), of "[]" True n] by (simp add: fed_def fs(2))
  then show "calm_result (fed n (g @ stream_of ms @ get_quirk))"
    "rstate (fed n (g @ stream_of ms @ get_quirk)) = at_line (foldl size_after n ms) Map.empty get_quirk"
    "\<exists>fs. quiet fs \<and> rframes (fed n (g @ stream_of ms @ get_quirk)) = fs @ map sent_frame ms"
    using fs(1) by (auto simp: calm_result_def)
qed

lemma keep_alive_tail:
  "suffix r (stream_of (replicate k SendKeepAlive)) \<Longrightarrow>
     \<exists>g j. suffix g keep_alive_bytes \<and> r = g @ stream_of (replicate j SendKeepAlive)"
proof (induction k)
  case 0
  then have "r = [] @ stream_of (replicate 0 SendKeepAlive)" by (simp add: stream_of_def)
  moreover have "suffix [] keep_alive_bytes" by simp
  ultimately show ?case by blast
next
  case (Suc k)
  have "stream_of (replicate (Suc k) SendKeepAlive) = keep_alive_bytes @ stream_of (replicate k SendKeepAlive)"
    by (simp add: stream_of_def)
  then consider "suffix r (stream_of (replicate k SendKeepAlive))"
    | g where "r = g @ stream_of (replicate k SendKeepAlive)" "suffix g keep_alive_bytes"
    using Suc.prems by (auto simp: suffix_append)
  then show ?case using Suc.IH by cases blast+
qed

lemma stream_of_append [simp]: "stream_of (a @ b) = stream_of a @ stream_of b"
  by (simp add: stream_of_def)


section \<open>The acknowledgement's lines\<close>

definition stamp_char :: "char \<Rightarrow> bool" where
  "stamp_char c \<longleftrightarrow> is_digit c \<or> c \<in> {CHR ''/'', CHR '' '', CHR '':'', CHR ''.''}"

lemma fmt_0d_stamp: "0 \<le> z \<Longrightarrow> list_all stamp_char (fmt_0d w z)"
  using show_nat_digits [of "nat \<bar>z\<bar>"]
  by (auto simp: fmt_0d_def stamp_char_def list_all_iff Let_def is_digit_def)

lemma wni_timestamp_chars: "clock_ok t \<Longrightarrow> list_all stamp_char (wni_timestamp t)"
  by (simp add: wni_timestamp_def clock_ok_def fmt_0d_stamp pos_imp_zdiv_nonneg_iff) (simp add: stamp_char_def)

lemma ack_lines:
  assumes "clock_ok t"
  shows "length (filter ok_line (read_lines (ack_msg (wni_timestamp t)))) = 1"
proof -
  let ?now = "wni_timestamp t"
  let ?ls = "[''Content-Type: application/fast-cast'', ''Server: FastCaster/1.0.0 (Unix)'',
    ''X-WNI-ID: Response'', ''X-WNI-Result: OK'', ''X-WNI-Protocol-Version: 2.1'']"
  note c = wni_timestamp_chars [OF assms]
  have "nl \<notin> set ?now \<and> cr \<notin> set ?now"
    using c by (auto simp: list_all_iff stamp_char_def is_digit_def)
  moreover have "ack_msg ?now = concat (map (\<lambda>l. l @ [nl]) (''HTTP/1.0 200 OK'' # ?ls @ [''X-WNI-Time: '' @ ?now, []]))"
    by (simp add: ack_msg_def)
  ultimately have ls: "read_lines (ack_msg ?now) = ''HTTP/1.0 200 OK'' # ?ls @ [''X-WNI-Time: '' @ ?now, []]"
    using read_lines_request [of "''HTTP/1.0 200 OK'' # ?ls @ [''X-WNI-Time: '' @ ?now, []]"] by simp
  have "\<not> ok_line (''X-WNI-Time: '' @ ?now)"
  proof
    assume "ok_line (''X-WNI-Time: '' @ ?now)"
    then have "CHR ''K'' \<in> set (''X-WNI-Time: '' @ ?now)" using set_mono_sublist by fastforce
    then show False using c by (auto simp: list_all_iff stamp_char_def is_digit_def)
  qed
  moreover have "ok_line ''HTTP/1.0 200 OK''" "filter ok_line ?ls = []" "\<not> ok_line []" by code_simp+
  ultimately show ?thesis unfolding ls filter.simps filter_append if_True if_False by (simp only: if_True if_False) simp
qed

end
