(* ===== verification/Wnisim_Delivery.thy ===== *)
theory Wnisim_Delivery
  imports Wnisim_Loop
begin

text \<open>
  What the simulator and the client make of a session, over every interleaving of the step relation of the
  theory Wnisim_Loop: an invariant, that the two sides cannot block each other, and the delivery of the files.
\<close>


section \<open>The invariant\<close>

text \<open>Of a connection on which \<open>all\<close> is to be written: the client has read \<open>x\<close> since it was last between
  two blocks with an empty buffer (at the start, or when a ping emptied it), \<open>ms\<close> is what was written since
  then before any further ping, and \<open>base\<close> the data handed over until then.  Either nothing but these
  messages is on its way, or a ping follows them, not read to its end, and possibly keep-alives behind it.\<close>

definition data_calls :: "call list \<Rightarrow> call list" where
  "data_calls cs = filter is_data cs"

lemma data_calls_append [simp]: "data_calls (a @ b) = data_calls a @ data_calls b" "data_calls [] = []"
  by (simp_all add: data_calls_def)

definition calm_part :: "handlers \<Rightarrow> sim_write list \<Rightarrow> loop_state \<Rightarrow> int \<Rightarrow> bytes \<Rightarrow> server_send list \<Rightarrow> bytes \<Rightarrow> bool" where
  "calm_part h done s n g ms x \<longleftrightarrow> suffix g keep_alive_bytes \<and> list_all send_fits ms \<and> l_client s = rstate (fed n x)
     \<and> (\<exists>base. data_calls (l_calls s) = base @ data_calls (dispatch h (rframes (fed n x)))
          \<and> base @ data_calls (dispatch h (map sent_frame ms)) = data_of (sim_bodies done))"

definition synced :: "loop_state \<Rightarrow> bytes \<Rightarrow> server_send list \<Rightarrow> bytes \<Rightarrow> bool" where
  "synced s g ms x \<longleftrightarrow> x @ l_down s = g @ stream_of ms
     \<and> length (filter ok_line (l_up s)) = (if l_wait s then 1 else 0)"

definition pinged :: "loop_state \<Rightarrow> bytes \<Rightarrow> server_send list \<Rightarrow> bytes \<Rightarrow> bool" where
  "pinged s g ms x \<longleftrightarrow> (\<exists>k. x @ l_down s = (g @ stream_of ms @ get_quirk) @ nl # stream_of (replicate k SendKeepAlive))
     \<and> length x \<le> length (g @ stream_of ms @ get_quirk) \<and> l_wait s \<and> filter ok_line (l_up s) = []"

lemma pingedI:
  "x @ l_down s = (g @ stream_of ms @ get_quirk) @ nl # stream_of (replicate k SendKeepAlive) \<Longrightarrow>
     length x \<le> length (g @ stream_of ms @ get_quirk) \<Longrightarrow> l_wait s \<Longrightarrow> filter ok_line (l_up s) = [] \<Longrightarrow> pinged s g ms x"
  unfolding pinged_def by blast

definition loop_inv :: "handlers \<Rightarrow> sim_write list \<Rightarrow> loop_state \<Rightarrow> bool" where
  "loop_inv h all s \<longleftrightarrow> \<not> l_failed s \<and> (\<exists>done n g ms x. all = done @ l_todo s
     \<and> calm_part h done s n g ms x \<and> (synced s g ms x \<or> pinged s g ms x))"

lemma loop_invI:
  "\<not> l_failed s \<Longrightarrow> all = done @ l_todo s \<Longrightarrow> calm_part h done s n g ms x \<Longrightarrow> synced s g ms x \<or> pinged s g ms x
     \<Longrightarrow> loop_inv h all s"
  unfolding loop_inv_def by blast

lemma inv_start: "loop_inv h ws (loop_start ws)"
proof (rule loop_invI [of _ _ "[]" _ 0 "[]" "[]" "[]"])
  show "calm_part h [] (loop_start ws) 0 [] [] []"
    by (simp add: calm_part_def loop_start_def data_of_def new_parser_def at_line_def)
qed (simp_all add: loop_start_def synced_def stream_of_def)

lemma sim_bodies_append [simp]: "sim_bodies (a @ b) = sim_bodies a @ sim_bodies b"
  by (induction a rule: sim_bodies.induct) simp_all

lemma write_data:
  assumes "on_data h"
  shows "data_calls (dispatch h (map sent_frame (fst (sim_messages w)))) = data_of (sim_bodies [w])"
  using sim_data_calls [OF assms, of "[w]"] by (simp add: data_calls_def data_of_def)

lemma keep_alives_no_data: "data_calls (dispatch h (map sent_frame (replicate j SendKeepAlive))) = []"
  using quiet_calls [of "map sent_frame (replicate j SendKeepAlive)" h]
  by (simp add: data_calls_def quiet_def list_all_iff)

lemma inv_write:
  assumes "loop_inv h all s" "on_data h" "\<forall>b \<in> set (sim_bodies all). length b < 2 ^ 63"
    and "\<not> l_wait s" "l_todo s = w # ws"
  shows "loop_inv h all (s\<lparr>l_todo := ws, l_wait := snd (sim_messages w), l_down := l_down s @ sim_bytes w\<rparr>)"
proof -
  let ?s = "s\<lparr>l_todo := ws, l_wait := snd (sim_messages w), l_down := l_down s @ sim_bytes w\<rparr>"
  obtain dn n g ms x where i: "\<not> l_failed s" "all = dn @ l_todo s" "calm_part h dn s n g ms x" "synced s g ms x"
    using assms(1,4) by (auto simp: loop_inv_def pinged_def)
  let ?ms = "ms @ fst (sim_messages w)"
  have "\<forall>b \<in> set (sim_bodies [w]). length b < 2 ^ 63" using assms(3,5) i(2) by (cases w) auto
  then have "list_all send_fits (concat (map (fst \<circ> sim_messages) [w]))" by (rule sim_messages_fit)
  then have c: "calm_part h (dn @ [w]) ?s n g ?ms x"
    using i(3) write_data [OF assms(2), of w] by (auto simp: calm_part_def data_of_def)
  have x: "x @ l_down s = g @ stream_of ms" and u: "filter ok_line (l_up s) = []"
    using i(4) assms(4) by (simp_all add: synced_def)
  have "synced ?s g ?ms x \<or> pinged ?s g ?ms x"
  proof (cases "snd (sim_messages w)")
    case False
    then show ?thesis using x u by (simp add: synced_def sim_bytes_messages flip: append_assoc)
  next
    case True
    have l: "length x \<le> length (g @ stream_of ms)" using arg_cong [OF x, of length] by simp
    have "x @ l_down ?s = (g @ stream_of ?ms @ get_quirk) @ nl # stream_of (replicate 0 SendKeepAlive)"
      using True x sim_bytes_messages [of w] by (simp add: get_ping_bytes_def get_quirk_def stream_of_def flip: append_assoc)
    then have "pinged ?s g ?ms x" by (rule pingedI) (use True u l in simp_all)
    then show ?thesis ..
  qed
  then show ?thesis
    by (intro loop_invI [of _ _ "dn @ [w]" _ n g ?ms x]) (use i(1,2) c assms(5) in auto)
qed

lemma inv_tick:
  assumes "loop_inv h all s"
  shows "loop_inv h all (s\<lparr>l_down := l_down s @ sim_bytes Sim_keep_alive\<rparr>)"
proof -
  let ?s = "s\<lparr>l_down := l_down s @ sim_bytes Sim_keep_alive\<rparr>"
  obtain dn n g ms x where i: "\<not> l_failed s" "all = dn @ l_todo s" "calm_part h dn s n g ms x"
    "synced s g ms x \<or> pinged s g ms x" using assms by (auto simp: loop_inv_def)
  show ?thesis
  proof (cases "synced s g ms x")
    case True
    have "calm_part h dn ?s n g (ms @ [SendKeepAlive]) x"
      using i(3) keep_alives_no_data [of h 1] by (auto simp: calm_part_def)
    moreover have "synced ?s g (ms @ [SendKeepAlive]) x"
      using True by (simp add: synced_def stream_of_def flip: append_assoc)
    ultimately show ?thesis
      by (intro loop_invI [of _ _ dn _ n g "ms @ [SendKeepAlive]" x]) (use i(1,2) in auto)
  next
    case False
    then obtain k where k: "x @ l_down s = (g @ stream_of ms @ get_quirk) @ nl # stream_of (replicate k SendKeepAlive)"
      and p: "length x \<le> length (g @ stream_of ms @ get_quirk)" "l_wait s" "filter ok_line (l_up s) = []"
      using i(4) by (auto simp: pinged_def)
    have "replicate (Suc k) SendKeepAlive = replicate k SendKeepAlive @ [SendKeepAlive]" by (simp add: replicate_append_same)
    then have "stream_of (replicate (Suc k) SendKeepAlive) = stream_of (replicate k SendKeepAlive) @ keep_alive_bytes"
      by (simp only: stream_of_append) (simp add: stream_of_def)
    then have "x @ l_down ?s = (g @ stream_of ms @ get_quirk) @ nl # stream_of (replicate (Suc k) SendKeepAlive)"
      using k by (simp flip: append_assoc)
    then have "pinged ?s g ms x" by (rule pingedI) (use p in simp_all)
    moreover have "calm_part h dn ?s n g ms x" using i(3) by (simp add: calm_part_def)
    ultimately show ?thesis by (intro loop_invI [of _ _ dn _ n g ms x]) (use i(1,2) in auto)
  qed
qed

text \<open>A read within a calm stream.\<close>

lemma read_calm:
  fixes t rest
  assumes "calm_part h dn s n g ms x" "calm_result (fed n (x @ d))"
  defines "s' \<equiv> client_read h (wni_timestamp t) d rest s"
  shows "calm_part h dn s' n g ms (x @ d)" "\<not> l_failed s'" "l_up s' = l_up s"
    "l_todo s' = l_todo s \<and> l_wait s' = l_wait s \<and> l_down s' = rest"
proof -
  let ?r = "feed (wni_timestamp t) True (rstate (fed n x)) d"
  have c: "l_client s = rstate (fed n x)" using assms(1) by (simp add: calm_part_def)
  note f = fed_next [OF assms(2), of "wni_timestamp t"]
  have ok: "rstatus ?r = Ok" "racks ?r = []" using f(1) by (simp_all add: calm_result_def)
  show "\<not> l_failed s'" "l_up s' = l_up s" "l_todo s' = l_todo s \<and> l_wait s' = l_wait s \<and> l_down s' = rest"
    using ok by (simp_all add: s'_def client_read_def c Let_def)
  show "calm_part h dn s' n g ms (x @ d)"
    using assms(1) ok f(2,3) by (auto simp: calm_part_def s'_def client_read_def Let_def)
qed

lemma inv_read:
  assumes "loop_inv h all s" "l_down s = d @ rest" "clock_ok t"
  shows "loop_inv h all (client_read h (wni_timestamp t) d rest s)"
proof -
  let ?s = "client_read h (wni_timestamp t) d rest s"
  obtain dn n g ms x where i: "\<not> l_failed s" "all = dn @ l_todo s" "calm_part h dn s n g ms x"
    "synced s g ms x \<or> pinged s g ms x" using assms(1) by (auto simp: loop_inv_def)
  have gm: "suffix g keep_alive_bytes" "list_all send_fits ms" using i(3) by (simp_all add: calm_part_def)
  note st = fed_stream [OF gm, of n]
  show ?thesis
  proof (cases "synced s g ms x")
    case True
    then have x: "(x @ d) @ rest = g @ stream_of ms" using assms(2) by (simp add: synced_def)
    have "calm_result (fed n (x @ d))" using st(1) fed_prefix [of n "x @ d" rest] unfolding x by blast
    note r = read_calm [OF i(3) this, of t rest]
    have "synced ?s g ms (x @ d)" using True x r(3,4) by (simp add: synced_def)
    then show ?thesis by (intro loop_invI [OF r(2) _ r(1)]) (use i(2) r(4) in auto)
  next
    case False
    let ?y = "g @ stream_of ms @ get_quirk"
    from False obtain k where k: "x @ d @ rest = ?y @ nl # stream_of (replicate k SendKeepAlive)"
      and p: "length x \<le> length ?y" "l_wait s" "filter ok_line (l_up s) = []"
      using i(4) assms(2) by (auto simp: pinged_def)
    show ?thesis
    proof (cases "length (x @ d) \<le> length ?y")
      case True
      then obtain z where y: "?y = (x @ d) @ z"
        using k by (metis append_assoc append_eq_append_conv_if append_take_drop_id)
      then have "calm_result (fed n (x @ d))" using st(3) fed_prefix [of n "x @ d" z] by simp
      note r = read_calm [OF i(3) this, of t rest]
      have "pinged ?s g ms (x @ d)" using k p True r(3,4) unfolding pinged_def by auto
      then show ?thesis by (intro loop_invI [OF r(2) _ r(1)]) (use i(2) r(4) in auto)
    next
      case long: False
      obtain d1 where y: "?y = x @ d1" using k p(1)
        by (metis append_eq_append_conv_if append_take_drop_id)
      then have dr: "d @ rest = d1 @ nl # stream_of (replicate k SendKeepAlive)" using k by simp
      have "length d1 < length d" using long y by (metis add_less_cancel_left length_append linorder_not_le)
      then obtain c z where d: "d = d1 @ c # z" using dr
        by (metis append_eq_append_conv_if append_take_drop_id less_imp_le_nat list.exhaust append_Nil2 less_irrefl)
      then have z: "c = nl" "z @ rest = stream_of (replicate k SendKeepAlive)" using dr by simp_all
      then have "suffix rest (stream_of (replicate k SendKeepAlive))" by (metis suffixI)
      then obtain g' j where g': "suffix g' keep_alive_bytes" "rest = g' @ stream_of (replicate j SendKeepAlive)"
        using keep_alive_tail by blast
      let ?m = "foldl size_after n ms" and ?r = "feed (wni_timestamp t) True (rstate (fed n x)) d"
      have "calm_result (fed n (x @ d1))" "rstate (fed n (x @ d1)) = at_line ?m Map.empty get_quirk"
        using st(3,4) y by simp_all
      note r = fed_ping [OF this, of "wni_timestamp t" z, folded z(1) d]
      obtain base fs where b: "data_calls (l_calls s) = base @ data_calls (dispatch h (rframes (fed n x)))"
        "base @ data_calls (dispatch h (map sent_frame ms)) = data_of (sim_bodies dn)"
        "quiet fs" "rframes (fed n (x @ d1)) = fs @ map sent_frame ms"
        using i(3) st(5) y unfolding calm_part_def by auto
      have c: "l_client s = rstate (fed n x)" using i(3) by (simp add: calm_part_def)
      have "data_calls (dispatch h fs) = []" using quiet_calls [OF b(3)] by (simp add: data_calls_def)
      then have "data_calls (dispatch h (rframes (fed n x))) @ data_calls (dispatch h (rframes ?r)) =
          data_calls (dispatch h (map sent_frame ms))"
        using b(4) unfolding r(4) by (metis append_Nil data_calls_append(1) dispatch_append)
      then have "data_calls (l_calls ?s) = data_of (sim_bodies dn)"
        using b(1,2) r(3) c by (simp add: client_read_def Let_def)
      then have cp: "calm_part h dn ?s ?m g' (replicate j SendKeepAlive) []"
        using g'(1) r(1) c keep_alives_no_data [of h j] unfolding calm_part_def
        by (simp add: client_read_def Let_def list_all_iff)
      have "synced ?s g' (replicate j SendKeepAlive) []"
        using g'(2) p(2,3) r(2) c ack_lines [OF assms(3)] by (simp add: synced_def client_read_def Let_def)
      then show ?thesis
        by (intro loop_invI [OF _ _ cp]) (use i(2) r(3) c in \<open>auto simp: client_read_def Let_def\<close>)
    qed
  qed
qed

lemma inv_ack:
  assumes "loop_inv h all s" "l_wait s" "l_up s = pre @ l # post" "list_all (\<lambda>l. \<not> ok_line l) pre" "ok_line l"
  shows "loop_inv h all (s\<lparr>l_wait := False, l_up := post\<rparr>)"
proof -
  obtain dn n g ms x where i: "\<not> l_failed s" "all = dn @ l_todo s" "calm_part h dn s n g ms x"
    "synced s g ms x \<or> pinged s g ms x" using assms(1) by (auto simp: loop_inv_def)
  have "filter ok_line (l_up s) = l # filter ok_line post"
    using assms(3-5) by (auto simp: list_all_iff filter_empty_conv)
  then have "synced s g ms x" "filter ok_line post = []" using i(4) assms(2) by (auto simp: pinged_def synced_def)
  then have "synced (s\<lparr>l_wait := False, l_up := post\<rparr>) g ms x" by (simp add: synced_def)
  moreover have "calm_part h dn (s\<lparr>l_wait := False, l_up := post\<rparr>) n g ms x" using i(3) by (simp add: calm_part_def)
  ultimately show ?thesis by (intro loop_invI [of _ _ dn _ n g ms x]) (use i(1,2) in auto)
qed

lemma inv_reachable:
  assumes "(loop_step h)\<^sup>*\<^sup>* (loop_start ws) s" "on_data h" "\<forall>b \<in> set (sim_bodies ws). length b < 2 ^ 63"
  shows "loop_inv h ws s"
  using assms(1)
proof (induction rule: rtranclp_induct)
  case base
  show ?case by (rule inv_start)
next
  case (step s s')
  from step(2,3) show ?case
    by (cases rule: loop_step.cases) (auto intro: inv_write [OF _ assms(2,3)] inv_tick [simplified] inv_read inv_ack)
qed


section \<open>What has been handed over\<close>

lemma fed_frames_prefix: "calm_result (fed n (x @ d)) \<Longrightarrow> prefix (rframes (fed n x)) (rframes (fed n (x @ d)))"
  using fed_next(3) [of n x d] by (metis prefixI)

lemma data_prefix: "prefix fs gs \<Longrightarrow> prefix (data_calls (dispatch h fs)) (data_calls (dispatch h gs))"
  by (auto simp: prefix_def)

lemma stream_data:
  assumes "suffix g keep_alive_bytes" "list_all send_fits ms"
  shows "data_calls (dispatch h (rframes (fed n (g @ stream_of ms)))) = data_calls (dispatch h (map sent_frame ms))"
    "data_calls (dispatch h (rframes (fed n (g @ stream_of ms @ get_quirk)))) = data_calls (dispatch h (map sent_frame ms))"
proof -
  have q: "data_calls (dispatch h (fs @ map sent_frame ms)) = data_calls (dispatch h (map sent_frame ms))" if "quiet fs" for fs
    using quiet_calls [OF that, of h] unfolding dispatch_append data_calls_append by (simp add: data_calls_def)
  from fed_stream(2) [OF assms, of n] obtain fs where "quiet fs" "rframes (fed n (g @ stream_of ms)) = fs @ map sent_frame ms"
    by blast
  with q show "data_calls (dispatch h (rframes (fed n (g @ stream_of ms)))) = data_calls (dispatch h (map sent_frame ms))"
    by simp
  from fed_stream(5) [OF assms, of n] obtain fs where "quiet fs"
    "rframes (fed n (g @ stream_of ms @ get_quirk)) = fs @ map sent_frame ms" by blast
  with q show "data_calls (dispatch h (rframes (fed n (g @ stream_of ms @ get_quirk)))) = data_calls (dispatch h (map sent_frame ms))"
    by simp
qed

lemma inv_data:
  assumes "loop_inv h all s"
  shows "prefix (data_calls (l_calls s)) (data_of (sim_bodies all))"
    and "idle s \<Longrightarrow> data_calls (l_calls s) = data_of (sim_bodies all)"
proof -
  obtain dn n g ms x where i: "all = dn @ l_todo s" "calm_part h dn s n g ms x" "synced s g ms x \<or> pinged s g ms x"
    using assms by (auto simp: loop_inv_def)
  then obtain base where b: "data_calls (l_calls s) = base @ data_calls (dispatch h (rframes (fed n x)))"
    "base @ data_calls (dispatch h (map sent_frame ms)) = data_of (sim_bodies dn)"
    and gm: "suffix g keep_alive_bytes" "list_all send_fits ms" by (auto simp: calm_part_def)
  note st = fed_stream [OF gm, of n] and data = stream_data [OF gm, of h n]
  have all: "data_of (sim_bodies all) = data_of (sim_bodies dn) @ data_of (sim_bodies (l_todo s))"
    by (simp add: i(1) data_of_def)
  have "prefix (data_calls (dispatch h (rframes (fed n x)))) (data_calls (dispatch h (map sent_frame ms)))"
    using i(3)
  proof
    assume "synced s g ms x"
    then have "x @ l_down s = g @ stream_of ms" by (simp add: synced_def)
    then have "prefix (rframes (fed n x)) (rframes (fed n (g @ stream_of ms)))"
      using fed_frames_prefix [of n x "l_down s"] st(1) by simp
    from data_prefix [OF this, of h] show ?thesis unfolding data(1) .
  next
    assume "pinged s g ms x"
    then obtain k where k: "x @ l_down s = (g @ stream_of ms @ get_quirk) @ nl # stream_of (replicate k SendKeepAlive)"
      and "length x \<le> length (g @ stream_of ms @ get_quirk)" by (auto simp: pinged_def)
    then obtain z where "g @ stream_of ms @ get_quirk = x @ z"
      by (metis append_eq_append_conv_if append_take_drop_id)
    then have "prefix (rframes (fed n x)) (rframes (fed n (g @ stream_of ms @ get_quirk)))"
      using fed_frames_prefix [of n x z] st(3) by simp
    from data_prefix [OF this, of h] show ?thesis unfolding data(2) .
  qed
  then show "prefix (data_calls (l_calls s)) (data_of (sim_bodies all))"
    unfolding all b(1) b(2) [symmetric] by (simp add: prefix_append prefix_prefix)
  assume idle: "idle s"
  then have "synced s g ms x" using i(3) by (auto simp: idle_def pinged_def)
  then have "x = g @ stream_of ms" using idle by (simp add: synced_def idle_def)
  then have "data_calls (dispatch h (rframes (fed n x))) = data_calls (dispatch h (map sent_frame ms))"
    by (simp only: data(1))
  then show "data_calls (l_calls s) = data_of (sim_bodies all)"
    using b idle by (simp add: i(1) idle_def)
qed


section \<open>Progress\<close>

definition example_clock :: clock_time where
  "example_clock = \<lparr>t_year = 2011, t_month = 3, t_day = 11, t_hour = 14, t_minute = 46, t_second = 18, t_nanos = 0\<rparr>"

lemma loop_progress:
  assumes "loop_inv h all s" "\<not> idle s"
  shows "\<exists>s'. loop_step h s s' \<and>
    (s', s) \<in> measures [length \<circ> l_todo, \<lambda>s. if l_wait s then 1 else 0, length \<circ> l_down]"
proof -
  have clock: "clock_ok example_clock" by (simp add: clock_ok_def example_clock_def)
  have read: ?thesis if "l_down s \<noteq> []"
  proof -
    have "loop_step h s (client_read h (wni_timestamp example_clock) (l_down s) [] s)"
      using assms(1) that clock by (intro client_reads) (simp_all add: loop_inv_def)
    then show ?thesis using that by (intro exI conjI) (auto simp: client_read_def Let_def)
  qed
  show ?thesis
  proof (cases "l_down s = []")
    case True
    then obtain g ms x where sy: "synced s g ms x"
      using assms(1) by (auto simp: loop_inv_def pinged_def)
    show ?thesis
    proof (cases "l_wait s")
      case W: True
      then have "filter ok_line (l_up s) \<noteq> []" using sy by (auto simp: synced_def)
      then have "\<exists>l \<in> set (l_up s). ok_line l" by (simp add: filter_empty_conv)
      then obtain pre l post where "l_up s = pre @ l # post" "ok_line l" "\<forall>l \<in> set pre. \<not> ok_line l"
        using split_list_first_prop [of "l_up s" ok_line] by blast
      then have "loop_step h s (s\<lparr>l_wait := False, l_up := post\<rparr>)"
        using W by (intro ack_comes) (simp_all add: list_all_iff)
      then show ?thesis using W by (intro exI conjI) auto
    next
      case False
      then obtain w ws where "l_todo s = w # ws" using assms(2) True by (cases "l_todo s") (auto simp: idle_def)
      from sim_writes [OF False this] this show ?thesis by (intro exI conjI) auto
    qed
  qed (rule read)
qed

lemma loop_finishes:
  assumes "on_data h" "\<forall>b \<in> set (sim_bodies ws). length b < 2 ^ 63"
  shows "(loop_step h)\<^sup>*\<^sup>* (loop_start ws) s \<Longrightarrow> \<exists>s'. (loop_step h)\<^sup>*\<^sup>* s s' \<and> idle s'"
proof (induction s rule: wf_induct_rule [OF wf_measures [of "[length \<circ> l_todo, \<lambda>s. if l_wait s then 1 else 0, length \<circ> l_down]"]])
  case (1 s)
  show ?case
  proof (cases "idle s")
    case False
    from loop_progress [OF inv_reachable [OF 1(2) assms] this] obtain s' where
      s': "loop_step h s s'" "(s', s) \<in> measures [length \<circ> l_todo, \<lambda>s. if l_wait s then 1 else 0, length \<circ> l_down]" by blast
    have "(loop_step h)\<^sup>*\<^sup>* (loop_start ws) s'" using 1(2) s'(1) by (rule rtranclp.rtrancl_into_rtrancl)
    from 1(1) [OF s'(2) this] s'(1) show ?thesis by (meson converse_rtranclp_into_rtranclp)
  qed blast
qed


section \<open>Properties\<close>

text \<open>A read of the client is one turn of \<open>Run\<close>.\<close>

lemma client_read_is_run:
  "run h (l_client s) [Got d now True] = (cs, err) \<Longrightarrow>
     l_calls (client_read h now d rest s) = l_calls s @ cs \<and> (l_failed (client_read h now d rest s) \<longleftrightarrow> err \<noteq> None)"
  by (auto simp: client_read_def Let_def split: status.splits)



end
