(* ===== verification/Utf8.thy ===== *)
theory Utf8
  imports Prelude
begin

text \<open>
  UTF-8 as Go reads it (\<open>unicode/utf8\<close>): runes at the head of a text, and the encodings they come from.
  The payload of Slack messages and the quoted strings of the table generator rest on it.
\<close>


section \<open>Runes\<close>

text \<open>\<open>utf8.DecodeRune\<close>: the code point at the head of a text and its length; U+FFFD of length 1 for a
  byte at which no encoding starts.\<close>

definition byte_in :: "nat \<Rightarrow> nat \<Rightarrow> char \<Rightarrow> bool" where
  "byte_in lo hi c \<longleftrightarrow> lo \<le> of_char c \<and> of_char c \<le> hi"

abbreviation tail_byte :: "char \<Rightarrow> bool" where
  "tail_byte \<equiv> byte_in 0x80 0xBF"

definition bits_of :: "nat \<Rightarrow> char \<Rightarrow> nat" where
  "bits_of base c = of_char c - base"

fun decode_rune :: "bytes \<Rightarrow> nat \<times> nat" where
  "decode_rune [] = (0xFFFD, 0)"
| "decode_rune (c # s) =
     (if byte_in 0 0x7F c then (of_char c, 1)
      else if byte_in 0xC2 0xDF c then
        (case s of c1 # _ \<Rightarrow> if tail_byte c1 then (bits_of 0xC0 c * 64 + bits_of 0x80 c1, 2) else (0xFFFD, 1)
         | _ \<Rightarrow> (0xFFFD, 1))
      else if byte_in 0xE0 0xEF c then
        (case s of c1 # c2 # _ \<Rightarrow>
           if byte_in (if c = CHR 0xE0 then 0xA0 else 0x80) (if c = CHR 0xED then 0x9F else 0xBF) c1 \<and> tail_byte c2
           then ((bits_of 0xE0 c * 64 + bits_of 0x80 c1) * 64 + bits_of 0x80 c2, 3) else (0xFFFD, 1)
         | _ \<Rightarrow> (0xFFFD, 1))
      else if byte_in 0xF0 0xF4 c then
        (case s of c1 # c2 # c3 # _ \<Rightarrow>
           if byte_in (if c = CHR 0xF0 then 0x90 else 0x80) (if c = CHR 0xF4 then 0x8F else 0xBF) c1
              \<and> tail_byte c2 \<and> tail_byte c3
           then (((bits_of 0xF0 c * 64 + bits_of 0x80 c1) * 64 + bits_of 0x80 c2) * 64 + bits_of 0x80 c3, 4)
           else (0xFFFD, 1)
         | _ \<Rightarrow> (0xFFFD, 1))
      else (0xFFFD, 1))"

declare decode_rune.simps [simp del]

lemma decode_rune_size: "s \<noteq> [] \<Longrightarrow> 0 < snd (decode_rune s) \<and> snd (decode_rune s) \<le> length s"
  by (cases s) (auto simp: decode_rune.simps split: list.split)

text \<open>The runes of a text, as a loop with \<open>range\<close> meets them.\<close>

function runes :: "bytes \<Rightarrow> nat list" where
  "runes s = (if s = [] then [] else fst (decode_rune s) # runes (drop (snd (decode_rune s)) s))"
  by pat_completeness auto
termination
  by (relation "measure length") (use decode_rune_size in \<open>force+\<close>)

declare runes.simps [simp del]


section \<open>UTF-8\<close>

definition scalar :: "nat \<Rightarrow> bool" where
  "scalar k \<longleftrightarrow> k < 0xD800 \<or> 0xDFFF < k \<and> k < 0x110000"

lemma byte_inE:
  assumes "byte_in lo hi c"
  obtains n where "c = char_of n" "lo \<le> n" "n \<le> hi" "n \<le> 255" "of_char c = n"
  using that [of "of_char c"] assms nat_of_char_less_256 [of c] by (simp add: byte_in_def less_Suc_eq_le)

lemma char_of_nat: "of_char c = n \<Longrightarrow> c = char_of (n :: nat)"
  by auto

text \<open>Encodings of two, three and four bytes.\<close>

lemma byte_bits:
  assumes "byte_in lo hi c" "base \<le> lo"
  obtains q where "c = char_of (base + q)" "bits_of base c = q" "lo - base \<le> q" "q \<le> hi - base"
proof -
  obtain n where n: "c = char_of n" "lo \<le> n" "n \<le> hi" "of_char c = n" using assms(1) by (rule byte_inE)
  show ?thesis by (rule that [of "n - base"]) (use n assms(2) in \<open>auto simp: bits_of_def\<close>)
qed

lemma lead_bytes:
  "char_of (0xE0 :: nat) = CHR 0xE0" "char_of (0xED :: nat) = CHR 0xED" "char_of (0xF0 :: nat) = CHR 0xF0"
  "char_of (0xF4 :: nat) = CHR 0xF4"
  by code_simp+

lemma base64: "(q :: nat) \<le> 63 \<Longrightarrow> (p * 64 + q) div 64 = p \<and> (p * 64 + q) mod 64 = q"
  by simp

lemma two_bytes:
  assumes "byte_in 0xC2 0xDF c" "tail_byte c1"
  defines "k \<equiv> bits_of 0xC0 c * 64 + bits_of 0x80 c1"
  shows "utf8_rune k = [c, c1] \<and> scalar k"
proof -
  obtain p where p: "c = char_of (0xC0 + p)" "bits_of 0xC0 c = p" "2 \<le> p" "p \<le> 31"
    using byte_bits [OF assms(1), of "0xC0"] by auto
  obtain q where q: "c1 = char_of (0x80 + q)" "bits_of 0x80 c1 = q" "q \<le> 63"
    using byte_bits [OF assms(2), of "0x80"] by auto
  have k: "k = p * 64 + q" by (simp only: k_def p(2) q(2))
  have d: "k div 64 = p" "k mod 64 = q" using q(3) by (simp_all add: k)
  have "0x80 \<le> k" "k < 0x800" using p q by (simp_all add: k)
  then show ?thesis using p(1) q(1) d by (simp add: utf8_rune_def scalar_def)
qed

lemma three_bytes:
  assumes "byte_in 0xE0 0xEF c" "tail_byte c2"
    and "byte_in (if c = CHR 0xE0 then 0xA0 else 0x80) (if c = CHR 0xED then 0x9F else 0xBF) c1"
  defines "k \<equiv> (bits_of 0xE0 c * 64 + bits_of 0x80 c1) * 64 + bits_of 0x80 c2"
  shows "utf8_rune k = [c, c1, c2] \<and> scalar k"
proof -
  obtain p where p: "c = char_of (0xE0 + p)" "bits_of 0xE0 c = p" "p \<le> 15"
    using byte_bits [OF assms(1), of "0xE0"] by auto
  have lo: "0x80 \<le> (if c = CHR 0xE0 then 0xA0 else 0x80 :: nat)" by simp
  obtain q where q: "c1 = char_of (0x80 + q)" "bits_of 0x80 c1 = q"
    and b: "(if c = CHR 0xE0 then 0xA0 else 0x80) - 0x80 \<le> q" "q \<le> (if c = CHR 0xED then 0x9F else 0xBF) - 0x80"
    by (rule byte_bits [OF assms(3) lo])
  have q3: "q \<le> 63" "c = CHR 0xE0 \<Longrightarrow> 32 \<le> q" "c = CHR 0xED \<Longrightarrow> q \<le> 31" using b by (auto split: if_splits)
  obtain r where r: "c2 = char_of (0x80 + r)" "bits_of 0x80 c2 = r" "r \<le> 63"
    using byte_bits [OF assms(2), of "0x80"] by auto
  have k: "k = (p * 64 + q) * 64 + r" by (simp only: k_def p(2) q(2) r(2))
  have d: "k div 64 = p * 64 + q" "k mod 64 = r"
    using base64 [of r "p * 64 + q"] r(3) by (simp_all only: k)
  have e: "k div 4096 = p" "k div 64 mod 64 = q"
    using d(1) q3(1) by (simp_all flip: div_mult2_eq [of k 64 64, simplified])
  have p0: "p = 0 \<Longrightarrow> 32 \<le> q" "p = 13 \<Longrightarrow> q \<le> 31" using q3(2,3) p(1) by (auto simp: lead_bytes)
  have "0x800 \<le> k" using p0(1) by (cases "p = 0") (auto simp: k)
  moreover have "k < 0x10000" using p q3(1) r by (simp add: k)
  moreover have "k < 0xD800 \<or> 0xDFFF < k"
    using p0(2) q3(1) r(3) by (cases "p < 13"; cases "p = 13") (auto simp: k)
  ultimately show ?thesis using p(1) q(1) r(1) d e by (simp add: utf8_rune_def scalar_def)
qed

lemma four_bytes:
  assumes "byte_in 0xF0 0xF4 c" "tail_byte c2" "tail_byte c3"
    and "byte_in (if c = CHR 0xF0 then 0x90 else 0x80) (if c = CHR 0xF4 then 0x8F else 0xBF) c1"
  defines "k \<equiv> ((bits_of 0xF0 c * 64 + bits_of 0x80 c1) * 64 + bits_of 0x80 c2) * 64 + bits_of 0x80 c3"
  shows "utf8_rune k = [c, c1, c2, c3] \<and> scalar k"
proof -
  obtain p where p: "c = char_of (0xF0 + p)" "bits_of 0xF0 c = p" "p \<le> 4"
    using byte_bits [OF assms(1), of "0xF0"] by auto
  have lo: "0x80 \<le> (if c = CHR 0xF0 then 0x90 else 0x80 :: nat)" by simp
  obtain q where q: "c1 = char_of (0x80 + q)" "bits_of 0x80 c1 = q"
    and b: "(if c = CHR 0xF0 then 0x90 else 0x80) - 0x80 \<le> q" "q \<le> (if c = CHR 0xF4 then 0x8F else 0xBF) - 0x80"
    by (rule byte_bits [OF assms(4) lo])
  have q3: "q \<le> 63" "c = CHR 0xF0 \<Longrightarrow> 16 \<le> q" "c = CHR 0xF4 \<Longrightarrow> q \<le> 15" using b by (auto split: if_splits)
  obtain r where r: "c2 = char_of (0x80 + r)" "bits_of 0x80 c2 = r" "r \<le> 63"
    using byte_bits [OF assms(2), of "0x80"] by auto
  obtain u where u: "c3 = char_of (0x80 + u)" "bits_of 0x80 c3 = u" "u \<le> 63"
    using byte_bits [OF assms(3), of "0x80"] by auto
  have k: "k = ((p * 64 + q) * 64 + r) * 64 + u" by (simp only: k_def p(2) q(2) r(2) u(2))
  have d: "k div 64 = (p * 64 + q) * 64 + r" "k mod 64 = u"
    using base64 [of u "(p * 64 + q) * 64 + r"] u(3) by (simp_all only: k)
  have e: "k div 4096 = p * 64 + q" "k div 64 mod 64 = r"
    using base64 [of r "p * 64 + q"] r(3) unfolding d(1) [symmetric] by (simp_all flip: div_mult2_eq [of k 64 64, simplified])
  have f: "k div 262144 = p" "k div 4096 mod 64 = q"
    using e(1) q3(1) by (simp_all flip: div_mult2_eq [of k 4096 64, simplified])
  have p0: "p = 0 \<Longrightarrow> 16 \<le> q" "p = 4 \<Longrightarrow> q \<le> 15" using q3(2,3) p(1) by (auto simp: lead_bytes)
  have "0x10000 \<le> k" using p0(1) by (cases "p = 0") (auto simp: k)
  moreover have "k < 0x110000" using p0(2) p(3) q3(1) r(3) u(3) by (cases "p = 4") (auto simp: k)
  ultimately show ?thesis using p(1) q(1) r(1) u(1) d e f by (simp add: utf8_rune_def scalar_def)
qed

text \<open>What is decoded is the encoding of a scalar value, or one byte that begins none.\<close>

lemma decode_rune_sound:
  assumes "s \<noteq> []"
  shows "(decode_rune s = (0xFFFD, 1) \<and> \<not> byte_in 0 0x7F (hd s))
    \<or> (\<exists>k. decode_rune s = (k, length (utf8_rune k)) \<and> take (length (utf8_rune k)) s = utf8_rune k \<and> scalar k)"
proof -
  obtain c r where s: "s = c # r" using assms by (cases s) auto
  show ?thesis
  proof (cases "byte_in 0 0x7F c")
    case True
    then obtain n :: nat where "c = char_of n" "n \<le> 0x7F" "of_char c = n" by (auto elim: byte_inE)
    then show ?thesis using True by (auto simp: s decode_rune.simps utf8_rune_def scalar_def)
  next
    case F1: False
    show ?thesis
    proof (cases "byte_in 0xC2 0xDF c")
      case True
      show ?thesis
      proof (cases "\<exists>c1 t. r = c1 # t \<and> tail_byte c1")
        case T: True
        then obtain c1 t where r: "r = c1 # t" "tail_byte c1" by blast
        from two_bytes [OF True r(2)] show ?thesis using True F1 r by (simp add: s decode_rune.simps)
      qed (use True F1 in \<open>auto simp: s decode_rune.simps split: list.split\<close>)
    next
      case F2: False
      show ?thesis
      proof (cases "byte_in 0xE0 0xEF c")
        case True
        let ?ok = "\<lambda>c1 c2. byte_in (if c = CHR 0xE0 then 0xA0 else 0x80) (if c = CHR 0xED then 0x9F else 0xBF) c1 \<and> tail_byte c2"
        show ?thesis
        proof (cases "\<exists>c1 c2 t. r = c1 # c2 # t \<and> ?ok c1 c2")
          case T: True
          then obtain c1 c2 t where r: "r = c1 # c2 # t" "tail_byte c2"
            and c1: "byte_in (if c = CHR 0xE0 then 0xA0 else 0x80) (if c = CHR 0xED then 0x9F else 0xBF) c1" by blast
          from three_bytes [OF True r(2) c1] show ?thesis using True F1 F2 r c1 by (simp add: s decode_rune.simps)
        next
          case F: False
          have "decode_rune s = (0xFFFD, 1)"
            using F True F1 F2 by (cases r rule: list.exhaust; cases "tl r") (auto simp: s decode_rune.simps)
          then show ?thesis using F1 by (simp add: s)
        qed
      next
        case F3: False
        show ?thesis
        proof (cases "byte_in 0xF0 0xF4 c")
          case True
          let ?ok = "\<lambda>c1 c2 c3. byte_in (if c = CHR 0xF0 then 0x90 else 0x80) (if c = CHR 0xF4 then 0x8F else 0xBF) c1
            \<and> tail_byte c2 \<and> tail_byte c3"
          show ?thesis
          proof (cases "\<exists>c1 c2 c3 t. r = c1 # c2 # c3 # t \<and> ?ok c1 c2 c3")
            case T: True
            then obtain c1 c2 c3 t where r: "r = c1 # c2 # c3 # t" "tail_byte c2" "tail_byte c3"
              and c1: "byte_in (if c = CHR 0xF0 then 0x90 else 0x80) (if c = CHR 0xF4 then 0x8F else 0xBF) c1" by blast
            from four_bytes [OF True r(2,3) c1] show ?thesis using True F1 F2 F3 r c1 by (simp add: s decode_rune.simps)
          next
            case F: False
            have "decode_rune s = (0xFFFD, 1)"
              using F True F1 F2 F3 by (cases r; cases "tl r"; cases "tl (tl r)") (auto simp: s decode_rune.simps)
            then show ?thesis using F1 by (simp add: s)
          qed
        qed (use F1 F2 F3 in \<open>simp add: s decode_rune.simps\<close>)
      qed
    qed
  qed
qed

text \<open>And every scalar value is decoded from its encoding.\<close>

lemma byte_of:
  assumes "n \<le> 255"
  shows "(of_char (char_of n) :: nat) = n" "byte_in lo hi (char_of n) \<longleftrightarrow> lo \<le> n \<and> n \<le> hi"
    "bits_of base (char_of n) = n - base" "char_of n = c \<longleftrightarrow> n = of_char c"
proof -
  show o: "(of_char (char_of n) :: nat) = n" using assms by simp
  show "byte_in lo hi (char_of n) \<longleftrightarrow> lo \<le> n \<and> n \<le> hi" "bits_of base (char_of n) = n - base"
    by (simp_all only: byte_in_def bits_of_def o)
  show "char_of n = c \<longleftrightarrow> n = of_char c" using o by auto
qed

lemma decode_utf8_rune:
  assumes "scalar k"
  shows "decode_rune (utf8_rune k @ s) = (k, length (utf8_rune k))"
proof -
  define q0 q1 q2 where "q0 = k mod 64" and "q1 = k div 64 mod 64" and "q2 = k div 4096 mod 64"
  have q: "q0 \<le> 63" "q1 \<le> 63" "q2 \<le> 63" by (simp_all add: q0_def q1_def q2_def less_Suc_eq_le [symmetric])
  have k1: "k = k div 64 * 64 + q0" by (simp add: q0_def)
  have e: "k div 4096 = k div 64 div 64" "k div 262144 = k div 4096 div 64" by (simp_all flip: div_mult2_eq)
  have k2: "k div 64 = k div 4096 * 64 + q1" by (simp only: q1_def e(1) div_mult_mod_eq)
  have k3: "k div 4096 = k div 262144 * 64 + q2" by (simp only: q2_def e(2) div_mult_mod_eq)
  have bound: "k < 0x110000" using assms by (auto simp: scalar_def)
  consider "k < 0x80" | "0x80 \<le> k" "k < 0x800" | "0x800 \<le> k" "k < 0x10000" | "0x10000 \<le> k" "k < 0x110000"
    using bound by (meson linorder_not_le)
  then show ?thesis
  proof cases
    case 1
    then show ?thesis by (simp add: utf8_rune_def decode_rune.simps byte_of)
  next
    case 2
    then have "2 \<le> k div 64" "k div 64 \<le> 31" by auto
    then show ?thesis using 2 q k1 by (simp add: utf8_rune_def decode_rune.simps byte_of flip: q0_def)
  next
    case 3
    define p where "p = k div 4096"
    have p: "p \<le> 15" "p = 0 \<Longrightarrow> 32 \<le> q1" "p = 13 \<Longrightarrow> q1 \<le> 31"
      using 3 assms k1 k2 q by (auto simp: p_def scalar_def)
    have k: "k = (p * 64 + q1) * 64 + q0" using k1 k2 by (simp add: p_def)
    have "utf8_rune k = [char_of (0xE0 + p), char_of (0x80 + q1), char_of (0x80 + q0)]"
      using 3 by (simp add: utf8_rune_def p_def q0_def q1_def)
    then show ?thesis using p q by (simp add: decode_rune.simps byte_of) (simp add: k)
  next
    case 4
    define p where "p = k div 262144"
    have p: "p \<le> 4" "p = 0 \<Longrightarrow> 16 \<le> q2" "p = 4 \<Longrightarrow> q2 \<le> 15"
      using 4 k1 k2 k3 q by (auto simp: p_def)
    have k: "k = ((p * 64 + q2) * 64 + q1) * 64 + q0" using k1 k2 k3 by (simp add: p_def)
    have "utf8_rune k = [char_of (0xF0 + p), char_of (0x80 + q2), char_of (0x80 + q1), char_of (0x80 + q0)]"
      using 4 by (simp add: utf8_rune_def p_def q0_def q1_def q2_def)
    then show ?thesis using p q by (simp add: decode_rune.simps byte_of) (simp add: k)
  qed
qed

lemma runes_utf8: "list_all scalar ks \<Longrightarrow> runes (utf8 ks) = ks"
proof (induction ks)
  case (Cons k ks)
  have ne: "utf8_rune k \<noteq> []" by (simp add: utf8_rune_def)
  show ?case
    using Cons ne decode_utf8_rune [of k "utf8 ks"]
    by (subst runes.simps) (simp add: utf8_def)
qed (simp add: utf8_def runes.simps)

lemma high_bytes: "scalar k \<Longrightarrow> 0x80 \<le> k \<Longrightarrow> list_all (byte_in 0x80 0xFF) (utf8_rune k)"
proof -
  assume k: "scalar k" "0x80 \<le> k"
  then have "k < 0x800 \<Longrightarrow> k div 64 \<le> 31" "k < 0x10000 \<Longrightarrow> k div 4096 \<le> 15" "k div 262144 \<le> 4"
    by (auto simp: scalar_def)
  moreover have "x mod 64 \<le> 63" for x :: nat by (simp add: less_Suc_eq_le [symmetric])
  then have "byte_in 0x80 0xFF (char_of (0x80 + x mod 64))" for x :: nat by (simp add: byte_of)
  ultimately show ?thesis using k by (auto simp: utf8_rune_def byte_of)
qed

text \<open>Text that is UTF-8.\<close>

definition texty :: "bytes \<Rightarrow> bool" where
  "texty s \<longleftrightarrow> (\<exists>ks. s = utf8 ks \<and> list_all scalar ks)"

lemma texty_runes: "texty s \<Longrightarrow> utf8 (runes s) = s"
  by (auto simp: texty_def runes_utf8)

lemma texty_utf8 [simp]: "list_all scalar ks \<Longrightarrow> texty (utf8 ks)"
  by (auto simp: texty_def)

lemma texty_append [simp]: "texty s \<Longrightarrow> texty t \<Longrightarrow> texty (s @ t)"
proof -
  assume "texty s" "texty t"
  then obtain ks js where "s = utf8 ks" "t = utf8 js" "list_all scalar (ks @ js)" by (auto simp: texty_def)
  then have "s @ t = utf8 (ks @ js)" "list_all scalar (ks @ js)" by (simp_all add: utf8_def)
  then show ?thesis unfolding texty_def by blast
qed

lemma texty_Nil [simp]: "texty []"
  using texty_utf8 [of "[]"] by (simp add: utf8_def)

lemma texty_Cons [simp]: "byte_in 0 0x7F c \<Longrightarrow> texty s \<Longrightarrow> texty (c # s)"
proof -
  assume c: "byte_in 0 0x7F c" and s: "texty s"
  have "[c] = utf8 [of_char c]" "scalar (of_char c)"
    using c by (simp_all add: utf8_def utf8_rune_def byte_in_def scalar_def)
  then have "texty [c]" by (metis list.pred_inject texty_utf8)
  then show ?thesis using texty_append [OF _ s] by fastforce
qed

lemma texty_digits: "list_all is_digit s \<Longrightarrow> texty s"
  by (induction s) (auto simp: is_digit_def byte_in_def)

lemma texty_itoa [simp]: "texty (itoa z)" "texty (fmt_1f z)"
  by (simp_all add: itoa_def fmt_1f_def texty_digits show_nat_digits byte_in_def)


section \<open>Hexadecimal digits\<close>

abbreviation backslash :: char where "backslash \<equiv> CHR 0x5C"

definition hex_digit :: "nat \<Rightarrow> char" where
  "hex_digit d = (if d < 10 then char_of (48 + d) else char_of (87 + d))"

definition hex_val :: "char \<Rightarrow> nat option" where
  "hex_val c =
     (if byte_in 48 57 c then Some (of_char c - 48)
      else if byte_in 97 102 c then Some (of_char c - 87)
      else if byte_in 65 70 c then Some (of_char c - 55)
      else None)"

lemma hex_val_digit: "d < 16 \<Longrightarrow> hex_val (hex_digit d) = Some d"
  by (auto simp: hex_val_def hex_digit_def byte_of)

end
