(* ===== verification/Go_Quote.thy ===== *)
theory Go_Quote
  imports Utf8
begin

text \<open>
  String literals of Go: \<open>strconv.Quote\<close>, which \<open>Sprintf\<close>'s \<open>%q\<close> calls, and what the Go compiler reads from an
  interpreted string literal.  Which runes above U+00FF \<open>unicode.IsPrint\<close> calls printable depends on the
  Unicode version and is a parameter.
\<close>


section \<open>Quoting\<close>

abbreviation dquote :: char where "dquote \<equiv> CHR 0x22"

definition is_print :: "(nat \<Rightarrow> bool) \<Rightarrow> nat \<Rightarrow> bool" where
  "is_print high k =
     (if k \<le> 0xFF then 0x20 \<le> k \<and> k < 0x7F \<or> 0xA1 \<le> k \<and> k \<noteq> 0xAD else high k)"

text \<open>The last \<open>w\<close> hexadecimal digits of a number.\<close>

fun hex_digits :: "nat \<Rightarrow> nat \<Rightarrow> string" where
  "hex_digits 0 k = []"
| "hex_digits (Suc w) k = hex_digits w (k div 16) @ [hex_digit (k mod 16)]"

definition letter_escapes :: "(nat \<times> char) list" where
  "letter_escapes = [(7, CHR ''a''), (8, CHR ''b''), (12, CHR ''f''), (10, CHR ''n''), (13, CHR ''r''), (9, CHR ''t''), (11, CHR ''v'')]"

text \<open>A rune that is not printable.\<close>

definition escape_rune :: "nat \<Rightarrow> string" where
  "escape_rune k =
     (case map_of letter_escapes k of
        Some c \<Rightarrow> [backslash, c]
      | None \<Rightarrow>
          if k < 0x20 \<or> k = 0x7F then backslash # CHR ''x'' # hex_digits 2 k
          else if k < 0x10000 then backslash # CHR ''u'' # hex_digits 4 k
          else backslash # CHR ''U'' # hex_digits 8 k)"

text \<open>What is written for the rune at the head of a text.\<close>

definition quote_rune :: "(nat \<Rightarrow> bool) \<Rightarrow> bytes \<Rightarrow> bytes" where
  "quote_rune high s =
     (let (k, n) = decode_rune s
      in if n = 1 \<and> k = 0xFFFD then backslash # CHR ''x'' # hex_digits 2 (of_char (hd s))
         else if k = 0x22 \<or> k = 0x5C then [backslash, char_of k]
         else if is_print high k then utf8_rune k
         else escape_rune k)"

function quote_body :: "(nat \<Rightarrow> bool) \<Rightarrow> bytes \<Rightarrow> bytes" where
  "quote_body high s = (if s = [] then [] else quote_rune high s @ quote_body high (drop (snd (decode_rune s)) s))"
  by pat_completeness auto
termination
  by (relation "measure (length o snd)") (use decode_rune_size in \<open>force+\<close>)

declare quote_body.simps [simp del]

definition go_quote :: "(nat \<Rightarrow> bool) \<Rightarrow> bytes \<Rightarrow> bytes" where
  "go_quote high s = dquote # quote_body high s @ [dquote]"


section \<open>Reading a literal\<close>

text \<open>A number of \<open>w\<close> hexadecimal digits, and the rest.\<close>

fun read_hex :: "nat \<Rightarrow> nat \<Rightarrow> bytes \<Rightarrow> (nat \<times> bytes) option" where
  "read_hex 0 k s = Some (k, s)"
| "read_hex (Suc w) k [] = None"
| "read_hex (Suc w) k (c # s) = (case hex_val c of None \<Rightarrow> None | Some d \<Rightarrow> read_hex w (k * 16 + d) s)"

text \<open>What an escape stands for, from behind its backslash.  Octal escapes, which are never written, are not
  read.\<close>

definition read_escape_seq :: "bytes \<Rightarrow> (bytes \<times> bytes) option" where
  "read_escape_seq s =
     (case s of
        [] \<Rightarrow> None
      | e # s1 \<Rightarrow>
          if e = CHR ''x'' then map_option (apfst (\<lambda>k. [char_of k])) (read_hex 2 0 s1)
          else if e = CHR ''u'' \<or> e = CHR ''U'' then
            (case read_hex (if e = CHR ''u'' then 4 else 8) 0 s1 of
               None \<Rightarrow> None
             | Some (k, s2) \<Rightarrow> if scalar k then Some (utf8_rune k, s2) else None)
          else if e = dquote \<or> e = backslash then Some ([e], s1)
          else map_option (\<lambda>k. ([char_of k], s1)) (map_of (map prod.swap letter_escapes) e))"

lemma read_hex_length: "read_hex w k s = Some (n, t) \<Longrightarrow> length t \<le> length s"
  by (induction w k s rule: read_hex.induct) (auto split: option.splits)

lemma read_escape_length: "read_escape_seq s = Some (b, t) \<Longrightarrow> length t < Suc (length s)"
  by (auto simp: read_escape_seq_def less_Suc_eq_le dest!: read_hex_length split: list.splits if_splits option.splits)

text \<open>The literal from behind its opening quote: its value, and what follows the closing quote.\<close>

function read_literal_body :: "bytes \<Rightarrow> (bytes \<times> bytes) option" where
  "read_literal_body s =
     (case s of
        [] \<Rightarrow> None
      | c # s1 \<Rightarrow>
          if c = dquote then Some ([], s1)
          else if c = nl then None
          else if c = backslash then
            (case read_escape_seq s1 of
               None \<Rightarrow> None
             | Some (b, s2) \<Rightarrow> map_option (apfst (append b)) (read_literal_body s2))
          else map_option (apfst (Cons c)) (read_literal_body s1))"
  by pat_completeness auto
termination
  by (relation "measure length") (use read_escape_length in \<open>force+\<close>)

declare read_literal_body.simps [simp del]

definition read_go_literal :: "bytes \<Rightarrow> (bytes \<times> bytes) option" where
  "read_go_literal s = (case s of [] \<Rightarrow> None | c # s1 \<Rightarrow> if c = dquote then read_literal_body s1 else None)"


section \<open>What is quoted is read back\<close>

lemma length_hex_digits [simp]: "length (hex_digits w k) = w"
  by (induction w k rule: hex_digits.induct) simp_all

lemma read_hex_append: "length h = w \<Longrightarrow> read_hex w k (h @ s) =
    (case read_hex w k h of None \<Rightarrow> None | Some (n, _) \<Rightarrow> Some (n, s))"
  by (induction w k h arbitrary: rule: read_hex.induct) (auto split: option.split)

lemma read_hex_snoc: "read_hex w k h = Some (n, []) \<Longrightarrow> d < 16 \<Longrightarrow>
    read_hex (Suc w) k (h @ [hex_digit d]) = Some (n * 16 + d, [])"
  by (induction w k h rule: read_hex.induct) (auto simp: hex_val_digit split: option.splits)

lemma read_hex_digits: "k < 16 ^ w \<Longrightarrow> read_hex w 0 (hex_digits w k) = Some (k, [])"
proof (induction w k rule: hex_digits.induct)
  case (2 w k)
  then have "k div 16 < 16 ^ w" by (simp add: less_mult_imp_div_less mult.commute)
  from read_hex_snoc [OF 2(1) [OF this], of "k mod 16"] show ?case by simp
qed simp

lemma read_hex_quoted: "k < 16 ^ w \<Longrightarrow> read_hex w 0 (hex_digits w k @ s) = Some (k, s)"
  by (simp add: read_hex_append read_hex_digits)

lemma letter_escape:
  assumes "map_of letter_escapes k = Some c"
  shows "map_of (map prod.swap letter_escapes) c = Some k \<and> k \<le> 0x20
    \<and> c \<notin> {CHR ''x'', CHR ''u'', CHR ''U'', dquote, backslash}"
  using assms by (auto simp: letter_escapes_def split: if_splits)

text \<open>An escape is read as the bytes it stands for.\<close>

lemma read_escaped:
  assumes "read_escape_seq (e @ x) = Some (b, x)"
  shows "read_literal_body (backslash # e @ x) = map_option (apfst (append b)) (read_literal_body x)"
  using assms by (subst read_literal_body.simps) simp

lemma escape_rune_read:
  assumes "scalar k"
  shows "\<exists>e. escape_rune k = backslash # e \<and> read_escape_seq (e @ x) = Some (utf8_rune k, x)"
proof (cases "map_of letter_escapes k")
  case (Some c)
  note l = letter_escape [OF Some]
  then have "utf8_rune k = [char_of k]" by (simp add: utf8_rune_def)
  then show ?thesis using l Some by (simp add: escape_rune_def read_escape_seq_def)
next
  case None
  consider "k < 0x20 \<or> k = 0x7F" | "\<not> (k < 0x20 \<or> k = 0x7F)" "k < 0x10000" | "0x10000 \<le> k" by linarith
  then show ?thesis
  proof cases
    case 1
    then have "k < 16 ^ 2" "utf8_rune k = [char_of k]" by (auto simp: utf8_rune_def)
    then show ?thesis using 1 None read_hex_quoted [of k 2 x]
      by (simp add: escape_rune_def read_escape_seq_def)
  next
    case 2
    then have "k < 16 ^ 4" by simp
    then show ?thesis using 2 None assms read_hex_quoted [of k 4 x]
      by (simp add: escape_rune_def read_escape_seq_def)
  next
    case 3
    moreover have "k < 16 ^ 8" using assms by (auto simp: scalar_def)
    ultimately show ?thesis using None assms read_hex_quoted [of k 8 x]
      by (simp add: escape_rune_def read_escape_seq_def)
  qed
qed

lemma read_plain:
  "\<forall>c \<in> set w. c \<notin> {dquote, nl, backslash} \<Longrightarrow>
     read_literal_body (w @ x) = map_option (apfst (append w)) (read_literal_body x)"
proof (induction w)
  case (Cons c w)
  then show ?case
    by (subst read_literal_body.simps) (cases "read_literal_body x"; simp add: apfst_def map_prod_def case_prod_beta)
qed (cases "read_literal_body x", auto)

lemma utf8_rune_plain:
  assumes "scalar k" "k \<noteq> 0x22" "k \<noteq> 0x5C" "k \<noteq> 10" "c \<in> set (utf8_rune k)"
  shows "c \<notin> {dquote, nl, backslash}"
proof (cases "k < 0x80")
  case True
  then have "c = char_of k" using assms(5) by (simp add: utf8_rune_def)
  then show ?thesis using assms(2-4) True by (auto simp: byte_of)
next
  case False
  then have "byte_in 0x80 0xFF c" using high_bytes [OF assms(1)] assms(5) by (simp add: list_all_iff)
  then show ?thesis by (auto simp: byte_in_def)
qed

lemma read_quoted_rune:
  assumes "s \<noteq> []"
  shows "read_literal_body (quote_rune high s @ x) =
    map_option (apfst (append (take (snd (decode_rune s)) s))) (read_literal_body x)"
  using decode_rune_sound [OF assms]
proof (elim disjE exE conjE)
  assume d: "decode_rune s = (0xFFFD, 1)"
  obtain c r where s: "s = c # r" using assms by (cases s) auto
  have "(of_char c :: nat) < 16 ^ 2" using nat_of_char_less_256 [of c] by simp
  from read_hex_quoted [OF this]
  have "read_escape_seq ((CHR ''x'' # hex_digits 2 (of_char c)) @ x) = Some ([c], x)"
    by (simp add: read_escape_seq_def)
  from read_escaped [OF this] show ?thesis using d by (simp add: quote_rune_def s)
next
  fix k
  assume d: "decode_rune s = (k, length (utf8_rune k))" "take (length (utf8_rune k)) s = utf8_rune k" "scalar k"
  have "(length (utf8_rune k) = 1 \<and> k = 0xFFFD) = False" by (auto simp: utf8_rune_def)
  then have q: "quote_rune high s = (if k = 0x22 \<or> k = 0x5C then [backslash, char_of k]
      else if is_print high k then utf8_rune k else escape_rune k)"
    by (simp only: quote_rune_def d(1) Let_def prod.case if_False)
  show ?thesis
  proof (cases "k = 0x22 \<or> k = 0x5C")
    case True
    then have u: "utf8_rune k = [char_of k]" by (auto simp: utf8_rune_def)
    have "(char_of (0x22 :: nat) :: char) = dquote" "(char_of (0x5C :: nat) :: char) = backslash" by code_simp+
    then have "read_escape_seq ([char_of k] @ x) = Some ([char_of k], x)"
      using True by (auto simp: read_escape_seq_def)
    from read_escaped [OF this] show ?thesis using True d u by (auto simp: q)
  next
    case F: False
    show ?thesis
    proof (cases "is_print high k")
      case True
      then have "k \<noteq> 10" by (auto simp: is_print_def)
      with F have "\<forall>c \<in> set (utf8_rune k). c \<notin> {dquote, nl, backslash}" using utf8_rune_plain [OF d(3)] by blast
      from read_plain [OF this] show ?thesis using True F d by (simp add: q)
    next
      case False
      obtain e where "escape_rune k = backslash # e" "read_escape_seq (e @ x) = Some (utf8_rune k, x)"
        using escape_rune_read [OF d(3)] by blast
      with read_escaped [OF this(2)] show ?thesis using False F d by (simp add: q)
    qed
  qed
qed

lemma read_quote_body: "read_literal_body (quote_body high s @ dquote # x) = Some (s, x)"
proof (induction high s rule: quote_body.induct)
  case (1 high s)
  show ?case
  proof (cases "s = []")
    case True
    then show ?thesis by (simp add: quote_body.simps read_literal_body.simps [of "dquote # x"])
  next
    case False
    then show ?thesis using 1 read_quoted_rune [OF False]
      by (subst quote_body.simps) (simp add: append_take_drop_id)
  qed
qed

lemma read_go_quote: "read_go_literal (go_quote high s @ x) = Some (s, x)"
  by (simp add: read_go_literal_def go_quote_def read_quote_body)

text \<open>A literal is UTF-8 on one line, so it may stand in a source file.\<close>

lemma texty_hex_digits: "texty (hex_digits w k)"
proof (induction w k rule: hex_digits.induct)
  case (2 w k)
  have "byte_in 0 0x7F (hex_digit (k mod 16))"
    using mod_less_divisor [of 16 k] by (simp add: hex_digit_def byte_of) linarith
  then show ?case using 2 by simp
qed simp

lemma texty_quote_rune: "s \<noteq> [] \<Longrightarrow> texty (quote_rune high s)"
proof -
  assume "s \<noteq> []"
  from decode_rune_sound [OF this] obtain k n where k: "decode_rune s = (k, n)" "scalar k"
    by (auto simp: scalar_def)
  have u: "texty (utf8_rune k)" using texty_utf8 [of "[k]"] k(2) by (simp add: utf8_def)
  have l: "byte_in 0 0x7F c" if "map_of letter_escapes j = Some c" for j c
    using that by (auto simp: letter_escapes_def byte_in_def split: if_splits)
  have "texty (escape_rune k)"
    using l by (auto simp: escape_rune_def texty_hex_digits byte_in_def split: option.split)
  moreover have "k = 0x22 \<or> k = 0x5C \<Longrightarrow> texty [backslash, char_of k]"
    by (auto simp: byte_of) (simp_all add: byte_in_def)
  moreover have "texty (backslash # CHR ''x'' # hex_digits 2 (of_char (hd s)))"
    by (simp add: texty_hex_digits byte_in_def)
  ultimately show ?thesis using u k by (simp add: quote_rune_def)
qed

lemma texty_go_quote: "texty (go_quote high s)"
proof -
  have "texty (quote_body high s)"
  proof (induction high s rule: quote_body.induct)
    case (1 high s)
    then show ?case by (subst quote_body.simps) (simp add: texty_quote_rune)
  qed
  then show ?thesis by (simp add: go_quote_def byte_in_def)
qed

end
