(* ===== verification/Table_Gen.thy ===== *)
theory Table_Gen
  imports Regex Go_Quote "HOL-Library.AList"
begin

text \<open>
  \<open>internal/decoder/gen/main.go\<close>: the generator that turned the Perl lookup tables into \<open>tables_gen.go\<close>:
  finding a table among the lines of the Perl module, reading its entries, and the Go source it writes,
  with the rows of each table in the order of their keys.
\<close>


section \<open>Patterns\<close>

text \<open>\<open>\s\<close>: tab, newline, form feed, carriage return, blank.\<close>

definition is_space :: "char \<Rightarrow> bool" where
  "is_space c \<longleftrightarrow> c \<in> {CHR 0x09, CHR 0x0A, CHR 0x0C, CHR 0x0D, CHR '' ''}"

abbreviation spaces :: rx where "spaces \<equiv> Rep is_space 0 None True"

abbreviation quote :: char where "quote \<equiv> CHR 0x27"

definition bare_key :: "char \<Rightarrow> bool" where
  "bare_key c \<longleftrightarrow> is_digit c \<or> upper c \<or> (97 \<le> (of_char c :: nat) \<and> (of_char c :: nat) \<le> 122)
     \<or> c = CHR ''_'' \<or> c = CHR ''/''"

definition entryRE :: rx where
  "entryRE = rseq [Bol, spaces,
     Alt (rseq [Lit [quote], Grp (Rep (\<lambda>c. c \<noteq> quote) 0 None True), Lit [quote]]) (Grp (Rep bare_key 1 None True)),
     spaces, Lit ''=>'', spaces, Lit [quote], Grp (Rep (\<lambda>c. c \<noteq> quote) 0 None True), Lit [quote],
     spaces, Rep (\<lambda>c. c = CHR '','') 0 (Some 1) True, spaces, Eol]"

text \<open>\<open>QuoteMeta(name)\<close> matches the name itself.\<close>

definition openRE :: "string \<Rightarrow> rx" where
  "openRE name = rseq [Bol, spaces, Lit ''my'', Rep is_space 1 None True, Lit (CHR ''%'' # name), spaces, Lit ''='', spaces,
     Lit ''('', spaces, Eol]"


section \<open>Extraction\<close>

datatype gen_err = No_opening string | Bad_entry nat string | No_closing string | No_entries string

text \<open>The lines after the opening one.\<close>

fun find_open :: "string \<Rightarrow> nat \<Rightarrow> string list \<Rightarrow> (nat \<times> string list) option" where
  "find_open name i [] = None"
| "find_open name i (l # ls) = (if matches (openRE name) l then Some (Suc i, ls) else find_open name (Suc i) ls)"

text \<open>The loop over the entries, from line number \<open>i\<close> (counted from 0) on; the map is an association list
  with distinct keys.\<close>

fun read_entries :: "string \<Rightarrow> nat \<Rightarrow> string list \<Rightarrow> (string \<times> string) list \<Rightarrow> gen_err + (string \<times> string) list" where
  "read_entries name i [] entries = Inl (No_closing name)"
| "read_entries name i (l # ls) entries =
     (let trimmed = trim_space l
      in if trimmed = '');'' then Inr entries
         else case submatch entryRE l of
                None \<Rightarrow>
                  if trimmed = [] \<or> prefix ''#'' trimmed then read_entries name (Suc i) ls entries
                  else Inl (Bad_entry (Suc i) l)
              | Some m \<Rightarrow>
                  let key = (if m ! 0 = [] then m ! 1 else m ! 0)
                  in read_entries name (Suc i) ls (AList.update key (m ! 2) entries))"

definition extract_table :: "string list \<Rightarrow> string \<Rightarrow> gen_err + (string \<times> string) list" where
  "extract_table lines name =
     (case find_open name 0 lines of
        None \<Rightarrow> Inl (No_opening name)
      | Some (start, rest) \<Rightarrow> read_entries name start rest [])"

text \<open>The generated rows: the entries by ascending keys.\<close>

definition table_rows :: "(string \<times> string) list \<Rightarrow> (string \<times> string) list" where
  "table_rows entries = sort_key fst entries"

fun gen_tables :: "string list \<Rightarrow> (string \<times> string) list \<Rightarrow> gen_err + ((string \<times> string) \<times> (string \<times> string) list) list" where
  "gen_tables lines [] = Inr []"
| "gen_tables lines ((perl_name, go_name) # ts) =
     (case extract_table lines perl_name of
        Inl e \<Rightarrow> Inl e
      | Inr entries \<Rightarrow>
          if entries = [] then Inl (No_entries perl_name)
          else case gen_tables lines ts of
                 Inl e \<Rightarrow> Inl e
               | Inr out \<Rightarrow> Inr (((perl_name, go_name), table_rows entries) # out))"

text \<open>The tables, Perl name and Go name.\<close>

definition gen_list :: "(string \<times> string) list" where
  "gen_list = [(''code_type'', ''CodeType''), (''section'', ''Section''), (''msg_type'', ''MsgType''),
     (''NCN_type'', ''NCNType''), (''shindo'', ''Shindo''), (''rk1'', ''RK1''), (''rk2'', ''RK2''), (''rk3'', ''RK3''),
     (''rt1'', ''RT1''), (''rc1'', ''RC1''), (''rc2'', ''RC2''), (''ebiy1'', ''EBIY1''), (''ebiy2'', ''EBIY2''),
     (''warn_type'', ''WarnType''), (''epicenter_code'', ''EpicenterCode''), (''area_code'', ''AreaCode'')]"


section \<open>The generated source\<close>

definition header_lines :: string where
  "header_lines =
     ''// Code generated by internal/decoder/gen from lib/Earthquake/EEW/Decoder.pm. DO NOT EDIT.'' @ nl #
     ''// Regenerate with: go run ./internal/decoder/gen -in <path-to-Decoder.pm> -out internal/decoder/tables_gen.go''
       @ nl # nl # ''package decoder'' @ [nl, nl]"

definition row_source :: "(nat \<Rightarrow> bool) \<Rightarrow> string \<times> string \<Rightarrow> string" where
  "row_source high e = CHR 0x09 # go_quote high (fst e) @ '': '' @ go_quote high (snd e) @ CHR '','' # [nl]"

fun table_source :: "(nat \<Rightarrow> bool) \<Rightarrow> (string \<times> string) \<times> (string \<times> string) list \<Rightarrow> string" where
  "table_source high ((perl_name, go_name), rows) =
     ''// '' @ go_name @ '' has '' @ itoa (int (length rows)) @ '' entries, extracted from Perl %'' @ perl_name @ ''.'' @ nl #
     ''var '' @ go_name @ '' = map[string]string{'' @ nl #
     concat (map (row_source high) rows) @ CHR ''}'' # [nl, nl]"

definition gen_source :: "(nat \<Rightarrow> bool) \<Rightarrow> string list \<Rightarrow> (string \<times> string) list \<Rightarrow> gen_err + string" where
  "gen_source high lines tables =
     (case gen_tables lines tables of
        Inl e \<Rightarrow> Inl e
      | Inr out \<Rightarrow> Inr (header_lines @ concat (map (table_source high) out)))"

text \<open>The command: its exit status and the files afterwards.  A write that fails may leave anything at the
  output path.\<close>

datatype output_outcome = Write_ok | Write_failed "bytes option"

definition gen_main :: "(nat \<Rightarrow> bool) \<Rightarrow> (string \<times> string) list \<Rightarrow> string \<Rightarrow> string \<Rightarrow> output_outcome \<Rightarrow>
    (string \<rightharpoonup> bytes) \<Rightarrow> nat \<times> (string \<rightharpoonup> bytes)" where
  "gen_main high tables inp out w files =
     (if inp = [] \<or> out = [] then (1, files)
      else case files inp of
        None \<Rightarrow> (1, files)
      | Some src \<Rightarrow>
          (case gen_source high (split_on nl src) tables of
             Inl e \<Rightarrow> (1, files)
           | Inr b \<Rightarrow>
               (case w of
                  Write_ok \<Rightarrow> (0, files(out \<mapsto> b))
                | Write_failed left \<Rightarrow> (1, files(out := left)))))"


section \<open>Reading back a table\<close>

text \<open>The lines of a table as the Perl module writes them.\<close>

definition entry_line :: "string \<times> string \<Rightarrow> string" where
  "entry_line e = ''    '' @ [quote] @ fst e @ [quote] @ '' => '' @ [quote] @ snd e @ [quote] @ '',''"

definition open_line :: "string \<Rightarrow> string" where
  "open_line name = ''my %'' @ name @ '' = (''"

definition entry_ok :: "string \<times> string \<Rightarrow> bool" where
  "entry_ok e \<longleftrightarrow> fst e \<noteq> [] \<and> quote \<notin> set (fst e) \<and> quote \<notin> set (snd e)"

lemma first_rep:
  assumes "list_all p w" "t = [] \<or> \<not> p (hd t)"
  shows "first (Rep p 0 None True) i (w @ t) ([], i + length w, t)"
proof -
  have "takeWhile p (w @ t) = w"
    using assms by (cases t) (auto simp: list_all_iff takeWhile_append)
  moreover have "rev [0..<Suc (length w)] = length w # rev [0..<length w]" by simp
  ultimately show ?thesis by (simp add: first_def rep_counts_def Let_def)
qed

lemma first_group: "first r i s (cs, j, t) \<Longrightarrow> first (Grp r) i s (take (j - i) s # cs, j, t)"
  by (auto simp: first_def)

lemma first_rep_group:
  assumes "list_all p w" "t = [] \<or> \<not> p (hd t)"
  shows "first (Grp (Rep p 0 None True)) i (w @ t) ([w], i + length w, t)"
  using first_group [OF first_rep [OF assms]] by simp

lemma first_Alt: "first a i s (cs, j, t) \<Longrightarrow> first (Alt a b) i s (cs @ replicate (ngroups b) [], j, t)"
  by (auto simp: first_def)

lemma first_one: "p c \<Longrightarrow> first (Rep p 0 (Some 1) True) i (c # t) ([], Suc i, t)"
  by (simp add: first_def rep_counts_def Let_def)

lemma first_end: "first Eol i [] ([], i, [])" by (simp add: first_def)
lemma first_start: "first Bol 0 s ([], 0, s)" by (simp add: first_def)

lemma rseq_Cons: "rs \<noteq> [] \<Longrightarrow> rseq (r # rs) = Seq r (rseq rs)"
  by (cases rs) simp_all

text \<open>The preferred match from any position captures \<open>cs\<close> and leaves \<open>t\<close>.\<close>

definition takes :: "rx \<Rightarrow> string \<Rightarrow> string list \<Rightarrow> string \<Rightarrow> bool" where
  "takes r s cs t \<longleftrightarrow> (\<forall>i. \<exists>j. first r i s (cs, j, t))"

lemma takes_Cons:
  assumes "rs \<noteq> []" "takes r s cs t" "takes (rseq rs) t ds u"
  shows "takes (rseq (r # rs)) s (cs @ ds) u"
  using assms(2,3) first_Seq unfolding takes_def rseq_Cons [OF assms(1)] by blast

lemma takes_Lit: "takes (Lit w) (w @ t) [] t"
  using first_Lit by (auto simp: takes_def)

lemma takes_rep: "list_all p w \<Longrightarrow> t = [] \<or> \<not> p (hd t) \<Longrightarrow> takes (Rep p 0 None True) (w @ t) [] t"
  unfolding takes_def using first_rep by blast

lemma takes_rep_group: "list_all p w \<Longrightarrow> t = [] \<or> \<not> p (hd t) \<Longrightarrow> takes (Grp (Rep p 0 None True)) (w @ t) [w] t"
  unfolding takes_def using first_rep_group by blast

lemma takes_one: "p c \<Longrightarrow> takes (Rep p 0 (Some 1) True) (c # t) [] t"
  using first_one by (fastforce simp: takes_def)

lemma takes_Eol: "takes Eol [] [] []" using first_end by (auto simp: takes_def)

lemma takes_Alt: "takes a s cs t \<Longrightarrow> takes (Alt a b) s (cs @ replicate (ngroups b) []) t"
  using first_Alt unfolding takes_def by blast

lemma takes_from_start:
  assumes "rs \<noteq> []" "takes (rseq rs) s cs t"
  shows "submatch (rseq (Bol # rs)) s = Some cs"
proof -
  obtain j where "first (rseq rs) 0 s (cs, j, t)" using assms(2) by (auto simp: takes_def)
  from first_Seq [OF first_start this] show ?thesis
    by (simp add: rseq_Cons [OF assms(1)] first_submatch)
qed

lemma takes_spaces:
  assumes "rs \<noteq> []" "list_all is_space w" "t = [] \<or> \<not> is_space (hd t)" "takes (rseq rs) t cs u"
  shows "takes (rseq (spaces # rs)) (w @ t) cs u"
  using takes_Cons [OF assms(1) takes_rep [OF assms(2,3)] assms(4)] by simp

lemma takes_literal:
  assumes "rs \<noteq> []" "takes (rseq rs) t cs u"
  shows "takes (rseq (Lit w # rs)) (w @ t) cs u"
  using takes_Cons [OF assms(1) takes_Lit assms(2)] by simp

text \<open>A quoted word.\<close>

lemma takes_quoted:
  assumes "rs \<noteq> []" "quote \<notin> set w" "takes (rseq rs) t cs u"
  shows "takes (rseq (Lit [quote] # Grp (Rep (\<lambda>c. c \<noteq> quote) 0 None True) # Lit [quote] # rs))
    (quote # w @ quote # t) (w # cs) u"
proof -
  have "takes (rseq (Lit [quote] # rs)) (quote # t) cs u" using takes_literal [OF assms(1,3), of "[quote]"] by simp
  moreover have "takes (Grp (Rep (\<lambda>c. c \<noteq> quote) 0 None True)) (w @ quote # t) [w] (quote # t)"
    using assms(2) by (intro takes_rep_group) (auto simp: list_all_iff)
  ultimately have "takes (rseq (Grp (Rep (\<lambda>c. c \<noteq> quote) 0 None True) # Lit [quote] # rs)) (w @ quote # t) ([w] @ cs) u"
    using assms(1) by (intro takes_Cons) auto
  from takes_literal [OF _ this, of "[quote]"] show ?thesis by simp
qed

lemma entry_match:
  assumes "entry_ok e"
  shows "submatch entryRE (entry_line e) = Some [fst e, [], snd e]"
proof -
  obtain k v where e: "e = (k, v)" by (cases e)
  have q: "quote \<notin> set k" "quote \<notin> set v" using assms by (auto simp: entry_ok_def e)
  have ns: "\<not> is_space quote" "\<not> is_space CHR ''=''" "\<not> is_space CHR '',''" "is_space CHR '' ''" by (simp_all add: is_space_def)
  let ?r3 = "[spaces, Rep (\<lambda>c. c = CHR '','') 0 (Some 1) True, spaces, Eol]"
  let ?r2 = "Lit [quote] # Grp (Rep (\<lambda>c. c \<noteq> quote) 0 None True) # Lit [quote] # ?r3"
  let ?r1 = "spaces # Lit ''=>'' # spaces # ?r2"
  let ?key = "rseq [Lit [quote], Grp (Rep (\<lambda>c. c \<noteq> quote) 0 None True), Lit [quote]]"
  have "takes (rseq [Eol]) [] [] []" by (simp add: takes_Eol)
  from takes_spaces [OF _ _ _ this, of "[]"] have "takes (rseq [spaces, Eol]) [] [] []" by simp
  from takes_Cons [OF _ takes_one [of "\<lambda>c. c = CHR '',''" "CHR '',''"] this]
  have "takes (rseq [Rep (\<lambda>c. c = CHR '','') 0 (Some 1) True, spaces, Eol]) '','' [] []" by simp
  from takes_spaces [OF _ _ _ this, of "[]"] have "takes (rseq ?r3) '','' [] []" using ns by simp
  from takes_quoted [OF _ q(2) this] have "takes (rseq ?r2) (quote # v @ quote # '','') [v] []" by simp
  from takes_spaces [OF _ _ _ this, of "'' ''"] have "takes (rseq (spaces # ?r2)) ('' '' @ quote # v @ quote # '','') [v] []"
    using ns by simp
  from takes_literal [OF _ this, of "''=>''"] have
    "takes (rseq (Lit ''=>'' # spaces # ?r2)) (''=> '' @ quote # v @ quote # '','') [v] []" by simp
  from takes_spaces [OF _ _ _ this, of "'' ''"] have r1:
    "takes (rseq ?r1) ('' => '' @ quote # v @ quote # '','') [v] []" using ns by simp
  have key: "takes ?key (quote # k @ quote # t) [k] t" for t
  proof -
    have "takes (rseq [Lit [quote]]) (quote # t) [] t" using takes_Lit [of "[quote]" t] by simp
    moreover have "takes (Grp (Rep (\<lambda>c. c \<noteq> quote) 0 None True)) (k @ quote # t) [k] (quote # t)"
      using q(1) by (intro takes_rep_group) (auto simp: list_all_iff)
    ultimately have "takes (rseq [Grp (Rep (\<lambda>c. c \<noteq> quote) 0 None True), Lit [quote]]) (k @ quote # t) ([k] @ []) t"
      by (intro takes_Cons) simp_all
    from takes_literal [OF _ this, of "[quote]"] show ?thesis by simp
  qed
  from takes_Cons [OF _ takes_Alt [OF key, of "Grp (Rep bare_key 1 None True)"] r1]
  have "takes (rseq (Alt ?key (Grp (Rep bare_key 1 None True)) # ?r1))
      (quote # k @ quote # '' => '' @ quote # v @ quote # '','') [k, [], v] []" by simp
  from takes_spaces [OF _ _ _ this, of "''    ''"]
  have "takes (rseq (spaces # Alt ?key (Grp (Rep bare_key 1 None True)) # ?r1))
      (''    '' @ quote # k @ quote # '' => '' @ quote # v @ quote # '','') [k, [], v] []" using ns by simp
  from takes_from_start [OF _ this] show ?thesis by (simp add: entryRE_def entry_line_def e)
qed

lemma open_match: "matches (openRE name) (open_line name)"
proof -
  have ns: "\<not> is_space CHR ''m''" "\<not> is_space CHR ''%''" "\<not> is_space CHR ''=''" "\<not> is_space CHR ''(''" "is_space CHR '' ''"
    by (simp_all add: is_space_def)
  have "takes (rseq [Eol]) [] [] []" by (simp add: takes_Eol)
  from takes_spaces [OF _ _ _ this, of "[]"] have "takes (rseq [spaces, Eol]) [] [] []" by simp
  from takes_literal [OF _ this, of "''(''"] have "takes (rseq [Lit ''('', spaces, Eol]) ''('' [] []" by simp
  from takes_spaces [OF _ _ _ this, of "'' ''"] have "takes (rseq [spaces, Lit ''('', spaces, Eol]) '' ('' [] []"
    using ns by simp
  from takes_literal [OF _ this, of "''=''"] have "takes (rseq [Lit ''='', spaces, Lit ''('', spaces, Eol]) ''= ('' [] []" by simp
  from takes_spaces [OF _ _ _ this, of "'' ''"] have
    "takes (rseq [spaces, Lit ''='', spaces, Lit ''('', spaces, Eol]) '' = ('' [] []" using ns by simp
  from takes_literal [OF _ this, of "CHR ''%'' # name"] have n:
    "takes (rseq [Lit (CHR ''%'' # name), spaces, Lit ''='', spaces, Lit ''('', spaces, Eol]) ((CHR ''%'' # name) @ '' = ('') [] []"
    by simp
  have "rep_counts is_space 1 None True ('' '' @ (CHR ''%'' # name) @ '' = ('') = [1]"
    using ns by (simp add: rep_counts_def Let_def upt_rec)
  then have "takes (Rep is_space 1 None True) ('' '' @ (CHR ''%'' # name) @ '' = ('') [] ((CHR ''%'' # name) @ '' = ('')"
    by (simp add: takes_def first_def)
  from takes_Cons [OF _ this n] have
    "takes (rseq [Rep is_space 1 None True, Lit (CHR ''%'' # name), spaces, Lit ''='', spaces, Lit ''('', spaces, Eol])
       ('' '' @ (CHR ''%'' # name) @ '' = ('') [] []" by simp
  from takes_literal [OF _ this, of "''my''"] have
    "takes (rseq [Lit ''my'', Rep is_space 1 None True, Lit (CHR ''%'' # name), spaces, Lit ''='', spaces, Lit ''('', spaces, Eol])
       (open_line name) [] []" by (simp add: open_line_def)
  from takes_spaces [OF _ _ _ this, of "[]"] have
    "takes (rseq [spaces, Lit ''my'', Rep is_space 1 None True, Lit (CHR ''%'' # name), spaces, Lit ''='', spaces, Lit ''('', spaces, Eol])
       (open_line name) [] []" using ns by (simp add: open_line_def)
  from takes_from_start [OF _ this] show ?thesis by (auto simp: openRE_def matches_def submatch_def)
qed

lemma find_open_at:
  "list_all (\<lambda>l. \<not> matches (openRE name) l) pre \<Longrightarrow>
     find_open name i (pre @ open_line name # ls) = Some (Suc (i + length pre), ls)"
  by (induction pre arbitrary: i) (simp_all add: open_match)

lemma entry_line_neq: "trim_space (entry_line e) \<noteq> '');''"
proof -
  let ?core = "quote # fst e @ quote # '' => '' @ quote # snd e @ quote # '',''"
  have "trim_space ?core = ?core" by (rule trim_space_graphic) (simp_all add: graphic_def)
  then show ?thesis by (simp add: entry_line_def trim_space_lead)
qed

lemma read_entry_lines:
  "list_all entry_ok es \<Longrightarrow>
     read_entries name i (map entry_line es @ '');'' # ls) m = Inr (foldl (\<lambda>m (k, v). AList.update k v m) m es)"
proof (induction es arbitrary: i m)
  case Nil
  have "trim_space '');'' = '');''" by (rule trim_space_graphic) (simp_all add: graphic_def)
  then show ?case by simp
next
  case (Cons e es)
  then have e: "entry_ok e" by simp
  then have "fst e \<noteq> []" by (simp add: entry_ok_def)
  then show ?case
    using Cons entry_match [OF e] entry_line_neq [of e] by (simp add: Let_def case_prod_beta)
qed

lemma updates_entries:
  "map_of (foldl (\<lambda>m (k, v). AList.update k v m) m es) = map_of m ++ map_of (rev es)
   \<and> (distinct (map fst m) \<longrightarrow> distinct (map fst (foldl (\<lambda>m (k, v). AList.update k v m) m es)))"
proof (induction es arbitrary: m)
  case (Cons e es)
  then show ?case
    by (cases e) (auto simp: update_conv' distinct_update map_add_def fun_eq_iff split: option.split)
qed simp

text \<open>Among lines before it that open no table of that name, from the opening line, one line for each entry
  and the closing line, whatever follows, the extracted map has exactly the entries, the last one where a
  key repeats (keys and values may hold any bytes but a quote), and the rows are that map with its keys
  ascending, each once.\<close>

lemma extract_written:
  assumes "list_all (\<lambda>l. \<not> matches (openRE name) l) pre" "list_all entry_ok es"
  shows "\<exists>m. extract_table (pre @ open_line name # map entry_line es @ '');'' # post) name = Inr m
    \<and> map_of m = map_of (rev es)
    \<and> map_of (table_rows m) = map_of (rev es) \<and> sorted_wrt (<) (map fst (table_rows m))"
proof -
  let ?m = "foldl (\<lambda>m (k, v). AList.update k v m) [] es"
  have m: "map_of ?m = map_of (rev es)" "distinct (map fst ?m)" using updates_entries [of "[]" es] by simp_all
  have d: "distinct (map fst (table_rows ?m))" "sorted (map fst (table_rows ?m))"
    using m(2) by (simp_all add: table_rows_def distinct_map)
  moreover have "map_of (table_rows ?m) = map_of ?m"
    using m(2) d(1) by (intro map_of_inject_set [THEN iffD2]) (simp_all add: table_rows_def)
  moreover have "extract_table (pre @ open_line name # map entry_line es @ '');'' # post) name = Inr ?m"
    using assms read_entry_lines [OF assms(2)] by (simp add: extract_table_def find_open_at)
  ultimately show ?thesis using m(1) by (auto simp: strict_sorted_iff)
qed

end
