(* ===== verification/Table_Source.thy ===== *)
theory Table_Source
  imports Table_Gen
begin

text \<open>
  What the table generator's output means: a reader of generated sources, written from the Go
  specification, and the way of a table from the Perl module through the generator to the map of the
  compiled program.
\<close>


section \<open>Reading the generated source\<close>

definition read_token :: "string \<Rightarrow> bytes \<Rightarrow> bytes option" where
  "read_token w s = (if prefix w s then Some (drop (length w) s) else None)"

lemma read_token_append [simp]: "read_token w (w @ s) = Some s"
  by (simp add: read_token_def)

lemma read_token_length: "read_token w s = Some t \<Longrightarrow> length t + length w = length s"
  by (auto simp: read_token_def prefix_def split: if_splits)

lemma read_literal_body_length: "read_literal_body s = Some (v, t) \<Longrightarrow> length t < length s"
proof (induction s arbitrary: v t rule: read_literal_body.induct)
  case (1 s)
  from 1(3) show ?case
    apply (subst (asm) read_literal_body.simps)
    using 1(1,2) read_escape_length
    by (fastforce split: list.splits if_splits option.splits)
qed

lemma read_go_literal_length: "read_go_literal s = Some (v, t) \<Longrightarrow> length t < length s"
  by (auto simp: read_go_literal_def dest: read_literal_body_length split: list.splits if_splits)

text \<open>One row of a map literal.\<close>

definition read_row :: "bytes \<Rightarrow> ((string \<times> string) \<times> bytes) option" where
  "read_row s =
     Option.bind (read_token [CHR 0x09] s) (\<lambda>s.
     Option.bind (read_go_literal s) (\<lambda>(k, s).
     Option.bind (read_token '': '' s) (\<lambda>s.
     Option.bind (read_go_literal s) (\<lambda>(v, s).
     Option.bind (read_token [CHR '','', nl] s) (\<lambda>s. Some ((k, v), s))))))"

lemma read_row_length: "read_row s = Some (e, t) \<Longrightarrow> length t < length s"
  unfolding read_row_def
  by (auto simp: Option.bind_eq_Some_conv dest!: read_token_length read_go_literal_length)

lemma read_row_source [simp]: "read_row (row_source high e @ s) = Some (e, s)"
proof -
  have a: "row_source high e @ s = [CHR 0x09] @ go_quote high (fst e) @ '': '' @ go_quote high (snd e) @ [CHR '','', nl] @ s"
    by (simp add: row_source_def)
  show ?thesis unfolding a read_row_def read_token_append bind.bind_lunit read_go_quote prod.case by simp
qed

text \<open>The rows up to the closing brace.\<close>

function read_rows :: "bytes \<Rightarrow> ((string \<times> string) list \<times> bytes) option" where
  "read_rows s =
     (case read_token [CHR ''}'', nl] s of
        Some t \<Rightarrow> Some ([], t)
      | None \<Rightarrow>
          (case read_row s of
             None \<Rightarrow> None
           | Some (e, t) \<Rightarrow> map_option (apfst (Cons e)) (read_rows t)))"
  by pat_completeness auto
termination
  by (relation "measure length") (use read_row_length in auto)

declare read_rows.simps [simp del]

lemma read_rows_source:
  "read_rows (concat (map (row_source high) rows) @ CHR ''}'' # nl # s) = Some (rows, s)"
proof (induction rows)
  case Nil
  show ?case using read_token_append [of "[CHR ''}'', nl]" s] by (subst read_rows.simps) simp
next
  case (Cons e rows)
  have "read_token [CHR ''}'', nl] (row_source high e @ t) = None" for t
    by (simp add: read_token_def row_source_def)
  then show ?case using Cons by (subst read_rows.simps) simp
qed

text \<open>The head of a variable declaration, and the declarations of a file; comments, empty lines and the
  package clause are passed over.\<close>

definition read_var :: "bytes \<Rightarrow> (string \<times> bytes) option" where
  "read_var s =
     Option.bind (read_token ''var '' s) (\<lambda>s.
       let name = takeWhile (\<lambda>c. c \<noteq> CHR '' '') s
       in map_option (Pair name) (read_token ('' = map[string]string{'' @ [nl]) (drop (length name) s)))"

definition skipped_line :: "bytes \<Rightarrow> bool" where
  "skipped_line s \<longleftrightarrow> prefix ''//'' s \<or> prefix [nl] s \<or> prefix ''package '' s"

definition after_line :: "bytes \<Rightarrow> bytes" where
  "after_line s = tl (dropWhile (\<lambda>c. c \<noteq> nl) s)"

lemma read_rows_length: "read_rows s = Some (rows, t) \<Longrightarrow> length t < length s"
proof (induction s arbitrary: rows t rule: read_rows.induct)
  case (1 s)
  show ?case
  proof (cases "read_token [CHR ''}'', nl] s")
    case None
    then have "(case read_row s of None \<Rightarrow> None | Some (e, t) \<Rightarrow> map_option (apfst (Cons e)) (read_rows t)) = Some (rows, t)"
      using 1(2) by (subst (asm) read_rows.simps) simp
    then obtain e u rs where r: "read_row s = Some (e, u)" "read_rows u = Some (rs, t)"
      by (auto split: option.splits)
    have "length t < length u" using 1(1) [OF None] r by simp
    then show ?thesis using read_row_length [OF r(1)] by simp
  next
    case (Some u)
    then show ?thesis using 1(2) read_token_length [OF Some] by (subst (asm) read_rows.simps) simp
  qed
qed

lemma read_var_length: "read_var s = Some (n, t) \<Longrightarrow> length t < length s"
  unfolding read_var_def
  by (auto simp: Option.bind_eq_Some_conv Let_def dest!: read_token_length)

lemma after_line_length: "skipped_line s \<Longrightarrow> length (after_line s) < length s"
  using length_dropWhile_le [of "\<lambda>c. c \<noteq> nl" s]
  by (cases s) (auto simp: skipped_line_def after_line_def less_Suc_eq_le)

function read_decls :: "bytes \<Rightarrow> (string \<times> (string \<times> string) list) list option" where
  "read_decls s =
     (if s = [] then Some []
      else if skipped_line s then read_decls (after_line s)
      else case read_var s of
             None \<Rightarrow> None
           | Some (name, t) \<Rightarrow>
               (case read_rows t of
                  None \<Rightarrow> None
                | Some (rows, u) \<Rightarrow> map_option (Cons (name, rows)) (read_decls u)))"
  by pat_completeness auto
termination
  by (relation "measure length") (use after_line_length read_var_length read_rows_length in fastforce)+

declare read_decls.simps [simp del]

lemma read_decls_skip: "skipped_line (l @ nl # s) \<Longrightarrow> nl \<notin> set l \<Longrightarrow> read_decls (l @ nl # s) = read_decls s"
proof -
  assume s: "skipped_line (l @ nl # s)" and n: "nl \<notin> set l"
  have "dropWhile (\<lambda>c. c \<noteq> nl) (l @ nl # s) = nl # s" using n by (subst dropWhile_append2) auto
  then have "after_line (l @ nl # s) = s" by (simp add: after_line_def)
  then show ?thesis using s by (subst read_decls.simps) simp
qed

lemma bare_key_plain: "bare_key c \<Longrightarrow> c \<noteq> CHR '' '' \<and> c \<noteq> nl \<and> byte_in 0 0x7F c"
  by (auto simp: bare_key_def is_digit_def upper_def byte_in_def)

lemma read_var_source:
  assumes "list_all bare_key name"
  shows "read_var (''var '' @ name @ '' = map[string]string{'' @ nl # s) = Some (name, s)"
proof -
  have "takeWhile (\<lambda>c. c \<noteq> CHR '' '') (name @ '' = map[string]string{'' @ nl # s) = name"
    using assms bare_key_plain by (subst takeWhile_append2) (auto simp: list_all_iff)
  then show ?thesis unfolding read_var_def read_token_append by (simp add: Let_def read_token_def)
qed

lemma itoa_no_nl: "nl \<notin> set (itoa (int n))"
  using set_show_nat [of nl n] by (auto simp: itoa_def is_digit_def)

lemma read_table_source:
  assumes "list_all bare_key perl_name" "list_all bare_key go_name"
  shows "read_decls (table_source high ((perl_name, go_name), rows) @ s) = map_option (Cons (go_name, rows)) (read_decls s)"
proof -
  let ?c = "''// '' @ go_name @ '' has '' @ itoa (int (length rows)) @ '' entries, extracted from Perl %'' @ perl_name @ ''.''"
  let ?t = "concat (map (row_source high) rows) @ CHR ''}'' # nl # nl # s"
  let ?v = "''var '' @ go_name @ '' = map[string]string{'' @ nl # ?t"
  have "nl \<notin> set ?c" using assms bare_key_plain itoa_no_nl by (auto simp: list_all_iff)
  moreover have "skipped_line (?c @ nl # ?v)" by (simp add: skipped_line_def)
  ultimately have "read_decls (?c @ nl # ?v) = read_decls ?v" by (rule read_decls_skip [rotated])
  also have "\<not> skipped_line ?v" by (simp add: skipped_line_def)
  then have "read_decls ?v = map_option (Cons (go_name, rows)) (read_decls (nl # s))"
    using read_var_source [OF assms(2), of ?t] read_rows_source [of high rows "nl # s"]
    by (subst read_decls.simps) simp
  also have "read_decls (nl # s) = read_decls s" using read_decls_skip [of "[]" s] by (simp add: skipped_line_def)
  finally show ?thesis by simp
qed

lemma read_header: "read_decls (header_lines @ s) = read_decls s"
proof -
  let ?a = "''// Code generated by internal/decoder/gen from lib/Earthquake/EEW/Decoder.pm. DO NOT EDIT.''"
  let ?b = "''// Regenerate with: go run ./internal/decoder/gen -in <path-to-Decoder.pm> -out internal/decoder/tables_gen.go''"
  let ?r = "''package decoder'' @ nl # nl # s"
  have "read_decls (?a @ nl # ?b @ nl # nl # ?r) = read_decls (?b @ nl # nl # ?r)"
    by (rule read_decls_skip) (simp_all add: skipped_line_def)
  also have "\<dots> = read_decls (nl # ?r)" by (rule read_decls_skip) (simp_all add: skipped_line_def)
  also have "\<dots> = read_decls ?r" using read_decls_skip [of "[]" ?r] by (simp add: skipped_line_def)
  also have "\<dots> = read_decls (nl # s)" by (rule read_decls_skip) (simp_all add: skipped_line_def)
  also have "\<dots> = read_decls s" using read_decls_skip [of "[]" s] by (simp add: skipped_line_def)
  finally show ?thesis by (simp add: header_lines_def)
qed


section \<open>From the Perl module to the Go maps\<close>

text \<open>The lines have a table of that name with these entries, and open none before it.\<close>

definition has_table :: "string list \<Rightarrow> string \<Rightarrow> (string \<times> string) list \<Rightarrow> bool" where
  "has_table lines name es \<longleftrightarrow> (\<exists>pre post. lines = pre @ open_line name # map entry_line es @ '');'' # post
     \<and> list_all (\<lambda>l. \<not> matches (openRE name) l) pre) \<and> list_all entry_ok es \<and> es \<noteq> []"

definition same_table :: "(string \<times> string) list \<Rightarrow> (string \<times> string) list \<Rightarrow> bool" where
  "same_table es rows \<longleftrightarrow> map_of rows = map_of (rev es) \<and> sorted_wrt (<) (map fst rows)"

definition names_ok :: "string \<times> string \<Rightarrow> bool" where
  "names_ok t \<longleftrightarrow> list_all bare_key (fst t) \<and> list_all bare_key (snd t)"

lemma gen_tables_written:
  assumes "\<forall>t \<in> set tables. has_table lines (fst t) (tbl (fst t))"
  shows "\<exists>out. gen_tables lines tables = Inr out \<and> map fst out = tables
    \<and> list_all (\<lambda>((p, g), rows). same_table (tbl p) rows) out"
  using assms
proof (induction tables)
  case (Cons t tables)
  obtain p g where t: "t = (p, g)" by (cases t)
  obtain pre post where l: "lines = pre @ open_line p # map entry_line (tbl p) @ '');'' # post"
    "list_all (\<lambda>l. \<not> matches (openRE p) l) pre" "list_all entry_ok (tbl p)" "tbl p \<noteq> []"
    using Cons.prems by (auto simp: has_table_def t)
  obtain m where m: "extract_table lines p = Inr m" "map_of m = map_of (rev (tbl p))" "same_table (tbl p) (table_rows m)"
    using extract_written [OF l(2,3), of post] by (auto simp: same_table_def l(1))
  have "m \<noteq> []"
  proof
    assume "m = []"
    then have "dom (map_of (rev (tbl p))) = {}" using m(2) by simp
    then show False using l(4) by (simp add: dom_map_of_conv_image_fst)
  qed
  then show ?case using Cons m by (auto simp: t)
qed simp

lemma read_sources:
  "list_all (\<lambda>(t, rows). names_ok t) out \<Longrightarrow>
     read_decls (concat (map (table_source high) out)) = Some (map (\<lambda>((p, g), rows). (g, rows)) out)"
proof (induction out)
  case (Cons x out)
  obtain p g rows where x: "x = ((p, g), rows)" by (metis prod.exhaust)
  then have "list_all bare_key p" "list_all bare_key g" using Cons.prems by (simp_all add: names_ok_def)
  from read_table_source [OF this] Cons x show ?case by simp
qed (simp add: read_decls.simps)

lemma texty_bare: "list_all bare_key n \<Longrightarrow> texty n"
  by (induction n) (auto dest: bare_key_plain)

lemma texty_concat: "(\<And>x. x \<in> set xs \<Longrightarrow> texty (f x)) \<Longrightarrow> texty (concat (map f xs))"
  by (induction xs) simp_all

lemma texty_row: "texty (row_source high e)"
  by (simp add: row_source_def texty_go_quote byte_in_def)

lemma texty_table: "names_ok t \<Longrightarrow> texty (table_source high (t, rows))"
proof (cases t)
  case (Pair p g)
  assume "names_ok t"
  then have "texty p" "texty g" by (simp_all add: Pair names_ok_def texty_bare)
  then show ?thesis unfolding Pair table_source.simps
    by (intro texty_append texty_Cons texty_Nil texty_itoa texty_concat texty_row) (simp_all add: byte_in_def)
qed

lemma texty_header: "texty header_lines"
  unfolding header_lines_def append_Cons append_Nil
  by (intro texty_Cons texty_Nil) (simp_all add: byte_in_def)

text \<open>C40. The generator carries the tables over: where the Perl module has each of the tables to extract, as
  such modules are written, the command succeeds and leaves at the output path, and nowhere else, a
  UTF-8 source from which the Go compiler reads exactly those maps under their Go names: every value that
  the Perl table gives a key, the last one where a key repeats, whatever bytes keys and values hold but a
  quote or a newline, and no key twice.\<close>

theorem generator_round_trip:
  assumes "inp \<noteq> []" "out \<noteq> []" "files inp = Some src"
    and "\<forall>t \<in> set tables. names_ok t \<and> has_table (split_on nl src) (fst t) (tbl (fst t))"
  shows "\<exists>go rowss. gen_main high tables inp out Write_ok files = (0, files(out \<mapsto> go)) \<and> texty go
    \<and> read_decls go = Some (zip (map snd tables) rowss) \<and> list_all2 (\<lambda>t rows. same_table (tbl (fst t)) rows) tables rowss"
proof -
  obtain os where os: "gen_tables (split_on nl src) tables = Inr os" "map fst os = tables"
    "list_all (\<lambda>((p, g), rows). same_table (tbl p) rows) os"
    using gen_tables_written [of tables "split_on nl src" tbl] assms(4) by auto
  let ?go = "header_lines @ concat (map (table_source high) os)"
  have n: "names_ok t" if "(t, rows) \<in> set os" for t rows
  proof -
    have "t \<in> set (map fst os)" using that by force
    then show ?thesis using assms(4) by (simp add: os(2))
  qed
  then have "list_all (\<lambda>(t, rows). names_ok t) os" by (auto simp: list_all_iff)
  from read_sources [OF this] have "read_decls ?go = Some (map (\<lambda>((p, g), rows). (g, rows)) os)"
    by (simp add: read_header)
  also have "map (\<lambda>((p, g), rows). (g, rows)) os = zip (map snd (map fst os)) (map snd os)"
    by (induction os) auto
  finally have "read_decls ?go = Some (zip (map snd tables) (map snd os))" by (simp add: os(2))
  moreover have "list_all2 (\<lambda>t rows. same_table (tbl (fst t)) rows) (map fst os) (map snd os)"
    using os(3) by (induction os) auto
  moreover have "texty ?go" using n by (intro texty_append texty_header texty_concat) (auto intro: texty_table)
  moreover have "gen_main high tables inp out Write_ok files = (0, files(out \<mapsto> ?go))"
    using assms(1-3) os(1) by (simp add: gen_main_def gen_source_def)
  ultimately show ?thesis unfolding os(2) by blast
qed

text \<open>A module of two tables, one with a quotation mark and a byte that is not UTF-8.\<close>

definition example_tables :: "(string \<times> string) list" where
  "example_tables = [(''rt1'', ''RT1''), (''rk2'', ''RK2'')]"

definition example_entries :: "string \<Rightarrow> (string \<times> string) list" where
  "example_entries p = (if p = ''rt1'' then [(''1'', ''sea''), (''0'', ''land'')] else [(''1'', [CHR 0x22, CHR 0xFF])])"

definition example_lines :: "string list" where
  "example_lines = [''use strict;'', open_line ''rt1''] @ map entry_line (example_entries ''rt1'')
     @ ['');'', open_line ''rk2''] @ map entry_line (example_entries ''rk2'') @ ['');'']"

definition example_module :: string where
  "example_module = concat (map (\<lambda>l. l @ [nl]) example_lines)"

lemma example_module_ok:
  "\<forall>t \<in> set example_tables. names_ok t \<and> has_table (split_on nl example_module) (fst t) (example_entries (fst t))"
proof -
  have s: "split_on nl example_module = example_lines @ [[]]" by code_simp
  have n: "names_ok (''rt1'', ''RT1'')" "names_ok (''rk2'', ''RK2'')" by code_simp+
  have o1: "list_all (\<lambda>l. \<not> matches (openRE ''rt1'') l) [''use strict;'']" by code_simp
  have "list_all (\<lambda>l. \<not> matches (openRE ''rk2'') l)
      ([''use strict;'', open_line ''rt1''] @ map entry_line (example_entries ''rt1'') @ ['');''])" by code_simp
  moreover have "example_lines @ [[]] = ([''use strict;'', open_line ''rt1''] @ map entry_line (example_entries ''rt1'') @ ['');''])
      @ open_line ''rk2'' # map entry_line (example_entries ''rk2'') @ '');'' # [[]]" by (simp add: example_lines_def)
  moreover have "list_all entry_ok (example_entries p) \<and> example_entries p \<noteq> []" for p
    by (simp add: example_entries_def entry_ok_def)
  moreover have "example_lines @ [[]] = [''use strict;''] @ open_line ''rt1'' # map entry_line (example_entries ''rt1'') @ '');''
      # (open_line ''rk2'' # map entry_line (example_entries ''rk2'') @ '');'' # [[]])" by (simp add: example_lines_def)
  ultimately have "has_table (split_on nl example_module) ''rt1'' (example_entries ''rt1'')"
    "has_table (split_on nl example_module) ''rk2'' (example_entries ''rk2'')"
    unfolding s has_table_def using o1 by blast+
  then show ?thesis using n by (simp add: example_tables_def)
qed

lemma generator_round_trip_witness:
  "\<exists>go rows1 rows2. gen_main (\<lambda>_. True) example_tables ''in'' ''out'' Write_ok [''in'' \<mapsto> example_module]
       = (0, [''in'' \<mapsto> example_module, ''out'' \<mapsto> go])
     \<and> read_decls go = Some [(''RT1'', rows1), (''RK2'', rows2)]
     \<and> map_of rows1 ''0'' = Some ''land'' \<and> map_of rows2 ''1'' = Some [CHR 0x22, CHR 0xFF]"
proof -
  have ne: "''in'' \<noteq> []" "''out'' \<noteq> []" and f: "[''in'' \<mapsto> example_module] ''in'' = Some example_module" by simp_all
  from generator_round_trip [where tbl = example_entries and files = "[''in'' \<mapsto> example_module]" and high = "\<lambda>_. True",
      OF ne f example_module_ok] obtain go rowss where
    go: "gen_main (\<lambda>_. True) example_tables ''in'' ''out'' Write_ok [''in'' \<mapsto> example_module]
       = (0, [''in'' \<mapsto> example_module, ''out'' \<mapsto> go])" "read_decls go = Some (zip (map snd example_tables) rowss)"
    and r: "list_all2 (\<lambda>t rows. same_table (example_entries (fst t)) rows) example_tables rowss" by blast
  from r obtain rows1 rows2 where "rowss = [rows1, rows2]" "same_table (example_entries ''rt1'') rows1"
    "same_table (example_entries ''rk2'') rows2" by (auto simp: example_tables_def list_all2_Cons1)
  then show ?thesis using go
    by (intro exI [of _ go] exI [of _ rows1] exI [of _ rows2] conjI)
      (simp_all add: example_tables_def example_entries_def same_table_def)
qed

text \<open>Nothing is written unless every table was found: a status other than 0 leaves the files as they were,
  save for a failed write of the output itself.\<close>

lemma gen_main_failed:
  assumes "fst (gen_main high tables inp out w files) \<noteq> 0"
  shows "snd (gen_main high tables inp out w files) = files \<or>
    (\<exists>left. w = Write_failed left \<and> snd (gen_main high tables inp out w files) = files(out := left))"
  using assms by (auto simp: gen_main_def split: option.splits sum.splits output_outcome.splits)

end
