(* ===== verification/Decoder_Format.thy ===== *)
theory Decoder_Format
  imports Decoder
begin

text \<open>
  The telegram format as a specification, and \<open>Decode\<close> as its inverse.  A \<open>report\<close> holds the fields
  of one telegram as the wire has them; \<open>report_lines\<close> prints them the way the real telegrams under
  \<open>internal/decoder/testdata\<close> look: a header line, the time of detection, the identification line and,
  unless the report is a cancellation, a hypocentre line and lines of area forecasts.  The theorem at
  the end says that \<open>Decode\<close> recovers every field from the printed text, whatever inert lines precede.
\<close>


section \<open>The printed form\<close>

record hypo =
  h_code :: string
  h_lat :: string
  h_lng :: string
  h_depth :: string
  h_mag :: string
  h_shindo :: string
  h_rk :: string
  h_rt :: string
  h_rc :: string

record area =
  a_code :: string
  a_shindo1 :: string
  a_shindo2 :: string
  a_time :: string
  a_flags :: string

record report =
  r_code :: string
  r_section :: string
  r_type :: string
  r_warn :: string
  r_command :: string
  r_eq :: string
  r_id :: string
  r_kind :: string
  r_ncn :: string
  r_num :: string
  r_hypo :: "hypo option"
  r_areas :: "area list list"

definition header_line :: "report \<Rightarrow> string" where
  "header_line r = r_code r @ '' '' @ r_section r @ '' '' @ r_type r @ '' '' @ r_warn r @ '' C''
     @ r_command r"

definition nd_line :: "report \<Rightarrow> string" where
  "nd_line r = ''ND'' @ r_id r @ '' '' @ r_kind r @ (r_ncn r @ r_num r) @ '' JD////////////// JN///''"

definition hypo_line :: "hypo \<Rightarrow> string" where
  "hypo_line h = h_code h @ '' N'' @ h_lat h @ '' E'' @ h_lng h @ '' '' @ h_depth h @ '' '' @ h_mag h
     @ '' '' @ h_shindo h @ '' RK'' @ h_rk h @ '' RT'' @ h_rt h @ '' RC'' @ h_rc h"

definition area_text :: "area \<Rightarrow> string" where
  "area_text a = a_code a @ '' S'' @ a_shindo1 a @ a_shindo2 a @ '' '' @ a_time a @ '' '' @ a_flags a"

text \<open>The first line of areas starts with \<open>EBI\<close>, further lines with an area; areas of a line are
  separated by a space.\<close>

definition area_items :: "string \<Rightarrow> area list \<Rightarrow> (string \<times> area) list" where
  "area_items lead as = zip (lead # replicate (length as - 1) '' '') as"

definition area_line :: "string \<Rightarrow> area list \<Rightarrow> string" where
  "area_line lead as = concat (map (\<lambda>(sep, a). sep @ area_text a) (area_items lead as))"

fun area_lines :: "area list list \<Rightarrow> string list" where
  "area_lines [] = []"
| "area_lines (as # ass) = area_line ''EBI '' as # map (area_line []) ass"

definition report_lines :: "report \<Rightarrow> string list" where
  "report_lines r = [header_line r, r_eq r, nd_line r]
     @ (case r_hypo r of None \<Rightarrow> [] | Some h \<Rightarrow> [hypo_line h]) @ area_lines (r_areas r) @ [''9999='']"

definition report_text :: "string list \<Rightarrow> report \<Rightarrow> bytes" where
  "report_text pre r = concat (map (\<lambda>l. l @ [nl]) (pre @ report_lines r))"

definition sized :: "(char \<Rightarrow> bool) \<Rightarrow> nat \<Rightarrow> string \<Rightarrow> bool" where
  "sized p n s \<longleftrightarrow> list_all p s \<and> length s = n"

definition hypo_ok :: "hypo \<Rightarrow> bool" where
  "hypo_ok h \<longleftrightarrow> sized digit_slash 3 (h_code h) \<and> sized digit_slash 3 (h_lat h)
     \<and> sized digit_slash 4 (h_lng h) \<and> sized digit_slash 3 (h_depth h) \<and> sized digit_slash 2 (h_mag h)
     \<and> sized (one_of ''01234567-+/'') 2 (h_shindo h) \<and> sized digit_slash 5 (h_rk h)
     \<and> sized digit_slash 5 (h_rt h) \<and> sized digit_slash 5 (h_rc h)"

definition area_ok :: "area \<Rightarrow> bool" where
  "area_ok a \<longleftrightarrow> sized is_digit 3 (a_code a) \<and> sized (one_of ''01234567-+'') 2 (a_shindo1 a)
     \<and> sized (one_of ''01234567-+/'') 2 (a_shindo2 a) \<and> sized digit_slash 6 (a_time a)
     \<and> sized (one_of ''01'') 2 (a_flags a)"

definition report_ok :: "report \<Rightarrow> bool" where
  "report_ok r \<longleftrightarrow> sized is_digit 2 (r_code r) \<and> sized is_digit 2 (r_section r)
     \<and> sized is_digit 2 (r_type r) \<and> sized is_digit 12 (r_warn r) \<and> sized is_digit 2 (r_command r)
     \<and> sized is_digit 12 (r_eq r) \<and> sized is_digit 14 (r_id r)
     \<and> list_all upper (r_kind r) \<and> r_kind r \<noteq> [] \<and> hd (r_kind r) \<noteq> CHR ''C''
     \<and> sized is_digit 1 (r_ncn r) \<and> sized is_digit 2 (r_num r)
     \<and> (case r_hypo r of None \<Rightarrow> True | Some h \<Rightarrow> hypo_ok h)
     \<and> list_all (\<lambda>as. as \<noteq> [] \<and> list_all area_ok as) (r_areas r)"


section \<open>What it means\<close>

definition area_match :: "area \<Rightarrow> string list" where
  "area_match a = [a_code a, a_shindo1 a, a_shindo2 a, a_time a, a_flags a]"

definition with_hypo :: "hypo \<Rightarrow> telegram \<Rightarrow> telegram" where
  "with_hypo h t = t\<lparr>center_code := h_code h, center_name := lookup EpicenterCode (h_code h),
     center_lat := parse_int_or_zero (h_lat h), center_lng := parse_int_or_zero (h_lng h),
     center_depth := parse_int_or_zero (h_depth h), magnitude := parse_int_or_zero (h_mag h),
     shindo_code := h_shindo h, shindo := lookup Shindo (h_shindo h),
     center_accurate_code := char_at (h_rk h) 0, center_accurate := lookup RK1 (char_at (h_rk h) 0),
     depth_accurate_code := char_at (h_rk h) 1, depth_accurate := lookup RK2 (char_at (h_rk h) 1),
     magnitude_accurate_code := char_at (h_rk h) 2,
     magnitude_accurate := lookup RK3 (char_at (h_rk h) 2),
     is_sea_code := char_at (h_rt h) 0, is_sea := lookup RT1 (char_at (h_rt h) 0),
     is_warnded := char_at (h_rt h) 1\<rparr>"

definition with_areas :: "area list \<Rightarrow> telegram \<Rightarrow> telegram" where
  "with_areas as t =
     t\<lparr>ebi := foldl (\<lambda>m a. AList.update (a_code a) (ebi_of_match (area_match a)) m) (ebi t) as\<rparr>"

definition report_telegram :: "report \<Rightarrow> telegram" where
  "report_telegram r =
     with_areas (concat (r_areas r))
       ((case r_hypo r of None \<Rightarrow> (\<lambda>t. t) | Some h \<Rightarrow> with_hypo h)
         (empty_telegram\<lparr>code := r_code r, code_type := lookup CodeType (r_code r),
            section_code := r_section r, section_text := lookup Section (r_section r),
            msg_type_code := parse_int_or_zero (r_type r), msg_type := lookup MsgType (r_type r),
            warn_time := r_warn r, command_code := r_command r, eq_time := r_eq r, eq_id := r_id r,
            warn_code := r_kind r, warn_type := lookup WarnType (r_kind r),
            ncn_type := parse_int_or_zero (r_ncn r), warn_num := parse_int_or_zero (r_num r)\<rparr>))"


section \<open>Each line is read by its own pattern\<close>

lemmas sized_first = first_exactly first_Lit first_Seq

lemma first_sized: "sized p n w \<Longrightarrow> first (Grp (exactly n p)) i (w @ t) ([w], i + n, t)"
  by (simp add: sized_def first_exactly)

lemma first_sized_end: "sized p n w \<Longrightarrow> first (Grp (exactly n p)) i w ([w], i + n, [])"
  using first_sized [of p n w i "[]"] by simp

lemma first_Seq_cong:
  "first a i s (cs, j, t) \<Longrightarrow> first b j t (ds, k, u) \<Longrightarrow> es = cs @ ds \<Longrightarrow>
     first (Seq a b) i s (es, k, u)"
  by (simp add: first_Seq)

lemma submatch_header:
  assumes "report_ok r"
  shows "submatch headerRE (header_line r) =
    Some [r_code r, r_section r, r_type r, r_warn r, r_command r]"
proof -
  have "\<exists>j t. first headerRE 0 (header_line r)
      ([r_code r, r_section r, r_type r, r_warn r, r_command r], j, t)"
    unfolding headerRE_def header_line_def rseq.simps
    by (intro exI)
      (rule first_Seq_cong first_sized first_sized_end first_Lit | use assms in \<open>simp add: report_ok_def; fail\<close>)+
  then show ?thesis by (auto intro: first_submatch)
qed

lemma submatch_nd:
  assumes "report_ok r"
  shows "submatch ndRE (nd_line r) = Some [r_id r, r_kind r, r_ncn r @ r_num r]"
proof -
  have k: "r_kind r \<noteq> []" "list_all upper (r_kind r)" and d: "r_ncn r @ r_num r \<noteq> []"
    "list_all is_digit (r_ncn r @ r_num r)" and i: "sized is_digit 14 (r_id r)"
    using assms by (auto simp: report_ok_def sized_def)
  have nu: "\<not> upper (hd ((r_ncn r @ r_num r) @ t))" for t
    using d by (cases "r_ncn r"; cases "r_num r") (auto simp: upper_def is_digit_def)
  have "first (Grp (Rep upper 1 None True)) i
      (r_kind r @ (r_ncn r @ r_num r) @ t) ([r_kind r], i + length (r_kind r), (r_ncn r @ r_num r) @ t)" for i t
    using k nu by (intro first_greedy) auto
  moreover have "first (Grp (Rep is_digit 1 None True)) i
      ((r_ncn r @ r_num r) @ '' JD////////////// JN///'')
      ([r_ncn r @ r_num r], i + length (r_ncn r @ r_num r), '' JD////////////// JN///'')" for i
    using d by (intro first_greedy) (auto simp: is_digit_def)
  ultimately have "\<exists>j t. first ndRE 0 (nd_line r) ([r_id r, r_kind r, r_ncn r @ r_num r], j, t)"
    unfolding ndRE_def nd_line_def rseq.simps using i
    by (intro exI) (rule first_Seq_cong first_sized first_Lit | assumption | simp; fail)+
  then show ?thesis by (auto intro: first_submatch)
qed

lemma submatch_hypo:
  assumes "hypo_ok h"
  shows "submatch hypocenterRE (hypo_line h) =
    Some [h_code h, h_lat h, h_lng h, h_depth h, h_mag h, h_shindo h, h_rk h, h_rt h, h_rc h]"
proof -
  have "\<exists>j t. first hypocenterRE 0 (hypo_line h)
      ([h_code h, h_lat h, h_lng h, h_depth h, h_mag h, h_shindo h, h_rk h, h_rt h, h_rc h], j, t)"
    unfolding hypocenterRE_def hypo_line_def rseq.simps
    by (intro exI)
      (rule first_Seq_cong first_sized first_sized_end first_Lit | use assms in \<open>simp add: hypo_ok_def; fail\<close>)+
  then show ?thesis by (auto intro: first_submatch)
qed

lemma first_area:
  assumes "area_ok a"
  shows "first ebiRE i (area_text a @ u) (area_match a, i + length (area_text a), u)"
proof -
  have e: "i + length (area_text a) = i + 3 + length '' S'' + 2 + 2 + length '' '' + 6 + length '' '' + 2"
    using assms by (simp add: area_ok_def sized_def area_text_def)
  show ?thesis
    unfolding ebiRE_def area_match_def rseq.simps e unfolding area_text_def append_assoc
    by (rule first_Seq_cong first_sized first_Lit | use assms in \<open>simp add: area_ok_def; fail\<close>)+
qed

lemma submatch_all_area_line:
  assumes "as \<noteq> []" "list_all area_ok as" "\<forall>c \<in> set lead. \<not> is_digit c"
  shows "submatch_all ebiRE (area_line lead as) = map area_match as"
proof -
  have "map snd (fst (rfind_all ebiRE 0
      (concat (map (\<lambda>(sep, x). sep @ area_text x) (area_items lead as)) @ []))) =
      map (area_match \<circ> snd) (area_items lead as)"
  proof (rule rfind_all_items [where p = is_digit])
    fix c u j assume "\<not> is_digit c"
    then show "rmatch ebiRE j (c # u) = []" by (simp add: ebiRE_def rep_counts_exactly)
  next
    fix j show "rmatch ebiRE j [] = []" by (simp add: ebiRE_def rep_counts_exactly)
  next
    fix sep x u j assume "(sep, x) \<in> set (area_items lead as)"
    then have "sep \<in> set (lead # replicate (length as - 1) '' '')" "x \<in> set as"
      by (auto simp: area_items_def dest: set_zip_leftD set_zip_rightD)
    then show "(\<forall>c \<in> set sep. \<not> is_digit c) \<and> area_text x \<noteq> []
        \<and> first ebiRE j (area_text x @ u) (area_match x, j + length (area_text x), u)"
      using assms(2,3) first_area by (auto simp: list_all_iff area_text_def is_digit_def)
  qed simp
  moreover have "map snd (area_items lead as) = as"
    using assms(1) by (cases as) (simp_all add: area_items_def)
  ultimately show ?thesis
    by (simp add: submatch_all_def area_line_def flip: map_map)
qed


section \<open>No line is read by the pattern of another\<close>

lemma pair_skip: "x \<notin> set a \<Longrightarrow> sublist [x, y] (a @ b) \<longleftrightarrow> sublist [x, y] b"
  by (induction a) (auto simp: sublist_Cons_right)

lemma pair_Cons: "sublist [x, y] (c # s) \<longleftrightarrow> c = x \<and> s \<noteq> [] \<and> hd s = y \<or> sublist [x, y] s"
  by (cases s) (auto simp: sublist_Cons_right)

lemma sized_missing: "sized p n w \<Longrightarrow> \<not> p c \<Longrightarrow> c \<notin> set w"
  by (auto simp: sized_def list_all_iff)

lemma hd_sized_append: "sized p n w \<Longrightarrow> 0 < n \<Longrightarrow> w \<noteq> [] \<and> p (hd (w @ t))"
  by (cases w) (auto simp: sized_def)

lemma classes_C [simp]:
  "\<not> digit_slash CHR ''C''" "\<not> is_digit CHR ''C''" "\<not> one_of ''01234567-+/'' CHR ''C''"
  "\<not> digit_slash CHR '' ''" "\<not> is_digit CHR '' ''" "\<not> one_of ''01234567-+/'' CHR '' ''"
  by (auto simp: digit_slash_def is_digit_def one_of_def)

lemma submatch_missing: "w \<in> literals r \<Longrightarrow> c \<in> set w \<Longrightarrow> c \<notin> set s \<Longrightarrow> submatch r s = None"
  by (rule submatch_None) (auto simp: sublist_missing)

lemma submatch_all_missing:
  "w \<in> literals r \<Longrightarrow> c \<in> set w \<Longrightarrow> c \<notin> set s \<Longrightarrow> submatch_all r s = []"
  by (rule submatch_all_None) (auto simp: sublist_missing)

lemma header_literal: "'' C'' \<in> literals headerRE"
  by (simp add: headerRE_def)

lemma nd_literal: "''ND'' \<in> literals ndRE"
  by (simp add: ndRE_def)

lemma hypo_literal: "'' N'' \<in> literals hypocenterRE"
  by (simp add: hypocenterRE_def)

lemma ebi_literal: "'' S'' \<in> literals ebiRE"
  by (simp add: ebiRE_def)

lemma eq_time_None_digits:
  assumes "\<not> (12 \<le> length l \<and> list_all is_digit (take 12 l))"
  shows "submatch eqTimeRE l = None"
proof -
  from assms have r: "rmatch (Grp (exactly 12 is_digit)) 0 l = []"
    by (rule rmatch_exactly_Nil [THEN iffD2])
  show ?thesis by (simp only: eqTimeRE_def rseq.simps submatch_Bol r list.case)
qed

lemma eq_time_None:
  assumes "l = w @ c # u" "\<not> is_digit c" "length w < 12"
  shows "submatch eqTimeRE l = None"
proof -
  have "c \<in> set (take 12 l)" using assms(1,3) by (simp add: take_Cons')
  then have "\<not> (12 \<le> length l \<and> list_all is_digit (take 12 l))"
    using assms(2) by (auto simp: list_all_iff)
  then show ?thesis by (rule eq_time_None_digits)
qed

lemma eq_time_Some:
  assumes "sized is_digit 12 l"
  shows "submatch eqTimeRE l = Some [l]"
  using first_sized_end [OF assms, of 0]
  by (auto simp: eqTimeRE_def submatch_Bol first_def)

lemma header_None_eq: "report_ok r \<Longrightarrow> submatch headerRE (r_eq r) = None"
  by (intro submatch_None [OF header_literal] sublist_missing [where c = "CHR ''C''"])
    (auto simp: report_ok_def sized_def list_all_iff is_digit_def)

lemma header_None_nd:
  assumes "report_ok r"
  shows "submatch headerRE (nd_line r) = None"
proof (rule submatch_None [OF header_literal])
  have id: "CHR '' '' \<notin> set (''ND'' @ r_id r)"
    and n: "CHR '' '' \<notin> set (r_kind r @ r_ncn r @ r_num r)"
    and k: "r_kind r \<noteq> []" "hd (r_kind r) \<noteq> CHR ''C''"
    using assms by (auto simp: report_ok_def sized_def list_all_iff is_digit_def upper_def)
  have "nd_line r = (''ND'' @ r_id r) @ CHR '' '' # (r_kind r @ r_ncn r @ r_num r)
      @ '' JD////////////// JN///''"
    by (simp add: nd_line_def)
  then show "\<not> sublist '' C'' (nd_line r)"
    using k by (simp only: pair_skip [OF id] pair_Cons pair_skip [OF n]) simp
qed

lemma header_None_hypo:
  assumes "hypo_ok h"
  shows "submatch headerRE (hypo_line h) = None"
proof (rule submatch_None [OF header_literal])
  have hd: "h_depth h \<noteq> [] \<and> hd (h_depth h @ u) \<noteq> CHR ''C''"
    "h_mag h \<noteq> [] \<and> hd (h_mag h @ u) \<noteq> CHR ''C''"
    "h_shindo h \<noteq> [] \<and> hd (h_shindo h @ u) \<noteq> CHR ''C''" for u
    using assms hd_sized_append [of digit_slash 3 "h_depth h" u]
      hd_sized_append [of digit_slash 2 "h_mag h" u]
      hd_sized_append [of "one_of ''01234567-+/''" 2 "h_shindo h" u]
    by (auto simp: hypo_ok_def)
  have no: "CHR '' '' \<notin> set (h_code h)" "CHR '' '' \<notin> set (h_lat h)" "CHR '' '' \<notin> set (h_lng h)"
    "CHR '' '' \<notin> set (h_depth h)" "CHR '' '' \<notin> set (h_mag h)" "CHR '' '' \<notin> set (h_shindo h)"
    "CHR '' '' \<notin> set (h_rk h)" "CHR '' '' \<notin> set (h_rt h)" "CHR '' '' \<notin> set (h_rc h)"
    using assms by (auto simp: hypo_ok_def sized_def list_all_iff)
  show "\<not> sublist '' C'' (hypo_line h)"
    unfolding hypo_line_def
    using no hd hd [of "[]"] pair_skip [of "CHR '' ''" "h_rc h" "CHR ''C''" "[]"]
    by (simp add: pair_skip pair_Cons)
qed

lemma eq_None_nd: "submatch eqTimeRE (nd_line r) = None"
  by (rule eq_time_None [where w = "[]" and c = "CHR ''N''"]) (auto simp: nd_line_def is_digit_def)

lemma eq_None_hypo: "hypo_ok h \<Longrightarrow> submatch eqTimeRE (hypo_line h) = None"
  by (rule eq_time_None [where w = "h_code h" and c = "CHR '' ''"])
    (auto simp: hypo_ok_def sized_def hypo_line_def is_digit_def)

lemma nd_None_hypo: "hypo_ok h \<Longrightarrow> submatch ndRE (hypo_line h) = None"
  by (intro submatch_None [OF nd_literal] sublist_missing [where c = "CHR ''D''"])
    (auto simp: hypo_ok_def sized_def hypo_line_def list_all_iff digit_slash_def is_digit_def one_of_def)

text \<open>The bytes of a line of areas.\<close>

definition area_byte :: "char \<Rightarrow> bool" where
  "area_byte c \<longleftrightarrow> digit_slash c \<or> c \<in> set ''EBI S-+''"

lemma sized_area_byte:
  "sized p n w \<Longrightarrow> (\<And>c. p c \<Longrightarrow> area_byte c) \<Longrightarrow> c \<in> set w \<Longrightarrow> area_byte c"
  by (auto simp: sized_def list_all_iff)

lemma area_classes:
  "is_digit c \<Longrightarrow> area_byte c" "digit_slash c \<Longrightarrow> area_byte c"
  "one_of ''01234567-+'' c \<Longrightarrow> area_byte c" "one_of ''01234567-+/'' c \<Longrightarrow> area_byte c"
  "one_of ''01'' c \<Longrightarrow> area_byte c" "area_byte CHR '' ''" "area_byte CHR ''S''"
proof -
  show "is_digit c \<Longrightarrow> area_byte c" "digit_slash c \<Longrightarrow> area_byte c"
    by (simp_all add: area_byte_def digit_slash_def)
  have d: "list_all area_byte ''01234567-+/''"
    by (simp add: area_byte_def digit_slash_def is_digit_def)
  then show "one_of ''01234567-+/'' c \<Longrightarrow> area_byte c" unfolding one_of_def list_all_iff by blast
  from d show "one_of ''01234567-+'' c \<Longrightarrow> area_byte c" "one_of ''01'' c \<Longrightarrow> area_byte c"
    by (auto simp: one_of_def)
qed (simp_all add: area_byte_def)

lemma set_area_text:
  assumes "area_ok a" "c \<in> set (area_text a)"
  shows "area_byte c"
proof -
  from assms(2) consider "c \<in> set (a_code a)" | "c \<in> set (a_shindo1 a)" | "c \<in> set (a_shindo2 a)"
    | "c \<in> set (a_time a)" | "c \<in> set (a_flags a)" | "c = CHR '' ''" | "c = CHR ''S''"
    by (auto simp: area_text_def)
  then show ?thesis
    using assms(1) unfolding area_ok_def by cases (blast intro: sized_area_byte area_classes)+
qed

lemma set_area_line:
  assumes "list_all area_ok as" "set lead \<subseteq> set ''EBI S-+''" "c \<in> set (area_line lead as)"
  shows "area_byte c"
proof -
  from assms(3) obtain sep a where "(sep, a) \<in> set (area_items lead as)"
    and c: "c \<in> set sep \<or> c \<in> set (area_text a)"
    by (auto simp: area_line_def)
  then have "sep \<in> set (lead # replicate (length as - 1) '' '')" "a \<in> set as"
    by (auto simp: area_items_def dest: set_zip_leftD set_zip_rightD)
  then have "sep = lead \<or> sep = '' ''" and a: "area_ok a"
    using assms(1) by (auto simp: list_all_iff split: if_splits)
  from c show ?thesis
  proof
    assume "c \<in> set sep"
    then have "c \<in> set ''EBI S-+''"
      using \<open>sep = lead \<or> sep = '' ''\<close> assms(2) by auto
    then show ?thesis by (simp add: area_byte_def)
  qed (rule set_area_text [OF a])
qed

lemma area_line_None:
  assumes "as \<noteq> []" "list_all area_ok as" "lead \<in> {[], ''EBI ''}"
  shows "submatch headerRE (area_line lead as) = None" "submatch eqTimeRE (area_line lead as) = None"
    "submatch ndRE (area_line lead as) = None" "submatch hypocenterRE (area_line lead as) = None"
proof -
  have b: "\<And>c. c \<in> set (area_line lead as) \<Longrightarrow> area_byte c"
    using assms by (intro set_area_line) auto
  have C: "CHR ''C'' \<notin> set (area_line lead as)" and N: "CHR ''N'' \<notin> set (area_line lead as)"
    using b [of "CHR ''C''"] b [of "CHR ''N''"]
    by (auto simp: area_byte_def digit_slash_def is_digit_def)
  show "submatch headerRE (area_line lead as) = None"
    using C by (intro submatch_None [OF header_literal] sublist_missing [where c = "CHR ''C''"]) auto
  show "submatch ndRE (area_line lead as) = None"
    using N by (intro submatch_None [OF nd_literal] sublist_missing [where c = "CHR ''N''"]) auto
  show "submatch hypocenterRE (area_line lead as) = None"
    using N by (intro submatch_None [OF hypo_literal] sublist_missing [where c = "CHR ''N''"]) auto
  obtain a as' where as: "as = a # as'" using assms(1) by (cases as) auto
  have "length (a_code a) = 3" using assms(2) as by (simp add: area_ok_def sized_def)
  moreover have "\<exists>u. area_line lead as = lead @ a_code a @ CHR '' '' # u"
    by (simp add: area_line_def area_items_def as area_text_def)
  then obtain u where u: "area_line lead as = lead @ a_code a @ CHR '' '' # u" ..
  ultimately show "submatch eqTimeRE (area_line lead as) = None"
    using assms(3)
    by (intro eq_time_None [where w = "lead @ a_code a" and c = "CHR '' ''" and u = u])
      (auto simp: is_digit_def)
qed

text \<open>A line on which no pattern matches.\<close>

definition inert :: "string \<Rightarrow> bool" where
  "inert l \<longleftrightarrow> submatch headerRE l = None \<and> submatch eqTimeRE l = None \<and> submatch ndRE l = None
     \<and> submatch hypocenterRE l = None \<and> submatch_all ebiRE l = []"

lemma decode_inert: "inert l \<Longrightarrow> decode_line t l = t"
  by (simp add: inert_def decode_line_def try_header_def try_eq_time_def try_nd_def
      try_hypocenter_def try_ebi_def)

lemma inert_short:
  assumes "CHR '' '' \<notin> set l" "length l < 12 \<or> l \<noteq> [] \<and> \<not> is_digit (hd l)" "CHR ''D'' \<notin> set l"
  shows "inert l"
proof -
  have "submatch eqTimeRE l = None"
  proof (cases "length l < 12")
    case True
    then show ?thesis by (intro eq_time_None_digits) simp
  next
    case False
    with assms(2) show ?thesis by (cases l) (auto intro: eq_time_None [where w = "[]"])
  qed
  moreover have "submatch headerRE l = None" "submatch hypocenterRE l = None" "submatch_all ebiRE l = []"
    using assms(1) submatch_missing [OF header_literal, of "CHR '' ''" l]
      submatch_missing [OF hypo_literal, of "CHR '' ''" l]
      submatch_all_missing [OF ebi_literal, of "CHR '' ''" l]
    by simp_all
  moreover have "submatch ndRE l = None"
    using assms(3) submatch_missing [OF nd_literal, of "CHR ''D''" l] by simp
  ultimately show ?thesis by (simp add: inert_def)
qed

lemma inert_trailer: "inert ''9999=''"
  by (rule inert_short) auto


section \<open>Decoding a printed report\<close>

text \<open>Lines without CR and LF come back from \<open>splitLines\<close>, the empty ones left out.\<close>

definition clean :: "string \<Rightarrow> bool" where
  "clean l \<longleftrightarrow> cr \<notin> set l \<and> nl \<notin> set l"

lemma fields_skip: "f c \<Longrightarrow> fields_func f (c # s) = fields_func f s"
  by (subst (1 2) fields_func.simps) simp

lemma fields_word:
  assumes "w \<noteq> []" "\<forall>x \<in> set w. \<not> f x" "f c"
  shows "fields_func f (w @ c # s) = w # fields_func f s"
proof -
  have drop: "dropWhile f (w @ c # s) = w @ c # s" using assms by (cases w) auto
  have take: "takeWhile (\<lambda>c. \<not> f c) (w @ c # s) = w" "dropWhile (\<lambda>c. \<not> f c) (w @ c # s) = c # s"
    using assms by (simp_all add: takeWhile_append dropWhile_append)
  have "fields_func f (w @ c # s) = w # fields_func f (c # s)"
    by (subst fields_func.simps) (simp add: drop take)
  then show ?thesis using assms(3) by (simp add: fields_skip)
qed

lemma fields_lines:
  "list_all clean ls \<Longrightarrow> split_lines (concat (map (\<lambda>l. l @ [nl]) ls)) = filter (\<lambda>l. l \<noteq> []) ls"
proof (induction ls)
  case Nil
  then show ?case by (simp add: split_lines_def fields_func.simps)
next
  case (Cons l ls)
  have "l = [] \<or> (l \<noteq> [] \<and> (\<forall>x \<in> set l. \<not> (x = cr \<or> x = nl)))"
    using Cons.prems by (auto simp: clean_def)
  then show ?case
    using Cons by (elim disjE) (simp_all add: split_lines_def fields_skip fields_word)
qed

lemma sized_clean: "sized p n w \<Longrightarrow> \<not> p cr \<Longrightarrow> \<not> p nl \<Longrightarrow> clean w"
  by (auto simp: sized_def clean_def list_all_iff)

lemma clean_append [simp]: "clean (a @ b) \<longleftrightarrow> clean a \<and> clean b"
  by (auto simp: clean_def)

lemma clean_Cons [simp]: "clean (c # s) \<longleftrightarrow> c \<noteq> cr \<and> c \<noteq> nl \<and> clean s" "clean []"
  by (auto simp: clean_def)

lemma line_classes [simp]:
  "\<not> digit_slash cr" "\<not> digit_slash nl" "\<not> is_digit cr" "\<not> is_digit nl" "\<not> upper cr" "\<not> upper nl"
  "\<not> one_of ''01234567-+/'' cr" "\<not> one_of ''01234567-+/'' nl" "\<not> area_byte cr" "\<not> area_byte nl"
  by (auto simp: digit_slash_def is_digit_def one_of_def upper_def area_byte_def)

lemma clean_header: "report_ok r \<Longrightarrow> clean (header_line r)"
  by (auto simp: report_ok_def header_line_def intro: sized_clean)

lemma clean_nd: "report_ok r \<Longrightarrow> clean (nd_line r)"
proof -
  assume r: "report_ok r"
  then have "clean (r_kind r)" by (auto simp: report_ok_def clean_def list_all_iff)
  with r show ?thesis by (auto simp: report_ok_def nd_line_def intro: sized_clean)
qed

lemma clean_hypo: "hypo_ok h \<Longrightarrow> clean (hypo_line h)"
  by (auto simp: hypo_ok_def hypo_line_def intro: sized_clean)

lemma clean_area_line:
  "list_all area_ok as \<Longrightarrow> lead \<in> {[], ''EBI ''} \<Longrightarrow> clean (area_line lead as)"
  using set_area_line [of as lead cr] set_area_line [of as lead nl] by (auto simp: clean_def)

lemma area_line_neq_Nil: "as \<noteq> [] \<Longrightarrow> area_line lead as \<noteq> []"
  by (cases as) (simp_all add: area_line_def area_items_def area_text_def)

lemma decode_header:
  assumes "report_ok r"
  shows "decode_line t (header_line r) = t\<lparr>code := r_code r, code_type := lookup CodeType (r_code r),
     section_code := r_section r, section_text := lookup Section (r_section r),
     msg_type_code := parse_int_or_zero (r_type r), msg_type := lookup MsgType (r_type r),
     warn_time := r_warn r, command_code := r_command r\<rparr>"
  by (simp add: decode_line_def try_header_def submatch_header [OF assms])

lemma decode_eq:
  assumes "report_ok r"
  shows "decode_line t (r_eq r) = t\<lparr>eq_time := r_eq r\<rparr>"
proof -
  have "sized is_digit 12 (r_eq r)" using assms by (simp add: report_ok_def)
  then show ?thesis
    by (simp add: decode_line_def try_header_def header_None_eq [OF assms] try_eq_time_def eq_time_Some)
qed

lemma decode_nd:
  assumes "report_ok r"
  shows "decode_line t (nd_line r) = t\<lparr>eq_id := r_id r, warn_code := r_kind r,
     warn_type := lookup WarnType (r_kind r), ncn_type := parse_int_or_zero (r_ncn r),
     warn_num := parse_int_or_zero (r_num r)\<rparr>"
proof -
  have "length (r_ncn r) = 1" "length (r_num r) = 2" using assms by (auto simp: report_ok_def sized_def)
  then show ?thesis
    by (simp add: decode_line_def try_header_def header_None_nd [OF assms] try_eq_time_def eq_None_nd
        try_nd_def submatch_nd [OF assms])
qed

lemma decode_hypo: "hypo_ok h \<Longrightarrow> decode_line t (hypo_line h) = with_hypo h t"
  by (simp add: decode_line_def try_header_def header_None_hypo try_eq_time_def eq_None_hypo
      try_nd_def nd_None_hypo try_hypocenter_def submatch_hypo with_hypo_def Let_def numeral_eq_Suc)

lemma decode_area_line:
  assumes "as \<noteq> []" "list_all area_ok as" "lead \<in> {[], ''EBI ''}"
  shows "decode_line t (area_line lead as) = with_areas as t"
proof -
  have "submatch_all ebiRE (area_line lead as) = map area_match as"
    using assms by (intro submatch_all_area_line) (auto simp: is_digit_def)
  then show ?thesis using assms(1)
    by (simp add: decode_line_def try_header_def try_eq_time_def try_nd_def try_hypocenter_def
        area_line_None [OF assms] try_ebi_def with_areas_def foldl_map area_match_def Let_def)
qed

lemma with_areas_append: "with_areas (as @ bs) t = with_areas bs (with_areas as t)"
  by (simp add: with_areas_def)

lemma decode_area_lines:
  assumes "list_all (\<lambda>as. as \<noteq> [] \<and> list_all area_ok as) ass"
  shows "foldl decode_line t (area_lines ass) = with_areas (concat ass) t"
proof -
  have rest: "foldl decode_line u (map (area_line []) bss) = with_areas (concat bss) u"
    if "list_all (\<lambda>as. as \<noteq> [] \<and> list_all area_ok as) bss" for u bss
    using that
  proof (induction bss arbitrary: u)
    case Nil
    then show ?case by (simp add: with_areas_def)
  next
    case (Cons bs bss)
    then show ?case by (simp add: decode_area_line with_areas_append)
  qed
  show ?thesis
    using assms rest
    by (cases ass) (simp_all add: decode_area_line with_areas_append, simp add: with_areas_def)
qed

lemma decode_inert_lines: "list_all inert ls \<Longrightarrow> foldl decode_line t ls = t"
  by (induction ls) (auto simp: decode_inert)

lemma decode_printed:
  assumes "report_ok r" and "list_all inert pre" and "list_all clean pre"
  shows "decode (report_text pre r) = report_telegram r"
proof -
  have ok: "list_all (\<lambda>as. as \<noteq> [] \<and> list_all area_ok as) (r_areas r)"
    and h: "\<And>h. r_hypo r = Some h \<Longrightarrow> hypo_ok h" and eq: "sized is_digit 12 (r_eq r)"
    using assms(1) by (auto simp: report_ok_def)
  have areas: "list_all (\<lambda>l. clean l \<and> l \<noteq> []) (area_lines (r_areas r))"
    using ok by (cases "r_areas r") (auto simp: list_all_iff clean_area_line area_line_neq_Nil)
  have eqc: "clean (r_eq r)" "r_eq r \<noteq> []"
    using eq by (auto intro: sized_clean [OF eq] simp: sized_def)
  have hl: "\<And>h. r_hypo r = Some h \<Longrightarrow> clean (hypo_line h)" "\<And>h. hypo_line h \<noteq> []"
    using h clean_hypo by (simp_all add: hypo_line_def)
  have "list_all (\<lambda>l. clean l \<and> l \<noteq> []) (report_lines r)"
    using areas hl eqc clean_header [OF assms(1)] clean_nd [OF assms(1)]
    by (simp add: report_lines_def header_line_def nd_line_def split: option.splits)
  then have cl: "list_all clean (report_lines r)" and ne: "list_all (\<lambda>l. l \<noteq> []) (report_lines r)"
    by (simp_all add: list_all_iff)
  have "split_lines (report_text pre r) = filter (\<lambda>l. l \<noteq> []) pre @ report_lines r"
    using cl ne assms(3) unfolding report_text_def
    by (subst fields_lines) (auto simp: list_all_iff filter_id_conv)
  moreover have "list_all inert (filter (\<lambda>l. l \<noteq> []) pre)"
    using assms(2) by (auto simp: list_all_iff)
  ultimately have "decode (report_text pre r) = foldl decode_line empty_telegram (report_lines r)"
    by (simp add: decode_def decode_inert_lines)
  also have "\<dots> = report_telegram r"
    using h by (cases "r_hypo r") (auto simp: report_lines_def report_telegram_def
        decode_header [OF assms(1)] decode_eq [OF assms(1)] decode_nd [OF assms(1)] decode_hypo
        decode_area_lines [OF ok] decode_inert inert_trailer)
  finally show ?thesis .
qed


definition example_report :: report where
  "example_report = \<lparr>r_code = ''37'', r_section = ''03'', r_type = ''00'', r_warn = ''110312042614'',
     r_command = ''11'', r_eq = ''110312042348'', r_id = ''20110312042346'', r_kind = ''NCN'',
     r_ncn = ''9'', r_num = ''81'',
     r_hypo = Some \<lparr>h_code = ''220'', h_lat = ''385'', h_lng = ''1408'', h_depth = ''010'', h_mag = ''67'',
       h_shindo = ''6+'', h_rk = ''44554'', h_rt = ''00///'', h_rc = ''0////''\<rparr>,
     r_areas = [[\<lparr>a_code = ''220'', a_shindo1 = ''6+'', a_shindo2 = ''6-'', a_time = ''//////'',
         a_flags = ''01''\<rparr>],
       [\<lparr>a_code = ''242'', a_shindo1 = ''5-'', a_shindo2 = ''04'', a_time = ''//////'',
         a_flags = ''01''\<rparr>]]\<rparr>"



end
