(* ===== verification/Archive_View.thy ===== *)
theory Archive_View
  imports App Eewview_Server Decoder_Format
begin

text \<open>
  The archive as the daemon writes it (\<open>internal/eewlog\<close>, \<open>internal/app\<close>) and as the viewer reads it
  (\<open>internal/eewview\<close>): names and places of reports, and the day of a report's id.
\<close>


section \<open>Names and places\<close>

lemma length_show_nat_100: "n < 100 \<Longrightarrow> length (show_nat n) \<le> 4"
  by (subst show_nat.simps, subst show_nat.simps) auto

lemma archived_name:
  assumes "eq_id (decode raw) \<noteq> []"
  shows "list_all is_digit (eq_id (decode raw)) \<and> length (eq_id (decode raw)) = 14
    \<and> list_all is_digit (itoa (warn_num (decode raw))) \<and> itoa (warn_num (decode raw)) \<noteq> []
    \<and> length (itoa (warn_num (decode raw))) \<le> 4
    \<and> atoi (itoa (warn_num (decode raw))) = Some (warn_num (decode raw))"
proof -
  have wf: "opt_len is_digit 14 (eq_id (decode raw))" "0 \<le> warn_num (decode raw)" "warn_num (decode raw) < 100"
    using wf_decode [of raw] by (simp_all add: wf_telegram_def)
  then have "nat (warn_num (decode raw)) < 100" by simp
  then show ?thesis
    using wf assms itoa_digits [OF wf(2)] length_show_nat_100 atoi_itoa [of "warn_num (decode raw)"]
    by (auto simp: opt_len_def itoa_def)
qed

lemma archived_lookup:
  assumes "is_rooted cwd" "dir \<noteq> []" "eq_id (decode raw) \<noteq> []"
  defines "name \<equiv> eq_id (decode raw) @ ''.'' @ itoa (warn_num (decode raw))"
  shows "split_eew_name name = Some (eq_id (decode raw), warn_num (decode raw)) \<and> matches detailNameRE name
    \<and> telegram_path cwd dir name = Some (final_path dir (eq_id (decode raw)) (warn_num (decode raw)))"
proof (intro conjI)
  note n = archived_name [OF assms(3)]
  show "split_eew_name name = Some (eq_id (decode raw), warn_num (decode raw))"
    unfolding name_def split_eew_name_iff using n assms(3) by blast
  show "matches detailNameRE name" unfolding name_def using n by (intro detail_name_ok) auto
  have "id_ok (eq_id (decode raw))" "0 \<le> warn_num (decode raw)"
    using wf_decode [of raw] by (simp_all add: wf_telegram_def id_ok_def)
  from final_path_below [OF assms(2) this]
  show "telegram_path cwd dir name = Some (final_path dir (eq_id (decode raw)) (warn_num (decode raw)))"
    unfolding name_def using telegram_path_below [OF assms(1,2)] n assms(3) by (simp add: archive_elements_def)
qed

text \<open>What is archived can be looked up: for every telegram with an id, the file name the archive gives
  it is a name the viewer's list page recognises, with the same id and report number, and the detail
  page accepts, and the path the detail page reads for that name is the very path the archive wrote,
  whatever the two programs' common data directory and the viewer's working directory are.\<close>

lemma viewer_finds_archived:
  assumes "is_rooted cwd" "dir \<noteq> []" "eq_id (decode raw) \<noteq> []"
  shows "let t = decode raw; name = eq_id t @ ''.'' @ itoa (warn_num t)
     in split_eew_name name = Some (eq_id t, warn_num t) \<and> matches detailNameRE name
        \<and> telegram_path cwd dir name = Some (final_path dir (eq_id t) (warn_num t))"
  using archived_lookup [OF assms] by (simp add: Let_def)

text \<open>A telegram with an id: the printed example report.\<close>

lemma example_eq_id: "eq_id (decode (report_text [] example_report)) = ''20110312042346''"
proof -
  have "report_ok example_report"
    by (simp add: example_report_def report_ok_def hypo_ok_def area_ok_def sized_def is_digit_def
        digit_slash_def one_of_def upper_def)
  then have "decode (report_text [] example_report) = report_telegram example_report"
    by (rule decode_printed) simp_all
  then show ?thesis
    by (simp add: report_telegram_def with_areas_def with_hypo_def example_report_def empty_telegram_def)
qed

lemma viewer_finds_archived_example:
  "let t = decode (report_text [] example_report) in
     telegram_path ''/srv'' ''./eewlog/'' (eq_id t @ ''.'' @ itoa (warn_num t)) =
       Some (final_path ''./eewlog/'' (eq_id t) (warn_num t))"
  using viewer_finds_archived [of "''/srv''" "''./eewlog/''" "report_text [] example_report"] example_eq_id
  by (simp add: Let_def is_rooted_def)

text \<open>The last report of a sequence lies at its place.\<close>

lemma last_archived:
  assumes "dir \<noteq> []" "list_all (\<lambda>(io, md5, _). io_fine io \<and> md5_ok md5) (ts @ [(io, md5, body)])"
  shows "fs_files (snd (snd (process_all (ts @ [(io, md5, body)])
    (\<lparr>p_store = Some dir, p_dispatcher = d\<rparr>, files)))) (place dir body) = Some body"
proof -
  let ?ts = "ts @ [(io, md5, body)]"
  have not_temp: "place dir body \<notin> temps dir ?ts"
  proof
    assume "place dir body \<in> temps dir ?ts"
    then obtain io' md5' b where "(io', md5', b) \<in> set ?ts" "place dir body = temp_path dir (io_now io') md5'"
      by (auto simp: temps_def)
    moreover from this(1) assms(2) have "io_fine io' \<and> md5_ok md5'" by (auto simp: list_all_iff)
    ultimately show False using temp_not_place [OF assms(1), of md5' "io_now io'" body] by (simp add: io_fine_def)
  qed
  have "placed dir ?ts (place dir body) = Some body" by (simp add: placed_def)
  then show ?thesis
    using process_all_files [OF assms, of "\<lparr>p_store = Some dir, p_dispatcher = d\<rparr>" files "place dir body"]
      not_temp by simp
qed

text \<open>One report in the archive, and a viewer on it.\<close>

definition example_telegram :: "io_outcome \<times> string \<times> bytes" where
  "example_telegram = (\<lparr>io_now = 7, io_write = Written, io_mkdir = True, io_rename = True\<rparr>, ''0a'', report_text [] example_report)"

definition example_config :: view_config where
  "example_config = \<lparr>data_dir = ''log'', path_base = ''./'', viewer_path = ''eew-show'', listen_addr = '':80''\<rparr>"

definition example_archive :: archive where
  "example_archive = \<lparr>dir_exists = (\<lambda>_. True),
     dir_list = (\<lambda>_. Some [(eq_id (decode (report_text [] example_report)) @ ''.''
        @ itoa (warn_num (decode (report_text [] example_report))), False)]),
     file_read = fs_files (snd (snd (process_all ([] @ [example_telegram])
       (\<lparr>p_store = Some (data_dir example_config), p_dispatcher = new_dispatcher [] []\<rparr>, \<lparr>fs_files = Map.empty\<rparr>))))\<rparr>"

lemma example_archive_ok:
  "data_dir example_config \<noteq> []"
  "list_all (\<lambda>(io, md5, _). io_fine io \<and> md5_ok md5)
     ([] @ [(\<lparr>io_now = 7, io_write = Written, io_mkdir = True, io_rename = True\<rparr>, ''0a'', report_text [] example_report)])"
  "file_read example_archive = fs_files (snd (snd (process_all
     ([] @ [(\<lparr>io_now = 7, io_write = Written, io_mkdir = True, io_rename = True\<rparr>, ''0a'', report_text [] example_report)])
     (\<lparr>p_store = Some (data_dir example_config), p_dispatcher = new_dispatcher [] []\<rparr>, \<lparr>fs_files = Map.empty\<rparr>))))"
  by (simp_all add: example_config_def example_archive_def example_telegram_def io_fine_def md5_ok_def graphic_def)

text \<open>Process any sequence of telegrams with a store whose file operations
  succeed, the last of them with an id; then the viewer, on the resulting files, answers the request for
  that report with the page of exactly that telegram: its summary, its fields, its areas.\<close>

lemma viewer_shows_last_report:
  assumes "is_rooted cwd" "data_dir cfg \<noteq> []" "eq_id (decode body) \<noteq> []"
    and "list_all (\<lambda>(io, md5, _). io_fine io \<and> md5_ok md5) (ts @ [(io, md5, body)])"
    and "file_read fs = fs_files (snd (snd (process_all (ts @ [(io, md5, body)])
           (\<lparr>p_store = Some (data_dir cfg), p_dispatcher = d\<rparr>, files))))"
  shows "\<exists>page. detail_handler sjis cwd cfg fs (eq_id (decode body) @ ''.'' @ itoa (warn_num (decode body))) = Detail page
     \<and> dp_title page = detail_summary_text (decode body) \<and> dp_fields page = build_fields (decode body)
     \<and> dp_ebi page = build_ebi_rows (ebi (decode body)) \<and> dp_raw page = mark_control_chars (sjis body)"
  using archived_lookup [OF assms(1-3)] last_archived [OF assms(2,4)] assms(5)
  by (simp add: detail_handler_def place_def Let_def)

lemma viewer_shows_last_report_example:
  "\<exists>page. detail_handler id ''/srv'' example_config example_archive
      (eq_id (decode (report_text [] example_report)) @ ''.'' @ itoa (warn_num (decode (report_text [] example_report)))) = Detail page
    \<and> dp_fields page = build_fields (decode (report_text [] example_report))"
proof -
  have root: "is_rooted ''/srv''" by (simp add: is_rooted_def)
  have eq: "eq_id (decode (report_text [] example_report)) \<noteq> []" using example_eq_id by simp
  from viewer_shows_last_report [OF root example_archive_ok(1) eq example_archive_ok(2,3), of id] show ?thesis
    by blast
qed

text \<open>The day of an id, and the page of that day.\<close>

definition id_year :: "string \<Rightarrow> int" where "id_year k = int (dec_val (take 4 k))"
definition id_month :: "string \<Rightarrow> int" where "id_month k = int (dec_val (take 2 (drop 4 k)))"
definition id_day :: "string \<Rightarrow> int" where "id_day k = int (dec_val (take 2 (drop 6 k)))"

lemma day_dir_below:
  assumes "list_all is_digit k" "length k = 14" "data_dir cfg \<noteq> []"
  shows "day_dir cfg (id_year k) (id_month k) (id_day k) =
      below (data_dir cfg) [take 4 k, take 2 (drop 4 k), take 2 (drop 6 k)]"
    and "list_all plain_element [take 4 k, take 2 (drop 4 k), take 2 (drop 6 k)]"
proof -
  have d: "list_all is_digit (take 4 k)" "list_all is_digit (take 2 (drop 4 k))" "list_all is_digit (take 2 (drop 6 k))"
    using list_all_take_drop [OF assms(1)] list_all_take_drop [where p = is_digit] by auto
  have n: "take 4 k \<noteq> []" "take 2 (drop 4 k) \<noteq> []" "take 2 (drop 6 k) \<noteq> []" using assms(2) by auto
  have f: "fmt_0d 4 (id_year k) = take 4 k" "fmt_0d 2 (id_month k) = take 2 (drop 4 k)"
    "fmt_0d 2 (id_day k) = take 2 (drop 6 k)"
    using fmt_0d_dec_val [OF d(1) n(1)] fmt_0d_dec_val [OF d(2) n(2)] fmt_0d_dec_val [OF d(3) n(3)] assms(2)
    by (simp_all add: id_year_def id_month_def id_day_def)
  show p: "list_all plain_element [take 4 k, take 2 (drop 4 k), take 2 (drop 6 k)]"
    using digits_plain d n by simp
  have "filter (\<lambda>e. e \<noteq> []) [take 4 k, take 2 (drop 4 k), take 2 (drop 6 k)]
      = [take 4 k, take 2 (drop 4 k), take 2 (drop 6 k)]" using n by simp
  with join_path_below [OF assms(3), of "[take 4 k, take 2 (drop 4 k), take 2 (drop 6 k)]"] p
  show "day_dir cfg (id_year k) (id_month k) (id_day k) = below (data_dir cfg) [take 4 k, take 2 (drop 4 k), take 2 (drop 6 k)]"
    by (simp add: day_dir_def f)
qed

end
