(* ===== verification/Archive_Pages.thy ===== *)
theory Archive_Pages
  imports Archive_View
begin

text \<open>
  The viewer's pages on the archive the daemon has written: the directory tree that \<open>os.Stat\<close> and
  \<open>os.ReadDir\<close> show where the daemon has filed telegrams (\<open>tree\<close>), the numbered levels of that tree, and
  the four pages of \<open>listHandler\<close> on it, each equal to a list computed from the telegrams received.
\<close>


section \<open>The directory tree of the daemon's files\<close>

text \<open>What the viewer's system calls see of a set of files: \<open>paths\<close> lists their names, \<open>files\<close> their contents.  A
  directory exists where a file lies below it (the daemon makes a directory just before it renames a file
  into it), and \<open>os.ReadDir\<close> lists it by name.\<close>

definition rest_below :: "string \<Rightarrow> string \<Rightarrow> string list option" where
  "rest_below d p =
     (if is_rooted d = is_rooted p \<and> prefix (base_elements d) (base_elements p)
      then Some (drop (length (base_elements d)) (base_elements p)) else None)"

definition children :: "string list \<Rightarrow> string \<Rightarrow> (string \<times> bool) list" where
  "children paths d =
     List.map_filter (\<lambda>p. case rest_below d p of Some (n # ns) \<Rightarrow> Some (n, ns \<noteq> []) | _ \<Rightarrow> None) paths"

definition tree :: "string list \<Rightarrow> (string \<rightharpoonup> bytes) \<Rightarrow> archive" where
  "tree paths files = \<lparr>dir_exists = (\<lambda>d. children paths d \<noteq> []),
     dir_list = (\<lambda>d. let cs = children paths d
       in if cs = [] then None else Some (map (\<lambda>n. (n, (n, True) \<in> set cs)) (sort (remdups (map fst cs))))),
     file_read = files\<rparr>"

text \<open>The path of a directory some elements below the archive's.\<close>

definition at_dir :: "string \<Rightarrow> string list \<Rightarrow> string \<Rightarrow> bool" where
  "at_dir dir ms d \<longleftrightarrow> is_rooted d = is_rooted dir \<and> base_elements d = base_elements dir @ ms"

lemma at_dir_self: "at_dir dir [] dir"
  by (simp add: at_dir_def)

lemma at_dir_below: "list_all plain_element ms \<Longrightarrow> ms \<noteq> [] \<Longrightarrow> at_dir dir ms (below dir ms)"
  using rooted_below unrooted_below by (auto simp: at_dir_def base_below)

lemma at_dir_join:
  assumes "dir \<noteq> []" "list_all plain_element ms" "ms \<noteq> []"
  shows "at_dir dir ms (join_path (dir # ms))" "join_path (dir # ms) = below dir ms"
proof -
  have "filter (\<lambda>e. e \<noteq> []) ms = ms" using assms(2) by (auto simp: list_all_iff plain_element_def filter_id_conv)
  then show j: "join_path (dir # ms) = below dir ms"
    using join_path_below [OF assms(1), of ms] assms(2,3) by (simp add: list_all_iff)
  show "at_dir dir ms (join_path (dir # ms))" unfolding j by (rule at_dir_below [OF assms(2,3)])
qed

lemma rest_below_at:
  assumes "at_dir dir ms d" "list_all plain_element ns" "ns \<noteq> []"
  shows "rest_below d (below dir ns) = (if prefix ms ns then Some (drop (length ms) ns) else None)"
  using assms rooted_below unrooted_below by (auto simp: rest_below_def at_dir_def base_below)

text \<open>The elements of the place of a body, and what lies in a directory.\<close>

definition elems :: "bytes \<Rightarrow> string list" where
  "elems b = archive_elements (eq_id (decode b)) (warn_num (decode b))"

lemma decoded_ok: "id_ok (eq_id (decode b))" "0 \<le> warn_num (decode b)"
  using wf_decode [of b] by (simp_all add: wf_telegram_def id_ok_def)

lemma elems_plain: "list_all plain_element (elems b)" "elems b \<noteq> []"
  using archive_plain decoded_ok by (simp_all add: elems_def)

lemma place_elems: "dir \<noteq> [] \<Longrightarrow> place dir b = below dir (elems b)"
  by (simp add: place_def elems_def final_path_below decoded_ok)

lemma set_map_filter: "set (List.map_filter f xs) = {y. \<exists>x \<in> set xs. f x = Some y}"
  by (force simp: map_filter_def)

lemma set_children:
  assumes "dir \<noteq> []" "set paths = place dir ` B" "at_dir dir ms d"
  shows "set (children paths d) = {(n, ns \<noteq> []) | b n ns. b \<in> B \<and> elems b = ms @ n # ns}"
proof -
  have r: "rest_below d (place dir b) = (if prefix ms (elems b) then Some (drop (length ms) (elems b)) else None)" for b
    unfolding place_elems [OF assms(1)] by (rule rest_below_at [OF assms(3) elems_plain])
  have e: "(case rest_below d (place dir b) of Some (n # ns) \<Rightarrow> Some (n, ns \<noteq> []) | _ \<Rightarrow> None) = Some c \<longleftrightarrow>
      (\<exists>n ns. c = (n, ns \<noteq> []) \<and> elems b = ms @ n # ns)" for b c
    unfolding r by (auto simp: prefix_def split: list.split)
  have "set (children paths d) = {c. \<exists>b \<in> B. (case rest_below d (place dir b) of Some (n # ns) \<Rightarrow> Some (n, ns \<noteq> []) | _ \<Rightarrow> None) = Some c}"
    using assms(2) by (force simp: children_def set_map_filter)
  then show ?thesis unfolding e by blast
qed

lemma dir_exists_tree:
  assumes "dir \<noteq> []" "set paths = place dir ` B" "at_dir dir ms d"
  shows "dir_exists (tree paths files) d \<longleftrightarrow> (\<exists>b \<in> B. \<exists>n ns. elems b = ms @ n # ns)"
proof -
  have "dir_exists (tree paths files) d \<longleftrightarrow> set (children paths d) \<noteq> {}" by (simp add: tree_def)
  then show ?thesis unfolding set_children [OF assms] by blast
qed

lemma dir_list_tree:
  assumes "dir \<noteq> []" "set paths = place dir ` B" "at_dir dir ms d" "dir_list (tree paths files) d = Some es"
  shows "set es = {(n, \<exists>b \<in> B. \<exists>ns. elems b = ms @ n # ns \<and> ns \<noteq> []) | n. \<exists>b \<in> B. \<exists>ns. elems b = ms @ n # ns}"
    "sorted (map fst es)" "distinct (map fst es)"
proof -
  let ?cs = "children paths d"
  have es: "es = map (\<lambda>n. (n, (n, True) \<in> set ?cs)) (sort (remdups (map fst ?cs)))"
    using assms(4) by (simp add: tree_def Let_def split: if_splits)
  have f: "map fst es = sort (remdups (map fst ?cs))" by (simp add: es comp_def)
  show "sorted (map fst es)" "distinct (map fst es)" unfolding f by simp_all
  have t: "(n, True) \<in> set ?cs \<longleftrightarrow> (\<exists>b \<in> B. \<exists>ns. elems b = ms @ n # ns \<and> ns \<noteq> [])" for n
    unfolding set_children [OF assms(1-3)] by auto
  have n: "n \<in> fst ` set ?cs \<longleftrightarrow> (\<exists>b \<in> B. \<exists>ns. elems b = ms @ n # ns)" for n
    unfolding set_children [OF assms(1-3)] by force
  have "fst ` set ?cs = {n. \<exists>b \<in> B. \<exists>ns. elems b = ms @ n # ns}" using n by blast
  then show "set es = {(n, \<exists>b \<in> B. \<exists>ns. elems b = ms @ n # ns \<and> ns \<noteq> []) | n. \<exists>b \<in> B. \<exists>ns. elems b = ms @ n # ns}"
    unfolding es t by (simp add: image_Collect)
qed

lemma dir_list_tree_None:
  "dir_list (tree paths files) d = None \<longleftrightarrow> \<not> dir_exists (tree paths files) d"
  by (simp add: tree_def Let_def)


section \<open>Levels of numbers\<close>

lemma dec_val_Cons: "dec_val (c # s) = digit_val c * 10 ^ length s + dec_val s"
proof (induction s rule: rev_induct)
  case (snoc d s)
  then show ?case using dec_val_snoc [of "c # s" d] by (simp add: algebra_simps)
qed simp

text \<open>Digits of the same length are ordered as their values.\<close>

lemma dec_val_le:
  "list_all is_digit a \<Longrightarrow> list_all is_digit b \<Longrightarrow> length a = length b \<Longrightarrow> a \<le> b \<Longrightarrow> dec_val a \<le> dec_val b"
proof (induction a arbitrary: b)
  case (Cons c a)
  then obtain d b' where b: "b = d # b'" by (cases b) auto
  have "dec_val a < 10 ^ length a" using Cons.prems(1) by (intro dec_val_bound) simp
  show ?case
  proof (cases "c = d")
    case True
    then show ?thesis using Cons b by (simp add: dec_val_Cons)
  next
    case False
    then have "c < d" using Cons.prems(4) b by simp
    then have "of_char c < (of_char d :: nat)" by (simp add: less_char_def)
    moreover have "is_digit c" using Cons.prems(1) by simp
    ultimately have "digit_val c < digit_val d" by (auto simp: digit_val_def is_digit_def)
    then have "(digit_val c + 1) * 10 ^ length a \<le> digit_val d * 10 ^ length a" by (intro mult_right_mono) auto
    then show ?thesis using \<open>dec_val a < 10 ^ length a\<close> Cons.prems(3) b by (simp add: dec_val_Cons)
  qed
qed simp

lemma dec_val_inject:
  assumes "list_all is_digit a" "list_all is_digit b" "length a = length b" "dec_val a = dec_val b"
  shows "a = b"
proof (cases "a = []")
  case False
  have "a = fmt_0d (length a) (int (dec_val a))" using fmt_0d_dec_val [OF assms(1) False] by simp
  moreover have "b \<noteq> []" using False assms(3) by auto
  then have "fmt_0d (length a) (int (dec_val a)) = b" using fmt_0d_dec_val [OF assms(2)] assms(3,4) by simp
  ultimately show ?thesis by simp
qed (use assms(3) in simp)

lemma numeric_level:
  assumes "dir_list fs d = Some es" "sorted (map fst es)" "distinct (map fst es)"
    and "\<And>n. (n, True) \<in> set es \<longleftrightarrow> n \<in> S" "\<And>n. n \<in> S \<Longrightarrow> list_all is_digit n \<and> length n = w"
    and "0 < w" "w \<le> 18"
  shows "numbers (numeric_subdirs fs d) = sorted_list_of_set ((\<lambda>n. int (dec_val n)) ` S)"
proof -
  let ?P = "\<lambda>(n, is_dir). is_dir \<and> n \<noteq> [] \<and> is_digit (hd n)"
  define ns where "ns = map fst (filter ?P es)"
  have s: "sorted ns" "distinct ns"
    unfolding ns_def using assms(2,3) by (simp_all add: sorted_filter distinct_map_filter)
  have digits: "n \<noteq> [] \<and> is_digit (hd n)" if "n \<in> S" for n
    using assms(5) [OF that] assms(6) by (cases n) auto
  have "n \<in> set ns \<longleftrightarrow> (n, True) \<in> set es \<and> n \<noteq> [] \<and> is_digit (hd n)" for n
    by (auto simp: ns_def image_iff split: prod.split)
  then have set: "set ns = S" using assms(4) digits by blast
  have sub: "numeric_subdirs fs d = ns" using s(1) by (simp add: numeric_subdirs_def assms(1) ns_def sorted_sort_id)
  have atoi: "atoi n = Some (int (dec_val n))" if "n \<in> S" for n
  proof -
    have "list_all is_digit n" "length n = w" "n \<noteq> []" using assms(5) [OF that] digits [OF that] by auto
    moreover have "dec_val n < 10 ^ w" using dec_val_bound [of n] calculation by simp
    moreover have "(10 :: nat) ^ w \<le> 10 ^ 18" using assms(7) by (intro power_increasing) auto
    ultimately show ?thesis by (simp add: atoi_digits)
  qed
  have "numbers ns = map (\<lambda>n. int (dec_val n)) ns"
  proof -
    have "\<forall>n \<in> set ns. atoi n = Some (int (dec_val n))" using set atoi by simp
    then show ?thesis unfolding numbers_def by (induction ns) (simp_all add: map_filter_simps)
  qed
  moreover have "sorted (map (\<lambda>n. int (dec_val n)) ns)"
    using s(1) set assms(5) by (intro sorted_map_mono) (auto intro!: mono_onI dec_val_le)
  moreover have "distinct (map (\<lambda>n. int (dec_val n)) ns)"
    using s(2) set assms(5) by (auto simp: distinct_map inj_on_def intro: dec_val_inject)
  moreover have "set (map (\<lambda>n. int (dec_val n)) ns) = (\<lambda>n. int (dec_val n)) ` S" by (simp add: set)
  ultimately show ?thesis unfolding sub
    by (metis sorted_list_of_set.idem_if_sorted_distinct)
qed

lemma level_numbers:
  assumes "dir \<noteq> []" "set paths = place dir ` B" "at_dir dir ms d"
    and "\<And>n. (\<exists>b \<in> B. \<exists>ns. elems b = ms @ n # ns \<and> ns \<noteq> []) \<longleftrightarrow> n \<in> S"
    and "\<And>n. n \<in> S \<Longrightarrow> list_all is_digit n \<and> length n = w" "0 < w" "w \<le> 18"
  shows "numbers (numeric_subdirs (tree paths files) d) = sorted_list_of_set ((\<lambda>n. int (dec_val n)) ` S)"
proof (cases "dir_list (tree paths files) d")
  case None
  then have "\<not> (\<exists>b \<in> B. \<exists>n ns. elems b = ms @ n # ns)"
    using dir_list_tree_None dir_exists_tree [OF assms(1-3)] by blast
  then have "S = {}" using assms(4) by blast
  then show ?thesis using None by (simp add: numeric_subdirs_def numbers_def)
next
  case (Some es)
  note l = dir_list_tree [OF assms(1-3) Some]
  have "(n, True) \<in> set es \<longleftrightarrow> n \<in> S" for n unfolding l(1) using assms(4) by blast
  from numeric_level [OF Some l(2,3) this assms(5-7)] show ?thesis .
qed


section \<open>The pages of the archive\<close>

type_synonym report_key = "string \<times> int"

definition key_of :: "bytes \<Rightarrow> report_key" where
  "key_of b = (eq_id (decode b), warn_num (decode b))"

definition report_name :: "report_key \<Rightarrow> string" where
  "report_name k = fst k @ ''.'' @ itoa (snd k)"

text \<open>The ids of the bodies that have one; an id whose date the viewer accepts.\<close>

definition ids_of :: "bytes set \<Rightarrow> string set" where
  "ids_of B = {eq_id (decode b) | b. b \<in> B \<and> eq_id (decode b) \<noteq> []}"

definition dated :: "string \<Rightarrow> bool" where
  "dated k \<longleftrightarrow> 2000 \<le> id_year k \<and> id_year k \<le> 3000 \<and> 1 \<le> id_month k \<and> id_month k \<le> 12
     \<and> 1 \<le> id_day k \<and> id_day k \<le> 31"

lemma ids_digits: "k \<in> ids_of B \<Longrightarrow> list_all is_digit k \<and> length k = 14"
  using archived_name by (auto simp: ids_of_def)

lemma id_parts:
  assumes "list_all is_digit k" "length k = 14"
  shows "list_all is_digit (take 4 k)" "list_all is_digit (take 2 (drop 4 k))" "list_all is_digit (take 2 (drop 6 k))"
    "fmt_0d 4 (id_year k) = take 4 k" "fmt_0d 2 (id_month k) = take 2 (drop 4 k)" "fmt_0d 2 (id_day k) = take 2 (drop 6 k)"
proof -
  show d: "list_all is_digit (take 4 k)" "list_all is_digit (take 2 (drop 4 k))" "list_all is_digit (take 2 (drop 6 k))"
    using list_all_take_drop [OF assms(1)] list_all_take_drop [where p = is_digit] by auto
  have n: "take 4 k \<noteq> []" "take 2 (drop 4 k) \<noteq> []" "take 2 (drop 6 k) \<noteq> []" using assms(2) by auto
  show "fmt_0d 4 (id_year k) = take 4 k" "fmt_0d 2 (id_month k) = take 2 (drop 4 k)" "fmt_0d 2 (id_day k) = take 2 (drop 6 k)"
    using fmt_0d_dec_val [OF d(1) n(1)] fmt_0d_dec_val [OF d(2) n(2)] fmt_0d_dec_val [OF d(3) n(3)] assms(2)
    by (simp_all add: id_year_def id_month_def id_day_def)
qed

text \<open>The elements of a place, level by level.\<close>

lemma elems_id:
  "eq_id (decode b) \<noteq> [] \<Longrightarrow> elems b = [take 4 (eq_id (decode b)), take 2 (drop 4 (eq_id (decode b))),
     take 2 (drop 6 (eq_id (decode b))), report_name (key_of b)]"
  "eq_id (decode b) = [] \<Longrightarrow> elems b = [report_name (key_of b)]"
  by (simp_all add: elems_def archive_elements_def report_name_def key_of_def)

lemma levels:
  "(\<exists>b \<in> B. \<exists>ns. elems b = [] @ n # ns \<and> ns \<noteq> []) \<longleftrightarrow> n \<in> take 4 ` ids_of B"
  "(\<exists>b \<in> B. \<exists>ns. elems b = [x] @ n # ns \<and> ns \<noteq> []) \<longleftrightarrow>
     n \<in> (\<lambda>k. take 2 (drop 4 k)) ` {k \<in> ids_of B. take 4 k = x}"
  "(\<exists>b \<in> B. \<exists>ns. elems b = [x, y] @ n # ns \<and> ns \<noteq> []) \<longleftrightarrow>
     n \<in> (\<lambda>k. take 2 (drop 6 k)) ` {k \<in> ids_of B. take 4 k = x \<and> take 2 (drop 4 k) = y}"
  "(\<exists>b \<in> B. \<exists>ns. elems b = [x, y, z] @ n # ns) \<longleftrightarrow>
     (\<exists>b \<in> B. eq_id (decode b) \<in> {k \<in> ids_of B. take 4 k = x \<and> take 2 (drop 4 k) = y \<and> take 2 (drop 6 k) = z}
        \<and> n = report_name (key_of b))"
  "\<not> (elems b = [x, y, z] @ n # m # ns)"
proof -
  have x: "elems b = ms \<longleftrightarrow> eq_id (decode b) \<noteq> [] \<and> [take 4 (eq_id (decode b)), take 2 (drop 4 (eq_id (decode b))),
        take 2 (drop 6 (eq_id (decode b))), report_name (key_of b)] = ms
      \<or> eq_id (decode b) = [] \<and> [report_name (key_of b)] = ms" for b ms
    using elems_id [of b] by (cases "eq_id (decode b) = []") auto
  show "(\<exists>b \<in> B. \<exists>ns. elems b = [] @ n # ns \<and> ns \<noteq> []) \<longleftrightarrow> n \<in> take 4 ` ids_of B"
    unfolding x ids_of_def by auto
  show "(\<exists>b \<in> B. \<exists>ns. elems b = [x] @ n # ns \<and> ns \<noteq> []) \<longleftrightarrow>
     n \<in> (\<lambda>k. take 2 (drop 4 k)) ` {k \<in> ids_of B. take 4 k = x}"
    unfolding x ids_of_def by auto
  show "(\<exists>b \<in> B. \<exists>ns. elems b = [x, y] @ n # ns \<and> ns \<noteq> []) \<longleftrightarrow>
     n \<in> (\<lambda>k. take 2 (drop 6 k)) ` {k \<in> ids_of B. take 4 k = x \<and> take 2 (drop 4 k) = y}"
    unfolding x ids_of_def by auto
  show "(\<exists>b \<in> B. \<exists>ns. elems b = [x, y, z] @ n # ns) \<longleftrightarrow>
     (\<exists>b \<in> B. eq_id (decode b) \<in> {k \<in> ids_of B. take 4 k = x \<and> take 2 (drop 4 k) = y \<and> take 2 (drop 6 k) = z}
        \<and> n = report_name (key_of b))"
    unfolding x ids_of_def by auto metis
  show "\<not> (elems b = [x, y, z] @ n # m # ns)"
    using elems_id [of b] by (cases "eq_id (decode b) = []") simp_all
qed

lemma id_widths:
  "k \<in> ids_of B \<Longrightarrow> length (take 4 k) = 4" "k \<in> ids_of B \<Longrightarrow> length (take 2 (drop 4 k)) = 2"
  "k \<in> ids_of B \<Longrightarrow> length (take 2 (drop 6 k)) = 2"
  using ids_digits [of k B] by simp_all

lemma itoa_year:
  assumes "k \<in> ids_of B" "2000 \<le> id_year k"
  shows "itoa (id_year k) = take 4 k"
proof -
  have f: "fmt_0d 4 (id_year k) = take 4 k" using id_parts(4) ids_digits [OF assms(1)] by blast
  have "length (show_nat (nat (id_year k))) \<ge> 4"
  proof -
    define n where "n = nat (id_year k)"
    have "2000 \<le> n" using assms(2) by (simp add: n_def)
    then have a: "200 \<le> n div 10" using div_le_mono [of 2000 n 10] by simp
    then have b: "20 \<le> n div 10 div 10" using div_le_mono [of 200 "n div 10" 10] by simp
    have l: "length (show_nat m) = Suc (length (show_nat (m div 10)))" if "10 \<le> m" for m
      using that show_nat.simps [of m] by simp
    have "4 \<le> length (show_nat n)"
      using l [of n] l [of "n div 10"] l [of "n div 10 div 10"] a b \<open>2000 \<le> n\<close>
        show_nat_neq_Nil [of "n div 10 div 10 div 10"] by (simp add: Suc_le_eq)
    then show ?thesis by (simp add: n_def)
  qed
  then show ?thesis using f assms(2) by (simp add: fmt_0d_def itoa_def Let_def)
qed

text \<open>The parts of an id as the printed numbers of its date.\<close>

lemma part_iff:
  assumes "k \<in> ids_of B" "j \<in> ids_of B"
  shows "take 4 k = take 4 j \<longleftrightarrow> id_year k = id_year j"
    "take 2 (drop 4 k) = take 2 (drop 4 j) \<longleftrightarrow> id_month k = id_month j"
    "take 2 (drop 6 k) = take 2 (drop 6 j) \<longleftrightarrow> id_day k = id_day j"
  using id_parts(4-6) [of k] id_parts(4-6) [of j] ids_digits [OF assms(1)] ids_digits [OF assms(2)]
  by (metis id_year_def, metis id_month_def, metis id_day_def)

definition dated_in :: "bytes set \<Rightarrow> bool" where
  "dated_in B \<longleftrightarrow> (\<forall>k \<in> ids_of B. dated k)"

lemma saturate_dated: "dated k \<Longrightarrow> saturate (itoa (id_year k)) 2000 3000 = id_year k
    \<and> saturate (itoa (id_month k)) 1 12 = id_month k \<and> saturate (itoa (id_day k)) 1 31 = id_day k"
  using saturate_range [of 2000 3000 "[]" "id_year k"] saturate_range [of 1 12 "[]" "id_month k"]
    saturate_range [of 1 31 "[]" "id_day k"] by (simp add: dated_def)

text \<open>The directories the handler asks for.\<close>

lemma digits_elems:
  assumes "k \<in> ids_of B"
  shows "plain_element (take 4 k)" "plain_element (take 2 (drop 4 k))" "plain_element (take 2 (drop 6 k))"
  using id_parts(1-3) ids_digits [OF assms] id_widths [OF assms]
  by (auto intro!: digits_plain)

lemma zero_dirs: "fmt_0d 2 0 = ''00''" "itoa 0 = ''0''" "plain_element ''00''" "plain_element ''0''"
  by code_simp+

lemma level_dirs:
  assumes "k \<in> ids_of B" "dated k" "data_dir cfg \<noteq> []"
  defines "dir \<equiv> data_dir cfg"
  shows "at_dir dir [''0''] (year_dir cfg 0)" "at_dir dir [take 4 k] (year_dir cfg (id_year k))"
    "at_dir dir [take 4 k, ''00''] (month_dir cfg (id_year k) 0)"
    "at_dir dir [take 4 k, take 2 (drop 4 k)] (month_dir cfg (id_year k) (id_month k))"
    "at_dir dir [take 4 k, take 2 (drop 4 k), ''00''] (day_dir cfg (id_year k) (id_month k) 0)"
    "at_dir dir [take 4 k, take 2 (drop 4 k), take 2 (drop 6 k)] (day_dir cfg (id_year k) (id_month k) (id_day k))"
proof -
  note d = id_parts(4-6) [of k] ids_digits [OF assms(1)]
  have y: "itoa (id_year k) = take 4 k" using itoa_year [OF assms(1)] assms(2) by (simp add: dated_def)
  note p = digits_elems [OF assms(1)] zero_dirs
  show "at_dir dir [''0''] (year_dir cfg 0)"
    using at_dir_join(1) [OF assms(3), of "[''0'']"] p by (simp add: year_dir_def dir_def)
  show "at_dir dir [take 4 k] (year_dir cfg (id_year k))"
    using at_dir_join(1) [OF assms(3), of "[take 4 k]"] p y by (simp add: year_dir_def dir_def)
  show "at_dir dir [take 4 k, ''00''] (month_dir cfg (id_year k) 0)"
    using at_dir_join(1) [OF assms(3), of "[take 4 k, ''00'']"] p d by (simp add: month_dir_def dir_def)
  show "at_dir dir [take 4 k, take 2 (drop 4 k)] (month_dir cfg (id_year k) (id_month k))"
    using at_dir_join(1) [OF assms(3), of "[take 4 k, take 2 (drop 4 k)]"] p d by (simp add: month_dir_def dir_def)
  show "at_dir dir [take 4 k, take 2 (drop 4 k), ''00''] (day_dir cfg (id_year k) (id_month k) 0)"
    using at_dir_join(1) [OF assms(3), of "[take 4 k, take 2 (drop 4 k), ''00'']"] p d by (simp add: day_dir_def dir_def)
  show "at_dir dir [take 4 k, take 2 (drop 4 k), take 2 (drop 6 k)] (day_dir cfg (id_year k) (id_month k) (id_day k))"
    using at_dir_join(1) [OF assms(3), of "[take 4 k, take 2 (drop 4 k), take 2 (drop 6 k)]"] p d
    by (simp add: day_dir_def dir_def)
qed

text \<open>Where the parts of a report are in range, no directory of a month or day 00 exists.\<close>

lemma no_zero_dirs:
  assumes "dated_in B" "k \<in> ids_of B"
  shows "take 2 (drop 4 k) \<noteq> ''00''" "take 2 (drop 6 k) \<noteq> ''00''" "take 4 k \<noteq> ''0''"
proof -
  have d: "dated k" using assms by (simp add: dated_in_def)
  have z: "dec_val ''00'' = 0" by code_simp
  show "take 2 (drop 4 k) \<noteq> ''00''" "take 2 (drop 6 k) \<noteq> ''00''"
    using d z by (auto simp: dated_def id_month_def id_day_def)
  have "length (take 4 k) \<noteq> length ''0''" using id_widths(1) [OF assms(2)] by simp
  then show "take 4 k \<noteq> ''0''" by metis
qed

lemma no_children:
  assumes "\<And>b n ns. b \<in> B \<Longrightarrow> elems b \<noteq> ms @ n # ns"
    and "dir \<noteq> []" "set paths = place dir ` B" "at_dir dir ms d"
  shows "\<not> dir_exists (tree paths files) d"
  using dir_exists_tree [OF assms(2-4)] assms(1) by blast

lemma elems_inv:
  "elems b = [x] @ n # ns \<Longrightarrow> eq_id (decode b) \<noteq> [] \<and> x = take 4 (eq_id (decode b))"
  "elems b = [x, y] @ n # ns \<Longrightarrow> eq_id (decode b) \<noteq> [] \<and> x = take 4 (eq_id (decode b)) \<and> y = take 2 (drop 4 (eq_id (decode b)))"
  "elems b = [x, y, z] @ n # ns \<Longrightarrow> eq_id (decode b) \<noteq> [] \<and> x = take 4 (eq_id (decode b))
     \<and> y = take 2 (drop 4 (eq_id (decode b))) \<and> z = take 2 (drop 6 (eq_id (decode b)))"
  using elems_id [of b] by (cases "eq_id (decode b) = []"; simp)+

lemma zero_dirs_absent:
  assumes "data_dir cfg \<noteq> []" "set paths = place (data_dir cfg) ` B" "dated_in B"
  shows "\<not> dir_exists (tree paths files) (year_dir cfg 0)"
    and "k \<in> ids_of B \<Longrightarrow> \<not> dir_exists (tree paths files) (month_dir cfg (id_year k) 0)"
    and "k \<in> ids_of B \<Longrightarrow> \<not> dir_exists (tree paths files) (day_dir cfg (id_year k) (id_month k) 0)"
proof -
  have id: "eq_id (decode b) \<in> ids_of B" if "b \<in> B" "eq_id (decode b) \<noteq> []" for b
    using that by (auto simp: ids_of_def)
  note nz = no_zero_dirs [OF assms(3)]
  have "at_dir (data_dir cfg) [''0''] (year_dir cfg 0)"
    using at_dir_join(1) [OF assms(1), of "[''0'']"] zero_dirs by (simp add: year_dir_def)
  then show "\<not> dir_exists (tree paths files) (year_dir cfg 0)"
  proof (rule no_children [OF _ assms(1,2), rotated])
    fix b n ns assume "b \<in> B"
    then show "elems b \<noteq> [''0''] @ n # ns" using elems_inv(1) [of b "''0''" n ns] id [of b] nz(3) [of "eq_id (decode b)"] by auto
  qed
  assume k: "k \<in> ids_of B"
  have dk: "dated k" using k assms(3) by (simp add: dated_in_def)
  show "\<not> dir_exists (tree paths files) (month_dir cfg (id_year k) 0)"
  proof (rule no_children [OF _ assms(1,2) level_dirs(3) [OF k dk assms(1)]])
    fix b n ns assume "b \<in> B"
    then show "elems b \<noteq> [take 4 k, ''00''] @ n # ns"
      using elems_inv(2) [of b "take 4 k" "''00''" n ns] id [of b] nz(1) [of "eq_id (decode b)"] by auto
  qed
  show "\<not> dir_exists (tree paths files) (day_dir cfg (id_year k) (id_month k) 0)"
  proof (rule no_children [OF _ assms(1,2) level_dirs(5) [OF k dk assms(1)]])
    fix b n ns assume "b \<in> B"
    then show "elems b \<noteq> [take 4 k, take 2 (drop 4 k), ''00''] @ n # ns"
      using elems_inv(3) [of b "take 4 k" "take 2 (drop 4 k)" "''00''" n ns] id [of b] nz(2) [of "eq_id (decode b)"] by auto
  qed
qed

lemma dirs_present:
  assumes "data_dir cfg \<noteq> []" "set paths = place (data_dir cfg) ` B" "k \<in> ids_of B" "dated k"
  shows "dir_exists (tree paths files) (year_dir cfg (id_year k))"
    and "dir_exists (tree paths files) (month_dir cfg (id_year k) (id_month k))"
    and "dir_exists (tree paths files) (day_dir cfg (id_year k) (id_month k) (id_day k))"
proof -
  obtain b where "b \<in> B" "elems b = [take 4 k, take 2 (drop 4 k), take 2 (drop 6 k), report_name (key_of b)]"
    using assms(3) elems_id(1) by (auto simp: ids_of_def)
  then show "dir_exists (tree paths files) (year_dir cfg (id_year k))"
    "dir_exists (tree paths files) (month_dir cfg (id_year k) (id_month k))"
    "dir_exists (tree paths files) (day_dir cfg (id_year k) (id_month k) (id_day k))"
    using dir_exists_tree [OF assms(1,2) level_dirs(2) [OF assms(3,4,1)]]
      dir_exists_tree [OF assms(1,2) level_dirs(4) [OF assms(3,4,1)]]
      dir_exists_tree [OF assms(1,2) level_dirs(6) [OF assms(3,4,1)]] by auto
qed

text \<open>The three index pages.\<close>

lemma index_pages:
  assumes "data_dir cfg \<noteq> []" "set paths = place (data_dir cfg) ` B" "dated_in B"
  shows "list_handler cfg (tree paths files) [] [] [] =
      List_page (map (year_link cfg) (sorted_list_of_set (id_year ` ids_of B)))"
    and "k \<in> ids_of B \<Longrightarrow> list_handler cfg (tree paths files) (itoa (id_year k)) [] [] =
      List_page (map (\<lambda>m. year_link cfg (id_year k) @ month_link cfg (id_year k) m)
        (sorted_list_of_set (id_month ` {j \<in> ids_of B. id_year j = id_year k})))"
    and "k \<in> ids_of B \<Longrightarrow> list_handler cfg (tree paths files) (itoa (id_year k)) (itoa (id_month k)) [] =
      List_page (map (\<lambda>d. year_link cfg (id_year k) @ month_link cfg (id_year k) (id_month k)
          @ day_link cfg (id_year k) (id_month k) d)
        (sorted_list_of_set (id_day ` {j \<in> ids_of B. id_year j = id_year k \<and> id_month j = id_month k})))"
proof -
  note z = zero_dirs_absent [OF assms]
  have s0: "saturate [] a b = 0" for a b by (simp add: saturate_def)
  have w0: "n \<in> take 4 ` ids_of B \<Longrightarrow> list_all is_digit n \<and> length n = 4" for n
    using ids_digits id_parts(1) by fastforce
  have n0: "numbers (numeric_subdirs (tree paths files) (data_dir cfg)) = sorted_list_of_set (id_year ` ids_of B)"
    using level_numbers [OF assms(1,2) at_dir_self levels(1) w0, where files = files] by (simp add: image_image id_year_def)
  show "list_handler cfg (tree paths files) [] [] [] =
      List_page (map (year_link cfg) (sorted_list_of_set (id_year ` ids_of B)))"
    using z(1) n0 by (simp add: list_handler_def s0 Let_def)
  assume k: "k \<in> ids_of B"
  then have dk: "dated k" using assms(3) by (simp add: dated_in_def)
  note s = saturate_dated [OF dk] and p = dirs_present [OF assms(1,2) k dk]
  have w: "n \<in> (\<lambda>k. take 2 (drop 4 k)) ` {j \<in> ids_of B. P j} \<Longrightarrow> list_all is_digit n \<and> length n = 2"
    "n \<in> (\<lambda>k. take 2 (drop 6 k)) ` {j \<in> ids_of B. P j} \<Longrightarrow> list_all is_digit n \<and> length n = 2" for n P
    using ids_digits id_parts(2,3) by fastforce+
  have n1: "numbers (numeric_subdirs (tree paths files) (year_dir cfg (id_year k))) =
      sorted_list_of_set (id_month ` {j \<in> ids_of B. take 4 j = take 4 k})"
    using level_numbers [OF assms(1,2) level_dirs(2) [OF k dk assms(1)] levels(2) w(1), where files = files]
    by (simp add: image_image id_month_def)
  also have "{j \<in> ids_of B. take 4 j = take 4 k} = {j \<in> ids_of B. id_year j = id_year k}"
    using part_iff(1) k by blast
  finally show "list_handler cfg (tree paths files) (itoa (id_year k)) [] [] =
      List_page (map (\<lambda>m. year_link cfg (id_year k) @ month_link cfg (id_year k) m)
        (sorted_list_of_set (id_month ` {j \<in> ids_of B. id_year j = id_year k})))"
    using z(2) [OF k] p(1) s by (simp add: list_handler_def s0 Let_def)
  have n2: "numbers (numeric_subdirs (tree paths files) (month_dir cfg (id_year k) (id_month k))) =
      sorted_list_of_set (id_day ` {j \<in> ids_of B. take 4 j = take 4 k \<and> take 2 (drop 4 j) = take 2 (drop 4 k)})"
    using level_numbers [OF assms(1,2) level_dirs(4) [OF k dk assms(1)] levels(3) w(2), where files = files]
    by (simp add: image_image id_day_def)
  also have "{j \<in> ids_of B. take 4 j = take 4 k \<and> take 2 (drop 4 j) = take 2 (drop 4 k)} =
      {j \<in> ids_of B. id_year j = id_year k \<and> id_month j = id_month k}"
    using part_iff(1,2) k by blast
  finally show "list_handler cfg (tree paths files) (itoa (id_year k)) (itoa (id_month k)) [] =
      List_page (map (\<lambda>d. year_link cfg (id_year k) @ month_link cfg (id_year k) (id_month k)
          @ day_link cfg (id_year k) (id_month k) d)
        (sorted_list_of_set (id_day ` {j \<in> ids_of B. id_year j = id_year k \<and> id_month j = id_month k})))"
    using z(3) [OF k] p(1,2) s by (simp add: list_handler_def s0 Let_def)
qed

section \<open>The pages of the daemon's archive\<close>

text \<open>The archive of a daemon that has received the telegrams \<open>ts\<close>, every file operation of which has
  succeeded; \<open>paths\<close> lists the files.\<close>

definition daemon_files :: "string \<Rightarrow> dispatcher \<Rightarrow> (io_outcome \<times> string \<times> bytes) list \<Rightarrow> string \<rightharpoonup> bytes" where
  "daemon_files dir d ts = fs_files (snd (snd (process_all ts
     (\<lparr>p_store = Some dir, p_dispatcher = d\<rparr>, \<lparr>fs_files = Map.empty\<rparr>))))"

definition bodies :: "(io_outcome \<times> string \<times> bytes) list \<Rightarrow> bytes set" where
  "bodies ts = (\<lambda>(_, _, b). b) ` set ts"

definition reports :: "(io_outcome \<times> string \<times> bytes) list \<Rightarrow> report_key \<rightharpoonup> bytes" where
  "reports ts = map_of (rev (map (\<lambda>(_, _, b). (key_of b, b)) ts))"

text \<open>Both depend only on the list of the bodies received.\<close>

definition last_reports :: "bytes list \<Rightarrow> report_key \<rightharpoonup> bytes" where
  "last_reports bs = map_of (rev (map (\<lambda>b. (key_of b, b)) bs))"

lemma reports_of_bodies:
  "bodies ts = set (map (\<lambda>(_, _, b). b) ts)" "reports ts = last_reports (map (\<lambda>(_, _, b). b) ts)"
  by (simp_all add: bodies_def reports_def last_reports_def comp_def case_prod_beta')

lemma last_reports_key:
  "b \<in> set bs \<Longrightarrow> \<exists>l \<in> set bs. last_reports bs (key_of b) = Some l \<and> key_of l = key_of b"
proof (induction bs rule: rev_induct)
  case (snoc a bs)
  then show ?case by (cases "key_of a = key_of b") (auto simp: last_reports_def)
qed simp

lemma temps_not_placed:
  assumes "dir \<noteq> []" "list_all (\<lambda>(io, md5, _). io_fine io \<and> md5_ok md5) ts" "path \<in> temps dir ts"
  shows "placed dir us path = None"
proof (rule placed_dom)
  fix b
  from assms(3) obtain io md5 b' where "(io, md5, b') \<in> set ts" "path = temp_path dir (io_now io) md5"
    by (auto simp: temps_def)
  moreover from this(1) assms(2) have "io_fine io \<and> md5_ok md5" by (auto simp: list_all_iff)
  ultimately show "place dir b \<noteq> path"
    using temp_not_place [OF assms(1), of md5 "io_now io" b] by (simp add: io_fine_def)
qed

text \<open>The files after further telegrams, received by the same or by a later process.\<close>

lemma process_more_files:
  assumes "dir \<noteq> []" "list_all (\<lambda>(io, md5, _). io_fine io \<and> md5_ok md5) ts" "p_store p = Some dir"
    and "fs_files fs = placed dir us"
  shows "fs_files (snd (snd (process_all ts (p, fs)))) = placed dir (us @ ts)"
proof
  fix path
  show "fs_files (snd (snd (process_all ts (p, fs)))) path = placed dir (us @ ts) path"
    using process_all_files [OF assms(1-3), of fs path] temps_not_placed [OF assms(1,2), of path "us @ ts"]
    by (auto simp: placed_append assms(4) map_add_def)
qed

lemma daemon_files_placed:
  assumes "dir \<noteq> []" "list_all (\<lambda>(io, md5, _). io_fine io \<and> md5_ok md5) ts"
  shows "daemon_files dir d ts = placed dir ts"
  using process_more_files [OF assms, of "\<lparr>p_store = Some dir, p_dispatcher = d\<rparr>" "\<lparr>fs_files = Map.empty\<rparr>" "[]"]
  by (simp add: daemon_files_def placed_Cons)

lemma dom_placed: "dom (placed dir ts) = place dir ` bodies ts"
  by (force simp: placed_def bodies_def dom_map_of_conv_image_fst)

lemma place_key:
  assumes "dir \<noteq> []"
  shows "place dir a = place dir b \<longleftrightarrow> key_of a = key_of b"
  unfolding place_elems [OF assms] below_inject [OF elems_plain(1) elems_plain(1) elems_plain(2) elems_plain(2)]
  using archive_inject decoded_ok by (auto simp: elems_def key_of_def)

lemma placed_reports:
  assumes "dir \<noteq> []"
  shows "placed dir ts (place dir b) = reports ts (key_of b)"
  by (induction ts rule: rev_induct) (auto simp: placed_def reports_def place_key [OF assms])

lemma dom_reports: "dom (reports ts) = key_of ` bodies ts"
  by (force simp: reports_def bodies_def dom_map_of_conv_image_fst)

text \<open>The name of a report, and its place.\<close>

lemma report_name_ok:
  assumes "eq_id (decode b) \<noteq> []"
  shows "split_eew_name (report_name (key_of b)) = Some (key_of b)" "plain_element (report_name (key_of b))"
    "name_key (report_name (key_of b)) = key_of b"
proof -
  note n = archived_name [OF assms]
  show s: "split_eew_name (report_name (key_of b)) = Some (key_of b)"
    using n assms by (simp add: report_name_def key_of_def split_eew_name_iff)
  show "plain_element (report_name (key_of b))"
    using n dotted_plain [of "eq_id (decode b)"] by (simp add: report_name_def key_of_def)
  show "name_key (report_name (key_of b)) = key_of b" using s by (simp add: name_key_def)
qed

lemma report_place:
  assumes "eq_id (decode b) \<noteq> []" "data_dir cfg \<noteq> []" "eq_id (decode b) = k"
  shows "join_path [day_dir cfg (id_year k) (id_month k) (id_day k), report_name (key_of b)] = place (data_dir cfg) b"
proof -
  have k: "list_all is_digit k" "length k = 14" using archived_name [OF assms(1)] assms(3) by auto
  note dd = day_dir_below [OF k assms(2)]
  show ?thesis
    unfolding dd(1) join_below [OF dd(2) _ report_name_ok(2) [OF assms(1)], simplified] place_elems [OF assms(2)]
    using elems_id(1) [OF assms(1)] assms(3) by simp
qed

text \<open>The reports of a day.\<close>

definition day_keys :: "bytes set \<Rightarrow> string \<Rightarrow> report_key set" where
  "day_keys B k = {key_of b | b. b \<in> B \<and> eq_id (decode b) \<noteq> [] \<and> id_year (eq_id (decode b)) = id_year k
     \<and> id_month (eq_id (decode b)) = id_month k \<and> id_day (eq_id (decode b)) = id_day k}"

lemma day_files:
  assumes "data_dir cfg \<noteq> []" "set paths = place (data_dir cfg) ` B" "k \<in> ids_of B" "dated k"
    and "dir_list (tree paths files) (day_dir cfg (id_year k) (id_month k) (id_day k)) = Some es"
  shows "set es = (\<lambda>j. (report_name j, False)) ` day_keys B k" "distinct (map fst es)"
proof -
  note l = dir_list_tree [OF assms(1,2) level_dirs(6) [OF assms(3,4,1)] assms(5)]
  show "distinct (map fst es)" by (rule l(3))
  let ?x = "take 4 k" and ?y = "take 2 (drop 4 k)" and ?z = "take 2 (drop 6 k)"
  have sub: "\<not> (\<exists>b \<in> B. \<exists>ns. elems b = [?x, ?y, ?z] @ n # ns \<and> ns \<noteq> [])" for n
    using levels(5) by (metis neq_Nil_conv)
  have keys: "(\<exists>b \<in> B. \<exists>ns. elems b = [?x, ?y, ?z] @ n # ns) \<longleftrightarrow> n \<in> report_name ` day_keys B k" for n
  proof -
    have "eq_id (decode b) \<in> {j \<in> ids_of B. take 4 j = ?x \<and> take 2 (drop 4 j) = ?y \<and> take 2 (drop 6 j) = ?z} \<longleftrightarrow>
        eq_id (decode b) \<noteq> [] \<and> id_year (eq_id (decode b)) = id_year k
         \<and> id_month (eq_id (decode b)) = id_month k \<and> id_day (eq_id (decode b)) = id_day k" if "b \<in> B" for b
    proof (cases "eq_id (decode b) = []")
      case False
      then have "eq_id (decode b) \<in> ids_of B" using that by (auto simp: ids_of_def)
      from part_iff [OF this assms(3)] False this show ?thesis by simp
    qed (use ids_digits in fastforce)
    then show ?thesis unfolding levels(4) day_keys_def by blast
  qed
  show "set es = (\<lambda>j. (report_name j, False)) ` day_keys B k"
    unfolding l(1) using sub keys by (auto simp: image_iff)
qed

lemma sorted_keys:
  assumes "distinct ns" "set ns = report_name ` K" "\<And>j. j \<in> K \<Longrightarrow> split_eew_name (report_name j) = Some j"
  shows "sort_by less_eew_file ns = map report_name (sorted_list_of_set K)"
proof -
  let ?s = "sort_by less_eew_file ns"
  have nk: "name_key (report_name j) = j" if "j \<in> K" for j using assms(3) [OF that] by (simp add: name_key_def)
  have inv: "report_name (name_key n) = n" if "n \<in> set ns" for n using that nk assms(2) by auto
  have "less_eew_file x y \<longleftrightarrow> name_key x < name_key y" if xy: "x \<in> set ns" "y \<in> set ns" for x y
  proof -
    obtain i j where "x = report_name i" "y = report_name j" "i \<in> K" "j \<in> K" using xy assms(2) by auto
    then show ?thesis using less_by_report [of x "fst i" "snd i" y "fst j" "snd j"] assms(3) nk by simp
  qed
  then have srt: "sorted (map name_key ?s)" by (intro sorted_sort_by) blast
  have d: "distinct ?s" using assms(1) by (metis mset_sort_by mset_eq_imp_distinct_iff)
  have st: "set ?s = set ns" by (rule set_sort_by)
  have "inj_on name_key (set ?s)" unfolding st by (rule inj_on_inverseI [of _ report_name]) (rule inv)
  then have "distinct (map name_key ?s)" using d by (simp add: distinct_map)
  moreover have "set (map name_key ?s) = K"
    using image_cong [of K K "\<lambda>j. name_key (report_name j)" id] nk by (simp add: st assms(2) image_image)
  ultimately have "map name_key ?s = sorted_list_of_set K"
    using srt by (metis sorted_list_of_set.idem_if_sorted_distinct)
  moreover have "map report_name (map name_key ?s) = ?s"
    unfolding map_map by (rule map_idI) (simp add: st inv)
  ultimately show ?thesis by metis
qed

lemma day_page:
  assumes "data_dir cfg \<noteq> []" "list_all (\<lambda>(io, md5, _). io_fine io \<and> md5_ok md5) ts"
    and "set paths = dom (daemon_files (data_dir cfg) d ts)" "k \<in> ids_of (bodies ts)" "dated k"
  shows "list_handler cfg (tree paths (daemon_files (data_dir cfg) d ts)) (itoa (id_year k)) (itoa (id_month k)) (itoa (id_day k))
    = List_page (map (\<lambda>j. file_row cfg (day_title (id_year k) (id_month k) (id_day k)) (report_name j) (the (reports ts j)))
        (sorted_list_of_set (day_keys (bodies ts) k)))"
proof -
  let ?f = "daemon_files (data_dir cfg) d ts" and ?D = "day_dir cfg (id_year k) (id_month k) (id_day k)"
  have f: "?f = placed (data_dir cfg) ts" by (rule daemon_files_placed [OF assms(1,2)])
  have paths: "set paths = place (data_dir cfg) ` bodies ts" using assms(3) unfolding f dom_placed .
  note s = saturate_dated [OF assms(5)] and p = dirs_present [OF assms(1) paths assms(4,5)]
  obtain es where es: "dir_list (tree paths ?f) ?D = Some es"
    using p(3) dir_list_tree_None by fastforce
  note l = day_files [OF assms(1) paths assms(4,5) es]
  let ?K = "day_keys (bodies ts) k"
  have K: "\<exists>b \<in> bodies ts. j = key_of b \<and> eq_id (decode b) \<noteq> []
      \<and> join_path [?D, report_name j] = place (data_dir cfg) b" if "j \<in> ?K" for j
  proof -
    from that obtain b where b: "b \<in> bodies ts" "j = key_of b" "eq_id (decode b) \<noteq> []"
      "id_year (eq_id (decode b)) = id_year k" "id_month (eq_id (decode b)) = id_month k"
      "id_day (eq_id (decode b)) = id_day k" by (auto simp: day_keys_def)
    from report_place [OF b(3) assms(1) refl] b show ?thesis by auto
  qed
  let ?ns = "filter (\<lambda>n. split_eew_name n \<noteq> None) (map fst (filter (\<lambda>(n, is_dir). \<not> is_dir) es))"
  have sp: "split_eew_name (report_name j) = Some j" if "j \<in> ?K" for j
    using K [OF that] report_name_ok(1) by auto
  have "set ?ns = report_name ` ?K" using l(1) sp by (force simp: image_iff)
  moreover have "distinct ?ns" using l(2) by (simp add: distinct_map_filter)
  ultimately have ns: "sort_by less_eew_file ?ns = map report_name (sorted_list_of_set ?K)"
    by (intro sorted_keys sp)
  have "finite ?K" unfolding day_keys_def bodies_def by simp
  then have rd: "?f (join_path [?D, report_name j]) = reports ts j \<and> reports ts j \<noteq> None"
    if "j \<in> set (sorted_list_of_set ?K)" for j
    using K [of j] that placed_reports [OF assms(1)] dom_reports f by force
  have "List.map_filter (\<lambda>n. map_option (g n) (h n)) (map report_name js) = map (\<lambda>j. g (report_name j) (the (reports ts j))) js"
    if "\<forall>j \<in> set js. h (report_name j) = reports ts j \<and> reports ts j \<noteq> None"
    for g :: "string \<Rightarrow> bytes \<Rightarrow> string" and h js
    using that by (induction js) (auto simp: map_filter_simps)
  then show ?thesis
    using p s es ns rd by (simp add: list_handler_def Let_def tree_def)
qed

text \<open>The page of a report shows the last body received for it.\<close>

lemma report_page:
  assumes "is_rooted cwd" "data_dir cfg \<noteq> []" "list_all (\<lambda>(io, md5, _). io_fine io \<and> md5_ok md5) ts"
    and "eq_id (decode b) \<noteq> []" "reports ts (key_of b) = Some l"
  shows "\<exists>page. detail_handler sjis cwd cfg (tree paths (daemon_files (data_dir cfg) d ts)) (report_name (key_of b)) = Detail page
     \<and> dp_title page = detail_summary_text (decode l) \<and> dp_fields page = build_fields (decode l)
     \<and> dp_ebi page = build_ebi_rows (ebi (decode l)) \<and> dp_raw page = mark_control_chars (sjis l)"
proof -
  have "daemon_files (data_dir cfg) d ts (place (data_dir cfg) b) = Some l"
    unfolding daemon_files_placed [OF assms(2,3)] placed_reports [OF assms(2)] by (rule assms(5))
  then show ?thesis
    using archived_lookup [OF assms(1,2,4)]
    by (simp add: detail_handler_def place_def tree_def Let_def report_name_def key_of_def)
qed


text \<open>One report filed by a daemon.\<close>

definition one_report :: archive where
  "one_report = tree [place (data_dir example_config) (report_text [] example_report)]
     (daemon_files (data_dir example_config) (new_dispatcher [] []) [example_telegram])"

lemma one_report_ok:
  "data_dir example_config \<noteq> []"
  "list_all (\<lambda>(io, md5, _). io_fine io \<and> md5_ok md5) [example_telegram]"
  "set [place (data_dir example_config) (report_text [] example_report)] =
     dom (daemon_files (data_dir example_config) (new_dispatcher [] []) [example_telegram])"
  "ids_of (bodies [example_telegram]) = {''20110312042346''}" "dated ''20110312042346''"
  "reports [example_telegram] (key_of (report_text [] example_report)) = Some (report_text [] example_report)"
proof -
  show ne: "data_dir example_config \<noteq> []"
    and ok: "list_all (\<lambda>(io, md5, _). io_fine io \<and> md5_ok md5) [example_telegram]"
    using example_archive_ok(1,2) by (simp_all add: example_telegram_def)
  have b: "bodies [example_telegram] = {report_text [] example_report}"
    by (simp add: bodies_def example_telegram_def)
  show "set [place (data_dir example_config) (report_text [] example_report)] =
     dom (daemon_files (data_dir example_config) (new_dispatcher [] []) [example_telegram])"
    unfolding daemon_files_placed [OF ne ok] dom_placed b by simp
  show "ids_of (bodies [example_telegram]) = {''20110312042346''}"
    unfolding b ids_of_def using example_eq_id by auto
  show "dated ''20110312042346''"
    by (simp add: dated_def id_year_def id_month_def id_day_def dec_val_def digit_val_def)
  show "reports [example_telegram] (key_of (report_text [] example_report)) = Some (report_text [] example_report)"
    by (simp add: reports_def example_telegram_def)
qed

lemma example_date: "id_year ''20110312042346'' = 2011" "id_month ''20110312042346'' = 3" "id_day ''20110312042346'' = 12"
  by (simp_all add: id_year_def id_month_def id_day_def dec_val_def digit_val_def)


text \<open>The page of the day of that report has its row alone.\<close>

lemma day_page_example:
  "list_handler example_config one_report (itoa 2011) (itoa 3) (itoa 12) = List_page
     [file_row example_config (day_title 2011 3 12) (report_name (key_of (report_text [] example_report)))
        (report_text [] example_report)]"
proof -
  have k: "''20110312042346'' \<in> ids_of (bodies [example_telegram])" using one_report_ok(4) by simp
  have "day_keys (bodies [example_telegram]) ''20110312042346'' = {key_of (report_text [] example_report)}"
    unfolding day_keys_def using example_eq_id by (auto simp: bodies_def example_telegram_def)
  then show ?thesis
    using day_page [OF one_report_ok(1-3) k one_report_ok(5)] one_report_ok(6)
    by (simp add: example_date one_report_def)
qed

end
