(* ===== verification/Irc_Delivery.thy ===== *)
theory Irc_Delivery
  imports Irc_Connection
begin

text \<open>
  What becomes of one report on its way through an IRC connection: from the notification through the queue
  and the writer to the commands handed to goirc, in every interleaving of telegrams, callbacks and steps of
  the writer; and how the writer ends.
\<close>


section \<open>A notice that is held\<close>

text \<open>A notice is pending, or all of its output is sent or being sent.\<close>

definition held :: "conn_env \<Rightarrow> notice \<Rightarrow> connection \<Rightarrow> bool" where
  "held e n c \<longleftrightarrow> n \<in> set (pending (c_queue c))
     \<or> set (message_output e n) \<subseteq> set (c_wire c) \<union> set (in_flight e (c_writer c))"

lemma held_writer:
  assumes "live c" "held e n c"
  shows "held e n (writer_step e p c)"
proof (cases "c_writer c")
  case In_dequeue
  obtain r q' where d: "dequeue (c_queue c) = (r, q')" by (cases "dequeue (c_queue c)")
  have q: "queue_inv (c_queue c)" "\<not> q_closed (c_queue c)" using assms(1) by (simp_all add: live_def)
  show ?thesis
  proof (cases "pending (c_queue c)")
    case Nil
    then have "r = Would_wait" using dequeue_spec [OF q(1)] d q(2) by simp
    then show ?thesis using assms(2) In_dequeue d by (simp add: writer_step.simps)
  next
    case (Cons m ns)
    then have r: "r = Took m" "pending q' = ns" using dequeue_spec [OF q(1)] d by simp_all
    have out: "set (message_output e m) = set (in_flight e (c_writer (writer_step e p c)))"
      using In_dequeue d r by (auto simp: writer_step.simps message_output_def split: sum.splits)
    have "pending (c_queue (writer_step e p c)) = ns" "c_wire (writer_step e p c) = c_wire c"
      using In_dequeue d r by (auto simp: writer_step.simps split: sum.splits)
    then show ?thesis using assms(2) Cons In_dequeue out by (auto simp: held_def)
  qed
next
  case (Sending msg chs)
  then show ?thesis using assms(2) by (cases chs) (auto simp: held_def writer_step.simps)
qed (use assms in \<open>auto simp: held_def writer_step.simps\<close>)

lemma held_callback:
  "held e n c \<Longrightarrow> held e n (handle_connected e' c)" "held e n c \<Longrightarrow> held e n (handle_disconnected c)"
  by (auto simp: held_def handle_connected_def handle_disconnected_def Let_def)


section \<open>Below the capacity\<close>

text \<open>The connection is live, and what is pending is about earthquakes of a set of at most 32.\<close>

definition roomy :: "string list \<Rightarrow> string set \<Rightarrow> connection \<Rightarrow> bool" where
  "roomy all ids c \<longleftrightarrow> live c \<and> q_capacity (c_queue c) = defaultQueueCapacity
     \<and> n_eq ` set (pending (c_queue c)) \<subseteq> ids \<and> i_all (c_dispatcher c) = all"

lemma roomy_new: "roomy all ids (new_connection all lim)"
  by (simp add: roomy_def live_new) (simp add: new_connection_def new_queue_def pending_def new_irc_dispatcher_def)

text \<open>The notice a telegram makes.\<close>

definition notice_for :: "connection \<Rightarrow> telegram \<Rightarrow> string \<Rightarrow> notice" where
  "notice_for c t s = \<lparr>n_eq = eq_id t, n_channels = fst (fst (channels_for (c_dispatcher c) t)),
     n_text = strip_links s, n_priority = snd (fst (channels_for (c_dispatcher c) t))\<rparr>"

lemma notify_enqueues:
  assumes "i_all (c_dispatcher c) \<noteq> []"
  shows "notify t s c = c\<lparr>c_dispatcher := snd (channels_for (c_dispatcher c) t),
    c_queue := enqueue (notice_for c t s) (c_queue c)\<rparr>"
  using channels_for_all(2) [OF assms, of t] by (simp add: notify_def notice_for_def case_prod_beta Let_def)

lemma enqueue_roomy:
  assumes "roomy all ids c" "finite ids" "card ids \<le> 32" "n_eq n \<in> ids"
  shows "pending (enqueue n (c_queue c)) =
    (if n_eq n \<in> n_eq ` set (pending (c_queue c)) then map (\<lambda>m. if n_eq m = n_eq n then n else m) (pending (c_queue c))
     else pending (c_queue c) @ [n])"
proof -
  have q: "queue_inv (c_queue c)" "\<not> q_closed (c_queue c)" using assms(1) by (simp_all add: roomy_def live_def)
  have "int (length (pending (c_queue c))) < q_capacity (c_queue c)" if "n_eq n \<notin> n_eq ` set (pending (c_queue c))"
  proof -
    have "n_eq ` set (pending (c_queue c)) \<subseteq> ids" using assms(1) by (simp add: roomy_def)
    with that assms(4) have "n_eq ` set (pending (c_queue c)) \<subset> ids" by blast
    from psubset_card_mono [OF assms(2) this] assms(3) have "card (n_eq ` set (pending (c_queue c))) < 32" by simp
    moreover have "card (set (map n_eq (pending (c_queue c)))) = length (map n_eq (pending (c_queue c)))"
      using distinct_pending [OF q(1)] by (rule distinct_card)
    ultimately show ?thesis using assms(1) by (simp add: roomy_def defaultQueueCapacity_def)
  qed
  then have "\<not> q_capacity (c_queue c) \<le> int (length (pending (c_queue c)))"
    if "n_eq n \<notin> n_eq ` set (pending (c_queue c))"
    using that by (auto simp: not_le)
  then have "spec_enqueue (q_capacity (c_queue c)) n (pending (c_queue c)) =
    (if n_eq n \<in> n_eq ` set (pending (c_queue c)) then map (\<lambda>m. if n_eq m = n_eq n then n else m) (pending (c_queue c))
     else pending (c_queue c) @ [n])"
    unfolding spec_enqueue_def by (simp cong: if_cong)
  then show ?thesis using enqueue_spec [OF q, of n] by simp
qed

lemma roomy_step:
  assumes "roomy all ids c" "finite ids" "card ids \<le> 32" "all \<noteq> []" "ev \<noteq> Cancelled"
    and "\<And>t s. ev = Telegram t s \<Longrightarrow> eq_id t \<in> ids"
  shows "roomy all ids (conn_step e ev c)"
proof -
  have live: "live (conn_step e ev c)" using live_run [of c "[ev]" e] assms(1,5) by (simp add: roomy_def)
  show ?thesis
  proof (cases ev)
    case (Telegram t s)
    have "i_all (c_dispatcher c) \<noteq> []" using assms(1,4) by (simp add: roomy_def)
    from notify_enqueues [OF this, of t s] enqueue_roomy [OF assms(1-3), of "notice_for c t s"] assms(1,6) live
    show ?thesis by (auto simp: Telegram roomy_def notice_for_def channels_for_props split: if_splits)
  next
    case (Writer_step p)
    have q: "queue_inv (c_queue c)" using assms(1) by (simp add: roomy_def live_def)
    obtain r q' where d: "dequeue (c_queue c) = (r, q')" by (cases "dequeue (c_queue c)")
    have "pending q' = tl (pending (c_queue c))" using dequeue_spec [OF q] d by simp
    then have "set (pending q') \<subseteq> set (pending (c_queue c))" by (cases "pending (c_queue c)") auto
    moreover have "q_capacity q' = q_capacity (c_queue c)" using dequeue_fields(2) [of "c_queue c"] d by simp
    ultimately have "set (pending (c_queue (writer_step e p c))) \<subseteq> set (pending (c_queue c))"
      "q_capacity (c_queue (writer_step e p c)) = q_capacity (c_queue c)"
      "c_dispatcher (writer_step e p c) = c_dispatcher c"
      using d by (simp_all add: writer_step.simps split: writer.splits dequeued.splits sum.splits list.splits)
    then show ?thesis using assms(1) live by (auto simp: Writer_step roomy_def)
  qed (use assms live in \<open>auto simp: roomy_def handle_connected_def handle_disconnected_def live_def Let_def\<close>)
qed

lemma held_step:
  assumes "roomy all ids c" "finite ids" "card ids \<le> 32" "all \<noteq> []" "ev \<noteq> Cancelled"
    and "\<And>t s. ev = Telegram t s \<Longrightarrow> eq_id t \<in> ids \<and> eq_id t \<noteq> n_eq n" and "held e n c"
  shows "held e n (conn_step e ev c)"
proof (cases ev)
  case (Telegram t s)
  have "i_all (c_dispatcher c) \<noteq> []" using assms(1,4) by (simp add: roomy_def)
  from notify_enqueues [OF this, of t s] enqueue_roomy [OF assms(1-3), of "notice_for c t s"] assms(6,7)
  show ?thesis by (force simp: Telegram held_def notice_for_def)
next
  case (Writer_step p)
  then show ?thesis using assms(1,7) by (simp add: held_writer roomy_def)
next
  case Queue_closed
  then show ?thesis using assms(1,7) by (simp add: roomy_def live_def)
qed (use assms in \<open>auto simp: held_callback\<close>)

lemma held_new:
  assumes "roomy all ids c" "finite ids" "card ids \<le> 32" "all \<noteq> []" "eq_id t \<in> ids"
  shows "held e (notice_for c t s) (notify t s c)"
proof -
  have "i_all (c_dispatcher c) \<noteq> []" using assms(1,4) by (simp add: roomy_def)
  from notify_enqueues [OF this, of t s] enqueue_roomy [OF assms(1-3), of "notice_for c t s"] assms(5)
  show ?thesis by (auto simp: held_def notice_for_def)
qed


section \<open>The last report of an earthquake\<close>

text \<open>The earthquakes a history reports, and the command for one channel.\<close>

fun reported :: "conn_event list \<Rightarrow> string list" where
  "reported [] = []"
| "reported (Telegram t s # evs) = eq_id t # reported evs"
| "reported (_ # evs) = reported evs"

lemma set_reported: "k \<in> set (reported evs) \<longleftrightarrow> (\<exists>t s. Telegram t s \<in> set evs \<and> eq_id t = k)"
proof (induction evs)
  case (Cons ev evs)
  then show ?case by (cases ev) auto
qed simp

definition word_to :: "conn_env \<Rightarrow> bytes \<Rightarrow> bytes \<Rightarrow> sent" where
  "word_to e b msg = (case e_type e of Notice_type \<Rightarrow> Sent_notice b msg | Privmsg_type \<Rightarrow> Sent_privmsg b msg)"

lemma send_one_word: "encode_text (e_enc e) (e_charset e) ch = Inr b \<Longrightarrow> send_one e msg ch = [word_to e b msg]"
  by (simp add: send_one_def word_to_def)

lemma word_in_output:
  assumes "encode_text (e_enc e) (e_charset e) (n_text n) = Inr msg" "ch \<in> set (n_channels n)"
    and "encode_text (e_enc e) (e_charset e) ch = Inr b"
  shows "word_to e b msg \<in> set (message_output e n)"
proof -
  have "word_to e b msg \<in> set (send_one e msg ch)" by (simp add: send_one_word [OF assms(3)])
  then show ?thesis using assms(1,2) by (auto simp: message_output_def)
qed

lemma all_in_channels: "set (i_all d) \<subseteq> set (fst (fst (channels_for d t)))"
  by (auto simp: channels_for_def Let_def)

lemma roomy_run:
  assumes "roomy all ids c" "finite ids" "card ids \<le> 32" "all \<noteq> []" "Cancelled \<notin> set evs"
    and "set (reported evs) \<subseteq> ids"
  shows "roomy all ids (conn_run e evs c)"
proof (rule conn_run_induct [where P = "roomy all ids"])
  fix ev c'
  assume "ev \<in> set evs" "roomy all ids c'"
  moreover have "ev \<noteq> Cancelled" using calculation(1) assms(5) by auto
  ultimately show "roomy all ids (conn_step e ev c')"
    using roomy_step [OF _ assms(2-4), of c' ev e] assms(6) by (auto simp: set_reported subset_iff)
qed (rule assms(1))

lemma held_run:
  assumes "roomy all ids c" "finite ids" "card ids \<le> 32" "all \<noteq> []" "Cancelled \<notin> set evs"
    and "set (reported evs) \<subseteq> ids" "n_eq n \<notin> set (reported evs)" "held e n c"
  shows "held e n (conn_run e evs c)"
proof -
  have "roomy all ids (conn_run e evs c) \<and> held e n (conn_run e evs c)"
  proof (rule conn_run_induct [where P = "\<lambda>c. roomy all ids c \<and> held e n c"])
    show "roomy all ids c \<and> held e n c" using assms(1,8) ..
  next
    fix ev c'
    assume ev: "ev \<in> set evs" and c': "roomy all ids c' \<and> held e n c'"
    have ne: "ev \<noteq> Cancelled" using ev assms(5) by auto
    have ids: "eq_id t \<in> ids \<and> eq_id t \<noteq> n_eq n" if "ev = Telegram t s" for t s
      using that ev assms(6,7) by (auto simp: set_reported subset_iff)
    show "roomy all ids (conn_step e ev c') \<and> held e n (conn_step e ev c')"
      using roomy_step [OF _ assms(2-4) ne] held_step [OF _ assms(2-4) ne] ids c' by blast
  qed
  then show ?thesis ..
qed

lemma held_delivered:
  assumes "drainable c" "held e n c"
  shows "\<exists>k. set (message_output e n) \<subseteq> set (c_wire (steps e k c))"
proof -
  from to_dequeue [OF assms(1), of e] obtain k where
    k: "steps e k c = c\<lparr>c_wire := c_wire c @ in_flight e (c_writer c), c_writer := In_dequeue\<rparr>" ..
  let ?c = "c\<lparr>c_wire := c_wire c @ in_flight e (c_writer c), c_writer := In_dequeue\<rparr>"
  have "drainable ?c" using assms(1) by (auto simp: drainable_def live_def ready_inv_def)
  from drain_all [OF this, of "pending (c_queue c)" e] obtain j where
    j: "c_wire (steps e j ?c) = c_wire ?c @ concat (map (message_output e) (pending (c_queue c)))" by auto
  have "steps e (k + j) c = steps e j ?c" using k by (simp only: replicate_add conn_run_simps(3))
  then show ?thesis using j assms(2) by (intro exI [of _ "k + j"]) (auto simp: held_def)
qed

text \<open>In any history of telegrams, reconnections and writer steps in which goirc's callbacks alternate, the
  context is not cancelled and at most 32 earthquakes are reported, take a telegram after which no other
  report of its earthquake comes.  Once the connection is up at the end, the writer hands the text of that
  telegram to the IRC library for every channel of the "all" list, however the telegrams before and after
  it were coalesced.\<close>

lemma last_word_delivered:
  assumes "alternates False evs" "up_after False evs" "Cancelled \<notin> set evs"
    and "evs = earlier @ Telegram t s # later" "eq_id t \<notin> set (reported later)"
    and "card (set (reported evs)) \<le> 32" "ch \<in> set all"
    and "encode_text (e_enc e) (e_charset e) (strip_links s) = Inr msg"
    and "encode_text (e_enc e) (e_charset e) ch = Inr b"
  shows "\<exists>k. word_to e b msg \<in> set (c_wire (steps e k (conn_run e evs (new_connection all lim))))"
proof -
  define c where "c = conn_run e earlier (new_connection all lim)"
  let ?n = "notice_for c t s" and ?ids = "set (reported evs)"
  have sub: "set (reported earlier) \<subseteq> ?ids" "set (reported later) \<subseteq> ?ids" "eq_id t \<in> ?ids"
    by (auto simp: subset_iff set_reported assms(4))
  have nc: "Cancelled \<notin> set earlier" "Cancelled \<notin> set later" using assms(3,4) by auto
  have ne: "all \<noteq> []" using assms(7) by auto
  have c: "roomy all ?ids c" unfolding c_def
    by (rule roomy_run [OF roomy_new _ assms(6) ne nc(1) sub(1)]) simp
  have "roomy all ?ids (conn_step e (Telegram t s) c)"
    by (rule roomy_step [OF c _ assms(6) ne]) (use sub in auto)
  moreover have "held e ?n (conn_step e (Telegram t s) c)"
    using held_new [OF c _ assms(6) ne sub(3)] by simp
  ultimately have "held e ?n (conn_run e later (conn_step e (Telegram t s) c))"
    using assms(5,6) ne nc(2) sub(2) by (intro held_run) (simp_all add: notice_for_def)
  moreover have "conn_run e later (conn_step e (Telegram t s) c) = conn_run e evs (new_connection all lim)"
    by (simp add: assms(4) c_def)
  moreover have "drainable (conn_run e evs (new_connection all lim))"
    unfolding drainable_def using live_run [OF live_new assms(3)] ready_inv_run [OF ready_inv_new assms(1)] assms(2) by simp
  ultimately obtain k where
    k: "set (message_output e ?n) \<subseteq> set (c_wire (steps e k (conn_run e evs (new_connection all lim))))"
    using held_delivered by metis
  have "ch \<in> set (n_channels ?n)"
    using all_in_channels [of "c_dispatcher c" t] c assms(7) by (auto simp: notice_for_def roomy_def)
  then have "word_to e b msg \<in> set (message_output e ?n)"
    using word_in_output [of e ?n msg ch b] assms(8,9) by (simp add: notice_for_def)
  with k show ?thesis by blast
qed

lemma last_word_example:
  "let t = empty_telegram\<lparr>eq_id := ''20110311144640''\<rparr>; u = empty_telegram\<lparr>eq_id := ''20110312042346''\<rparr>;
       evs = [Connected, Telegram t ''1'', Writer_step False, Telegram t ''2'', Telegram u ''3''];
       e = \<lparr>e_enc = Some, e_charset = [], e_type = Privmsg_type\<rparr>
   in \<exists>k. Sent_privmsg ''#a'' ''2'' \<in> set (c_wire (steps e k (conn_run e evs (new_connection [''#a''] []))))"
proof -
  let ?t = "empty_telegram\<lparr>eq_id := ''20110311144640''\<rparr>" and ?u = "empty_telegram\<lparr>eq_id := ''20110312042346''\<rparr>"
  let ?e = "\<lparr>e_enc = Some, e_charset = [], e_type = Privmsg_type\<rparr>"
  let ?evs = "[Connected, Telegram ?t ''1'', Writer_step False, Telegram ?t ''2'', Telegram ?u ''3'']"
  have coded: "encode_text (e_enc ?e) (e_charset ?e) (strip_links ''2'') = Inr ''2''"
    "encode_text (e_enc ?e) (e_charset ?e) ''#a'' = Inr ''#a''" by code_simp+
  have "\<exists>k. word_to ?e ''#a'' ''2'' \<in> set (c_wire (steps ?e k (conn_run ?e ?evs (new_connection [''#a''] []))))"
    by (rule last_word_delivered [where earlier = "[Connected, Telegram ?t ''1'', Writer_step False]" and t = ?t
          and s = "''2''" and later = "[Telegram ?u ''3'']", OF _ _ _ _ _ _ _ coded])
      (simp_all add: empty_telegram_def card_insert_if)
  then show ?thesis by (simp add: word_to_def Let_def)
qed


section \<open>Shutdown\<close>

text \<open>The steps the writer may still take once the context is done and the queue is closed.\<close>

fun position_work :: "writer \<Rightarrow> nat" where
  "position_work Returned_writer = 0"
| "position_work In_dequeue = 1"
| "position_work (Awaiting k) = 2"
| "position_work At_head = 3"
| "position_work (Sending txt chs) = 4 + length chs"

definition writer_work :: "connection \<Rightarrow> nat" where
  "writer_work c = position_work (c_writer c) + sum_list (map (\<lambda>n. 5 + length (n_channels n)) (pending (c_queue c)))"

definition stopping :: "connection \<Rightarrow> bool" where
  "stopping c \<longleftrightarrow> c_done c \<and> q_closed (c_queue c) \<and> queue_inv (c_queue c) \<and> \<not> c_panicked c"

lemma stopping_writer:
  assumes "stopping c"
  shows "stopping (writer_step e p c)
    \<and> (c_writer c = Returned_writer \<longrightarrow> writer_step e p c = c)
    \<and> (c_writer c \<noteq> Returned_writer \<longrightarrow> writer_work (writer_step e p c) < writer_work c)"
proof (cases "c_writer c")
  case In_dequeue
  obtain r q' where d: "dequeue (c_queue c) = (r, q')" by (cases "dequeue (c_queue c)")
  have q: "queue_inv (c_queue c)" "q_closed (c_queue c)" using assms by (simp_all add: stopping_def)
  have q': "queue_inv q'" "q_closed q'"
    using dequeue_spec [OF q(1)] dequeue_fields(1) [of "c_queue c"] d q(2) by simp_all
  show ?thesis
  proof (cases "pending (c_queue c)")
    case Nil
    then have "r = Not_ok" "pending q' = []" using dequeue_spec [OF q(1)] d q(2) by simp_all
    then show ?thesis using assms In_dequeue d q' Nil by (simp add: writer_step.simps stopping_def writer_work_def)
  next
    case (Cons n ns)
    then have "r = Took n" "pending q' = ns" using dequeue_spec [OF q(1)] d by simp_all
    then show ?thesis using assms In_dequeue d q' Cons
      by (auto simp: writer_step.simps stopping_def writer_work_def split: sum.splits)
  qed
next
  case (Sending msg chs)
  then show ?thesis using assms by (cases chs) (auto simp: writer_step.simps stopping_def writer_work_def)
qed (use assms in \<open>auto simp: writer_step.simps stopping_def writer_work_def\<close>)

fun is_writer_step :: "conn_event \<Rightarrow> bool" where
  "is_writer_step (Writer_step p) \<longleftrightarrow> True"
| "is_writer_step _ \<longleftrightarrow> False"

text \<open>The other events leave the work as it is.\<close>

lemma stopping_other:
  assumes "stopping c" "\<not> is_writer_step ev" "ready_inv up (conn_step e ev c)"
  shows "stopping (conn_step e ev c)" "writer_work (conn_step e ev c) = writer_work c"
    "c_writer (conn_step e ev c) = c_writer c"
proof -
  have closed: "enqueue n (c_queue c) = c_queue c" "close_queue (c_queue c) = c_queue c" for n
    using assms(1) by (simp_all add: stopping_def enqueue_closed close_queue_def)
  have "c_writer (conn_step e ev c) = c_writer c \<and> c_queue (conn_step e ev c) = c_queue c
      \<and> c_done (conn_step e ev c)"
    using assms(1,2) closed
    by (cases ev) (auto simp: stopping_def notify_def handle_connected_def handle_disconnected_def Let_def split: prod.split)
  then show "stopping (conn_step e ev c)" "writer_work (conn_step e ev c) = writer_work c"
    "c_writer (conn_step e ev c) = c_writer c"
    using assms(1,3) by (simp_all add: stopping_def writer_work_def ready_inv_def)
qed

lemma alternates_append: "alternates up (xs @ ys) \<longleftrightarrow> alternates up xs \<and> alternates (up_after up xs) ys"
  by (induction up xs rule: alternates.induct) auto

lemma returned_stays: "c_writer c = Returned_writer \<Longrightarrow> c_writer (conn_run e evs c) = Returned_writer"
proof (rule conn_run_induct [where P = "\<lambda>c. c_writer c = Returned_writer"])
  fix ev and c :: connection
  assume "c_writer c = Returned_writer"
  then show "c_writer (conn_step e ev c) = Returned_writer"
    by (cases ev) (auto simp: notify_def handle_connected_def handle_disconnected_def writer_step.simps Let_def split: prod.split)
qed

lemma stopping_run:
  assumes "stopping c" "ready_inv up c" "alternates up evs" "writer_work c \<le> length (filter is_writer_step evs)"
  shows "c_writer (conn_run e evs c) = Returned_writer"
  using assms
proof (induction evs arbitrary: up c)
  case Nil
  then show ?case by (cases "c_writer c") (auto simp: writer_work_def)
next
  case (Cons ev evs)
  have alt: "alternates (up_after up [ev]) evs" "alternates up [ev]"
    using Cons.prems(3) alternates_append [of up "[ev]" evs] by simp_all
  have r: "ready_inv (up_after up [ev]) (conn_step e ev c)"
    using ready_inv_run [OF Cons.prems(2) alt(2), of e] by simp
  show ?case
  proof (cases "is_writer_step ev")
    case False
    note o = stopping_other [OF Cons.prems(1) False r]
    show ?thesis using Cons.IH [OF o(1) r alt(1)] o Cons.prems(4) False by simp
  next
    case True
    then obtain p where ev: "ev = Writer_step p" by (cases ev) auto
    note w = stopping_writer [OF Cons.prems(1), of e p]
    show ?thesis
    proof (cases "c_writer c = Returned_writer")
      case False
      then have "writer_work (conn_step e ev c) \<le> length (filter is_writer_step evs)"
        using w Cons.prems(4) True ev by simp
      then show ?thesis using Cons.IH [OF _ r alt(1)] w ev by simp
    qed (rule returned_stays)
  qed
qed

lemma queue_inv_step: "queue_inv (c_queue c) \<Longrightarrow> queue_inv (c_queue (conn_step e ev c))"
proof (cases ev)
  case (Telegram t s)
  then show "queue_inv (c_queue c) \<Longrightarrow> queue_inv (c_queue (conn_step e ev c))"
    by (auto simp: notify_def enqueue_pending Let_def split: prod.split)
next
  case (Writer_step p)
  assume q: "queue_inv (c_queue c)"
  obtain r q' where d: "dequeue (c_queue c) = (r, q')" by (cases "dequeue (c_queue c)")
  have "queue_inv q'" using dequeue_spec [OF q] d by simp
  then show ?thesis using q d Writer_step
    by (auto simp: writer_step.simps split: writer.split dequeued.split sum.split list.split)
qed (auto simp: handle_connected_def handle_disconnected_def close_queue_def queue_inv_def entry_def Let_def)

text \<open>Shutdown ends the writer: take any history in which goirc's callbacks alternate and which has
  reached a state where the context is cancelled and the queue is closed, wherever the writer then is,
  connected or not.  In every continuation, with whatever callbacks, telegrams and choices of the \<open>select\<close>,
  the writer has returned once it has been given as many steps as \<open>writer_work\<close> says, a number fixed by the
  place it is at and what is pending; so no goroutine is left behind.\<close>

lemma shutdown_ends_writer:
  assumes "c = conn_run e evs (new_connection all lim)" "c_done c" "q_closed (c_queue c)"
    and "alternates False (evs @ rest)" "writer_work c \<le> length (filter is_writer_step rest)"
  shows "c_writer (conn_run e rest c) = Returned_writer"
proof -
  have alt: "alternates False evs" "alternates (up_after False evs) rest" using assms(4) by (simp_all add: alternates_append)
  have r: "ready_inv (up_after False evs) c" unfolding assms(1) by (rule ready_inv_run [OF ready_inv_new alt(1)])
  have "queue_inv (c_queue c)"
    unfolding assms(1)
    by (rule conn_run_induct [where P = "\<lambda>c. queue_inv (c_queue c)"])
      (simp_all add: queue_inv_step new_connection_def queue_inv_new)
  then have "stopping c" using assms(2,3) r by (simp add: stopping_def ready_inv_def)
  from stopping_run [OF this r alt(2) assms(5)] show ?thesis .
qed

lemma shutdown_ends_writer_example:
  "let e = \<lparr>e_enc = Some, e_charset = [], e_type = Notice_type\<rparr>;
       c = conn_run e [Writer_step False, Cancelled, Queue_closed] (new_connection [''#a''] [])
   in writer_work c = 2 \<and> c_writer (conn_run e [Telegram empty_telegram [], Writer_step True, Connected, Writer_step False] c) = Returned_writer"
proof -
  let ?e = "\<lparr>e_enc = Some, e_charset = [], e_type = Notice_type\<rparr>"
  let ?c = "conn_run ?e [Writer_step False, Cancelled, Queue_closed] (new_connection [''#a''] [])"
  have c: "c_done ?c" "q_closed (c_queue ?c)" "writer_work ?c = 2"
    by (simp_all add: new_connection_def writer_step.simps close_queue_def new_queue_def writer_work_def pending_def)
  then have "c_writer (conn_run ?e [Telegram empty_telegram [], Writer_step True, Connected, Writer_step False] ?c) = Returned_writer"
    by (intro shutdown_ends_writer [OF refl c(1,2)]) simp_all
  with c(3) show ?thesis by (simp only: Let_def simp_thms)
qed

end
