(* ===== verification/Daemon_Events.thy ===== *)
theory Daemon_Events
  imports App Irc_Delivery
begin

text \<open>
  The daemon (\<open>internal/app/app.go\<close>) and its IRC connections side by side: telegrams that \<open>onData\<close> receives,
  interleaved in any order with what happens to each connection on its own.
\<close>


section \<open>Events\<close>

text \<open>What happens to a connection on its own: the callbacks of goirc, the context, and the goroutines.\<close>

datatype irc_action = Irc_connected | Irc_disconnected | Irc_cancelled | Irc_queue_closed | Irc_writer bool

fun event_of :: "irc_action \<Rightarrow> conn_event" where
  "event_of Irc_connected = Connected"
| "event_of Irc_disconnected = Disconnected"
| "event_of Irc_cancelled = Cancelled"
| "event_of Irc_queue_closed = Queue_closed"
| "event_of (Irc_writer p) = Writer_step p"

datatype daemon_event = Received io_outcome string bytes | Irc_action nat irc_action

fun daemon_step :: "(nat \<Rightarrow> conn_env) \<Rightarrow> daemon_event \<Rightarrow> daemon \<Rightarrow> daemon" where
  "daemon_step envs (Received io md5 body) d = on_data_received io md5 body d"
| "daemon_step envs (Irc_action i a) d =
     d\<lparr>dm_irc := (dm_irc d)[i := conn_step (envs i) (event_of a) (dm_irc d ! i)]\<rparr>"

definition daemon_run :: "(nat \<Rightarrow> conn_env) \<Rightarrow> daemon_event list \<Rightarrow> daemon \<Rightarrow> daemon" where
  "daemon_run envs evs d = foldl (\<lambda>d ev. daemon_step envs ev d) d evs"

text \<open>What one connection sees of a history, and the bodies received.\<close>

fun seen_by :: "nat \<Rightarrow> daemon_event \<Rightarrow> conn_event list" where
  "seen_by i (Received io md5 body) = [Telegram (decode body) (fst (format (decode body)))]"
| "seen_by i (Irc_action j a) = (if j = i then [event_of a] else [])"

definition history_of :: "nat \<Rightarrow> daemon_event list \<Rightarrow> conn_event list" where
  "history_of i evs = concat (map (seen_by i) evs)"

fun bodies_of :: "daemon_event list \<Rightarrow> bytes list" where
  "bodies_of [] = []"
| "bodies_of (Received io md5 body # evs) = body # bodies_of evs"
| "bodies_of (Irc_action i a # evs) = bodies_of evs"


section \<open>Projection\<close>

text \<open>A connection goes through the history it sees, whatever the others do.\<close>

lemma daemon_step_irc:
  "length (dm_irc (daemon_step envs ev d)) = length (dm_irc d)"
  "i < length (dm_irc d) \<Longrightarrow> dm_irc (daemon_step envs ev d) ! i = conn_run (envs i) (seen_by i ev) (dm_irc d ! i)"
proof -
  have r: "dm_irc (on_data_received io md5 body d) = map (notify (decode body) (fst (format (decode body)))) (dm_irc d)"
    for io md5 body
    using process_result_eq [of io md5 body "dm_processor d" "dm_fs d"]
    by (simp add: on_data_received_def dispatch_to_irc_def case_prod_beta Let_def)
  show "length (dm_irc (daemon_step envs ev d)) = length (dm_irc d)" by (cases ev) (simp_all add: r)
  show "i < length (dm_irc d) \<Longrightarrow> dm_irc (daemon_step envs ev d) ! i = conn_run (envs i) (seen_by i ev) (dm_irc d ! i)"
    by (cases ev) (simp_all add: r)
qed

lemma daemon_run_irc:
  "i < length (dm_irc d) \<Longrightarrow>
     dm_irc (daemon_run envs evs d) ! i = conn_run (envs i) (history_of i evs) (dm_irc d ! i)"
proof (induction evs arbitrary: d)
  case (Cons ev evs)
  then show ?case
    using Cons.IH [of "daemon_step envs ev d"] daemon_step_irc [where envs = envs and ev = ev and d = d]
    by (simp add: daemon_run_def history_of_def)
qed (simp add: daemon_run_def history_of_def)

lemma history_append [simp]: "history_of i (xs @ ys) = history_of i xs @ history_of i ys"
  by (simp add: history_of_def)

lemma history_writer: "history_of i (replicate k (Irc_action i (Irc_writer p))) = replicate k (Writer_step p)"
  by (induction k) (simp_all add: history_of_def)

lemma reported_append [simp]: "reported (xs @ ys) = reported xs @ reported ys"
  by (induction xs rule: reported.induct) simp_all

lemma reported_history: "reported (history_of i evs) = map (eq_id \<circ> decode) (bodies_of evs)"
proof (induction evs rule: bodies_of.induct)
  case (3 j a evs)
  then show ?case by (cases a) (simp_all add: history_of_def)
qed (simp_all add: history_of_def)

lemma cancelled_history: "Cancelled \<in> set (history_of i evs) \<longleftrightarrow> Irc_action i Irc_cancelled \<in> set evs"
proof -
  have "Cancelled = event_of a \<longleftrightarrow> a = Irc_cancelled" for a by (cases a) auto
  then have "Cancelled \<in> set (seen_by i ev) \<longleftrightarrow> ev = Irc_action i Irc_cancelled" for ev by (cases ev) auto
  then show ?thesis by (auto simp: history_of_def)
qed


section \<open>From a telegram to a channel\<close>

text \<open>C13. From the telegram to the IRC channel: the daemon starts from its configuration and goes through any
  interleaving of received telegrams with callbacks, reconnections and writer steps of all its IRC
  connections.  Take a telegram that is the last report of its earthquake, and a configured server whose
  callbacks alternate, which is up at the end and not shut down, with at most 32 earthquakes reported.
  Then that server's writer, running on, hands the telegram's text, without link markup and in the
  server's character set, to the IRC library for every channel of its "all" list; earlier reports, other
  earthquakes, the other servers and the archive cannot prevent it.\<close>

theorem last_report_reaches_irc:
  assumes "start_daemon url_host mkdir_ok write_ok cfg fs = Inr d"
    and "i < length (irc_conf cfg)" and "envs i = conn_env_of enc (irc_conf cfg ! i)"
    and "evs = earlier @ Received io md5 body # later"
    and "eq_id (decode body) \<notin> set (map (eq_id \<circ> decode) (bodies_of later))"
    and "card (set (map (eq_id \<circ> decode) (bodies_of evs))) \<le> 32"
    and "alternates False (history_of i evs)" "up_after False (history_of i evs)"
    and "Irc_action i Irc_cancelled \<notin> set evs"
    and "ch \<in> set (irc_all_notice (irc_conf cfg ! i))"
    and "encode_text enc (srv_charset (irc_server (irc_conf cfg ! i))) ch = Inr b"
    and "encode_text enc (srv_charset (irc_server (irc_conf cfg ! i))) (strip_links (fst (format (decode body)))) = Inr msg"
  shows "\<exists>k. word_to (envs i) b msg \<in>
    set (c_wire (dm_irc (daemon_run envs (evs @ replicate k (Irc_action i (Irc_writer False))) d) ! i))"
proof -
  have irc: "dm_irc d = map start_connection (irc_conf cfg)" by (rule start_daemon_Inr(3) [OF assms(1)])
  then have i: "i < length (dm_irc d)" using assms(2) by simp
  have c: "dm_irc d ! i = new_connection (irc_all_notice (irc_conf cfg ! i)) (irc_limited_notice (irc_conf cfg ! i))"
    using irc assms(2) by (simp add: start_connection_def)
  have e: "e_enc (envs i) = enc" "e_charset (envs i) = srv_charset (irc_server (irc_conf cfg ! i))"
    using assms(3) by (simp_all add: conn_env_of_def)
  have h: "history_of i evs = history_of i earlier
      @ Telegram (decode body) (fst (format (decode body))) # history_of i later"
    unfolding assms(4) by (simp add: history_of_def)
  have "\<exists>k. word_to (envs i) b msg \<in> set (c_wire (steps (envs i) k (conn_run (envs i) (history_of i evs)
      (new_connection (irc_all_notice (irc_conf cfg ! i)) (irc_limited_notice (irc_conf cfg ! i))))))"
    using assms(5-12) e
    by (intro last_word_delivered [OF _ _ _ h]) (simp_all add: reported_history cancelled_history)
  then show ?thesis
    unfolding daemon_run_irc [OF i] history_append history_writer c by simp
qed

lemma last_report_reaches_irc_witness:
  "let srv = \<lparr>irc_server = \<lparr>srv_host = ''h'', srv_port = 6667, srv_password = [], srv_charset = [], srv_message_type = ''privmsg''\<rparr>,
         irc_nick = ''n'', irc_name = ''n'', irc_desc = ''n'', irc_all_notice = [''#a''], irc_limited_notice = []\<rparr>;
       cfg = \<lparr>log_dir = [], slack_conf = None,
         wni_conf = \<lparr>w_user = [], w_passwd = [], w_passwd_md5 = [], w_log_timeout = False, w_log_keep_alive = False,
           w_server_override = []\<rparr>, irc_conf = [srv]\<rparr>;
       io = \<lparr>io_now = 7, io_write = Written, io_mkdir = True, io_rename = True\<rparr>;
       evs = [Irc_action 0 (Irc_writer False), Received io ''0a'' ''old'', Irc_action 0 Irc_connected, Received io ''0a'' ''new'']
   in \<exists>d. start_daemon (\<lambda>_. None) True True cfg \<lparr>fs_files = Map.empty\<rparr> = Inr d
     \<and> (\<exists>k. Sent_privmsg ''#a'' (strip_links (fst (format (decode ''new'')))) \<in>
       set (c_wire (dm_irc (daemon_run (\<lambda>_. conn_env_of Some srv) (evs @ replicate k (Irc_action 0 (Irc_writer False))) d) ! 0)))"
proof -
  let ?srv = "\<lparr>irc_server = \<lparr>srv_host = ''h'', srv_port = 6667, srv_password = [], srv_charset = [], srv_message_type = ''privmsg''\<rparr>,
         irc_nick = ''n'', irc_name = ''n'', irc_desc = ''n'', irc_all_notice = [''#a''], irc_limited_notice = []\<rparr>"
  let ?cfg = "\<lparr>log_dir = [], slack_conf = None,
         wni_conf = \<lparr>w_user = [], w_passwd = [], w_passwd_md5 = [], w_log_timeout = False, w_log_keep_alive = False,
           w_server_override = []\<rparr>, irc_conf = [?srv]\<rparr>"
  let ?io = "\<lparr>io_now = 7, io_write = Written, io_mkdir = True, io_rename = True\<rparr>"
  let ?pre = "[Irc_action 0 (Irc_writer False), Received ?io ''0a'' ''old'', Irc_action 0 Irc_connected]"
  obtain d where d: "start_daemon (\<lambda>_. None) True True ?cfg \<lparr>fs_files = Map.empty\<rparr> = Inr d"
    by (simp add: start_daemon_def)
  have coded: "encode_text Some (srv_charset (irc_server (irc_conf ?cfg ! 0))) s = Inr s" for s
    by (simp add: encode_text_def charset_encoder_def)
  have n: "card (set (map (eq_id \<circ> decode) (bodies_of (?pre @ [Received ?io ''0a'' ''new''])))) \<le> 32"
    by (rule order.trans [OF card_length]) simp
  have "\<exists>k. word_to (conn_env_of Some ?srv) ''#a'' (strip_links (fst (format (decode ''new'')))) \<in>
    set (c_wire (dm_irc (daemon_run (\<lambda>_. conn_env_of Some ?srv) ((?pre @ [Received ?io ''0a'' ''new''])
      @ replicate k (Irc_action 0 (Irc_writer False))) d) ! 0))"
    by (rule last_report_reaches_irc [OF d _ _ refl _ n _ _ _ _ coded coded])
      (simp_all add: history_of_def)
  moreover have "word_to (conn_env_of Some ?srv) b m = Sent_privmsg b m" for b m
    by (simp add: word_to_def conn_env_of_def parse_message_type_def)
  ultimately show ?thesis using d unfolding Let_def by (simp only:) auto
qed

end
