(* ===== verification/Daemon_Shutdown.thy ===== *)
theory Daemon_Shutdown
  imports App
begin

text \<open>
  \<open>runConnectionLoop\<close> of \<open>internal/app/app.go\<close> and \<open>Run\<close> of \<open>internal/wni/client.go\<close> in time, when the context is
  cancelled by a signal (\<open>cmd/eew-notifier/main.go\<close>).  The context cuts short an attempt to connect and a
  sleep, but not a read: \<open>Run\<close> looks at it only between two reads, and a read ends when bytes arrive or
  after the idle timeout.  Times are nanoseconds; the handlers and the login's write are taken to need no time.
\<close>


section \<open>Reads in time\<close>

definition idleTimeout :: int where "idleTimeout = 210 * second"

lemma idleTimeout_pos: "0 < idleTimeout"
  by (simp add: idleTimeout_def second_def)

text \<open>What the turns of \<open>Run\<close> meet: \<open>now\<close> is when a turn starts, \<open>xs\<close> gives the time from then until the next bytes
  arrive, and these.  The result is the read events, each with its time, and when the last one happens.\<close>

type_synonym arrival = "int \<times> bytes \<times> string \<times> bool"

fun timed_reads :: "int \<Rightarrow> int \<Rightarrow> arrival list \<Rightarrow> (int \<times> read_event) list \<times> int" where
  "timed_reads cancel now [] =
     (if cancel \<le> now then ([(now, Ctx_done)], now) else ([(now + idleTimeout, Read_err)], now + idleTimeout))"
| "timed_reads cancel now ((gap, d, ts, wok) # xs) =
     (if cancel \<le> now then ([(now, Ctx_done)], now)
      else if idleTimeout \<le> gap then ([(now + idleTimeout, Read_err)], now + idleTimeout)
      else apfst (Cons (now + gap, Got d ts wok)) (timed_reads cancel (now + gap) xs))"

fun is_got :: "read_event \<Rightarrow> bool" where
  "is_got (Got _ _ _) = True"
| "is_got _ = False"

text \<open>Reads whose bytes come after the cancellation.\<close>

definition late_reads :: "int \<Rightarrow> (int \<times> read_event) list \<Rightarrow> (int \<times> read_event) list" where
  "late_reads cancel es = filter (\<lambda>(t, e). cancel \<le> t \<and> is_got e) es"

lemma timed_reads_end:
  "\<forall>x \<in> set xs. 0 \<le> fst x \<Longrightarrow>
     now \<le> snd (timed_reads cancel now xs) \<and> snd (timed_reads cancel now xs) \<le> max now (cancel + idleTimeout)
     \<and> (\<forall>e \<in> set (fst (timed_reads cancel now xs)). fst e \<le> snd (timed_reads cancel now xs))"
proof (induction cancel now xs rule: timed_reads.induct)
  case (2 cancel now gap d ts wok xs)
  show ?case
  proof (cases "cancel \<le> now \<or> idleTimeout \<le> gap")
    case False
    then have "now + gap \<le> snd (timed_reads cancel (now + gap) xs)
        \<and> snd (timed_reads cancel (now + gap) xs) \<le> max (now + gap) (cancel + idleTimeout)
        \<and> (\<forall>e \<in> set (fst (timed_reads cancel (now + gap) xs)). fst e \<le> snd (timed_reads cancel (now + gap) xs))"
      using 2 by auto
    then show ?thesis using False 2(2) by auto
  qed (use idleTimeout_pos in auto)
qed (use idleTimeout_pos in auto)

lemma late_reads_one: "length (late_reads cancel (fst (timed_reads cancel now xs))) \<le> 1"
proof (induction cancel now xs rule: timed_reads.induct)
  case (2 cancel now gap d ts wok xs)
  have "late_reads cancel (fst (timed_reads cancel t xs)) = []" if "cancel \<le> t" for t
    using that by (cases xs) (auto simp: late_reads_def)
  then show ?case using 2 by (cases "cancel \<le> now + gap") (auto simp: late_reads_def)
qed (simp add: late_reads_def)

lemma late_reads_none:
  assumes "\<forall>x \<in> set xs. 0 \<le> fst x" "snd (timed_reads cancel now xs) < cancel"
  shows "late_reads cancel (fst (timed_reads cancel now xs)) = []"
  using timed_reads_end [OF assms(1), of now cancel] assms(2) by (force simp: late_reads_def filter_empty_conv)


section \<open>The loop in time\<close>

text \<open>What an attempt to connect would meet if it were left alone: it fails after some time, or succeeds after
  some time and is followed by the arrivals of a session.\<close>

datatype net_event = Fails int connect_error | Connects int "arrival list"

fun net_ok :: "net_event \<Rightarrow> bool" where
  "net_ok (Fails dur e) \<longleftrightarrow> 0 \<le> dur"
| "net_ok (Connects dur xs) \<longleftrightarrow> 0 \<le> dur \<and> (\<forall>x \<in> set xs. 0 \<le> fst x)"

record loop_log =
  lg_events :: "loop_event list"
  lg_late :: "(int \<times> read_event) list"
  lg_time :: int
  lg_ended :: bool

definition loop_turn :: "loop_event \<Rightarrow> (int \<times> read_event) list \<Rightarrow> loop_log \<Rightarrow> loop_log" where
  "loop_turn e late r = r\<lparr>lg_events := e # lg_events r, lg_late := late @ lg_late r\<rparr>"

definition loop_end :: "loop_event \<Rightarrow> (int \<times> read_event) list \<Rightarrow> int \<Rightarrow> loop_log" where
  "loop_end e late t = \<lparr>lg_events = [e], lg_late = late, lg_time = t, lg_ended = True\<rparr>"

fun timed_loop :: "int \<Rightarrow> int \<Rightarrow> int \<Rightarrow> net_event list \<Rightarrow> loop_log" where
  "timed_loop cancel b now [] = \<lparr>lg_events = [], lg_late = [], lg_time = now, lg_ended = False\<rparr>"
| "timed_loop cancel b now (Fails dur e # evs) =
     (if cancel \<le> now then loop_end Loop_ctx_done [] now
      else let t = min (now + dur) cancel
           in if cancel \<le> t + b then loop_end (Loop_failed e False) [] cancel
              else loop_turn (Loop_failed e True) [] (timed_loop cancel (next_backoff b wni_max_backoff) (t + b) evs))"
| "timed_loop cancel b now (Connects dur xs # evs) =
     (if cancel \<le> now then loop_end Loop_ctx_done [] now
      else if cancel \<le> now + dur then loop_end (Loop_failed Dial_failed False) [] cancel
      else let (es, t) = timed_reads cancel (now + dur) xs
           in if cancel \<le> t then loop_end (Loop_session (map snd es) True) (late_reads cancel es) t
              else loop_turn (Loop_session (map snd es) False) (late_reads cancel es)
                     (timed_loop cancel wni_initial_backoff t evs))"

text \<open>The connection loop of the theory App does nothing behind the end.\<close>

lemma timed_loop_final:
  "lg_ended (timed_loop cancel b now evs) \<Longrightarrow>
     connection_loop io ka b n (lg_events (timed_loop cancel b now evs) @ rest) d =
     connection_loop io ka b n (lg_events (timed_loop cancel b now evs)) d"
proof (induction cancel b now evs arbitrary: n d rule: timed_loop.induct)
  case (2 cancel b now dur e evs)
  then show ?case
    by (cases "cancel \<le> now"; cases "cancel \<le> min (now + dur) cancel + b")
      (simp_all add: loop_end_def loop_turn_def Let_def)
next
  case (3 cancel b now dur xs evs)
  obtain es t where es: "timed_reads cancel (now + dur) xs = (es, t)" by fastforce
  show ?case using 3
    by (cases "cancel \<le> now"; cases "cancel \<le> now + dur"; cases "cancel \<le> t")
      (simp_all add: loop_end_def loop_turn_def Let_def es case_prod_beta)
qed simp

lemma timed_loop_time:
  assumes "list_all net_ok evs"
  shows "if lg_ended (timed_loop cancel b now evs)
     then lg_time (timed_loop cancel b now evs) \<le> max now (cancel + idleTimeout)
     else evs = [] \<and> lg_time (timed_loop cancel b now evs) = now \<or> lg_time (timed_loop cancel b now evs) < cancel"
    and "length (lg_late (timed_loop cancel b now evs)) \<le> 1"
  using assms
proof (induction cancel b now evs rule: timed_loop.induct)
  case (2 cancel b now dur e evs)
  { case 1
    then show ?case using 2(1) idleTimeout_pos
      by (auto simp: loop_end_def loop_turn_def Let_def split: if_splits)
  next
    case 2
    then show ?case using "2.IH"(2)
      by (auto simp: loop_end_def loop_turn_def Let_def)
  }
next
  case (3 cancel b now dur xs evs)
  obtain es t where es: "timed_reads cancel (now + dur) xs = (es, t)" by fastforce
  { case 1
    then have "t \<le> max (now + dur) (cancel + idleTimeout)"
      using timed_reads_end [of xs "now + dur" cancel] es by simp
    then show ?case using 1 3(1) [OF _ _ es [symmetric] refl] idleTimeout_pos
      by (auto simp: loop_end_def loop_turn_def Let_def es split: if_splits)
  next
    case 2
    then have "\<not> cancel \<le> t \<Longrightarrow> late_reads cancel es = []"
      using late_reads_none [of xs cancel "now + dur"] es by simp
    then show ?case using 2 3(2) [OF _ _ es [symmetric] refl] late_reads_one [of cancel "now + dur" xs]
      by (auto simp: loop_end_def loop_turn_def Let_def es)
  }
qed simp_all


text \<open>The bound is sharp: a signal that comes just after a read has started on a silent connection.\<close>

definition silent_loop :: loop_log where
  "silent_loop = timed_loop 1 wni_initial_backoff 0 [Connects 0 []]"

lemma silent_loop_time: "lg_ended silent_loop" "lg_time silent_loop = 210 * second"
  by code_simp+


end
