(* ===== verification/Irc_Run.thy ===== *)
theory Irc_Run
  imports Irc_Delivery
begin

text \<open>
  \<open>Connection.Run\<close> of \<open>internal/irc/connection.go\<close> at work: the goroutine that connects, waits and reconnects,
  beside the callbacks of the IRC library, the writer and the rest of the daemon, as a step relation over all
  interleavings.  Of goirc it takes what its documentation says: \<open>ConnectContext\<close> succeeds only while there is no
  connection; a connection that has been made is lost at some time or closed by \<open>Close\<close>, and then the library calls the
  DISCONNECTED handler once; before that it calls the CONNECTED handler at most once for each connection.
\<close>


section \<open>The system\<close>

text \<open>Where \<open>Run\<close> is: at the loop's head; in \<open>ConnectContext\<close>; behind it, before the clock is read; in the
  \<open>select\<close> on \<open>reconnect\<close> and the context, since the time given; asleep, after a failed connect or a session of the
  length given, until a time; behind the loop; before \<open>queue.Close\<close>; returned.\<close>

datatype runner =
    Run_head
  | Run_connecting
  | Run_connected
  | Run_waiting int
  | Run_sleeping "int option" int
  | Run_leaving
  | Run_closing
  | Run_returned

text \<open>The last three fields only record: when \<open>ConnectContext\<close> was called, the turns completed and the
  delays slept in full.\<close>

record irc_run =
  r_conn :: connection
  r_runner :: runner
  r_backoff :: int
  r_now :: int
  r_link :: bool      \<comment> \<open>the library has a connection\<close>
  r_greeted :: bool   \<comment> \<open>it has called the CONNECTED handler for it\<close>
  r_owed :: bool      \<comment> \<open>the connection is gone and the DISCONNECTED handler not yet called\<close>
  r_quit :: bool      \<comment> \<open>QUIT has been sent\<close>
  r_attempts :: "int list"
  r_rounds :: "irc_round list"
  r_naps :: "int list"

definition run_start :: "int \<Rightarrow> connection \<Rightarrow> irc_run" where
  "run_start now c = \<lparr>r_conn = c, r_runner = Run_head, r_backoff = initialBackoff, r_now = now, r_link = False,
     r_greeted = False, r_owed = False, r_quit = False, r_attempts = [], r_rounds = [], r_naps = []\<rparr>"

text \<open>What \<open>Run\<close> does when \<open>ConnectContext\<close> has failed, when it has received from \<open>reconnect\<close>, and when a sleep
  is over.\<close>

definition after_failure :: "irc_run \<Rightarrow> irc_run" where
  "after_failure s =
     (if c_done (r_conn s) then s\<lparr>r_runner := Run_leaving\<rparr>
      else s\<lparr>r_runner := Run_sleeping None (r_now s + r_backoff s)\<rparr>)"

definition after_session :: "int \<Rightarrow> irc_run \<Rightarrow> irc_run" where
  "after_session since s =
     (let s = s\<lparr>r_conn := (r_conn s)\<lparr>c_token := False\<rparr>\<rparr>; up = r_now s - since;
          b = backoff_after_disconnect (r_backoff s) up
      in if c_done (r_conn s) then s\<lparr>r_runner := Run_leaving\<rparr>
         else if up \<ge> stableConnectionThreshold
         then s\<lparr>r_runner := Run_head, r_backoff := b, r_rounds := r_rounds s @ [Session up False True]\<rparr>
         else s\<lparr>r_runner := Run_sleeping (Some up) (r_now s + b), r_backoff := b\<rparr>)"

definition after_sleep :: "int option \<Rightarrow> irc_run \<Rightarrow> irc_run" where
  "after_sleep up s =
     (let s = s\<lparr>r_runner := Run_head, r_naps := r_naps s @ [r_backoff s]\<rparr>
      in case up of
           None \<Rightarrow> s\<lparr>r_backoff := next_backoff (r_backoff s) maxBackoff,
             r_rounds := r_rounds s @ [Connect_failed False True]\<rparr>
         | Some u \<Rightarrow> s\<lparr>r_rounds := r_rounds s @ [Session u False True]\<rparr>)"

definition leave :: "irc_run \<Rightarrow> irc_run" where
  "leave s =
     (if r_link s then s\<lparr>r_runner := Run_closing, r_quit := True, r_link := False, r_owed := True\<rparr>
      else s\<lparr>r_runner := Run_closing\<rparr>)"

text \<open>Who moves: \<open>Run\<close>, the writer, the library, the clock, or the daemon, which passes telegrams on and
  cancels the context.\<close>

datatype mover = Runner | Writer | Library | Clock | Daemon

inductive irc_step :: "conn_env \<Rightarrow> mover \<Rightarrow> irc_run \<Rightarrow> irc_run \<Rightarrow> bool" for e :: conn_env where
  head: "r_runner s = Run_head \<Longrightarrow> \<not> c_done (r_conn s) \<Longrightarrow>
    irc_step e Runner s (s\<lparr>r_runner := Run_connecting, r_attempts := r_attempts s @ [r_now s]\<rparr>)"
| head_done: "r_runner s = Run_head \<Longrightarrow> c_done (r_conn s) \<Longrightarrow> irc_step e Runner s (s\<lparr>r_runner := Run_leaving\<rparr>)"
| connects: "r_runner s = Run_connecting \<Longrightarrow> \<not> r_link s \<Longrightarrow>
    irc_step e Runner s (s\<lparr>r_runner := Run_connected, r_link := True\<rparr>)"
| connect_fails: "r_runner s = Run_connecting \<Longrightarrow> irc_step e Runner s (after_failure s)"
| clock_read: "r_runner s = Run_connected \<Longrightarrow> irc_step e Runner s (s\<lparr>r_runner := Run_waiting (r_now s)\<rparr>)"
| reconnect: "r_runner s = Run_waiting since \<Longrightarrow> c_token (r_conn s) \<Longrightarrow> irc_step e Runner s (after_session since s)"
| wait_done: "r_runner s = Run_waiting since \<Longrightarrow> c_done (r_conn s) \<Longrightarrow>
    irc_step e Runner s (s\<lparr>r_runner := Run_leaving\<rparr>)"
| slept_full: "r_runner s = Run_sleeping up until \<Longrightarrow> until \<le> r_now s \<Longrightarrow> irc_step e Runner s (after_sleep up s)"
| slept_cut: "r_runner s = Run_sleeping up until \<Longrightarrow> c_done (r_conn s) \<Longrightarrow>
    irc_step e Runner s (s\<lparr>r_runner := Run_leaving\<rparr>)"
| quits: "r_runner s = Run_leaving \<Longrightarrow> irc_step e Runner s (leave s)"
| closes: "r_runner s = Run_closing \<Longrightarrow>
    irc_step e Runner s (s\<lparr>r_runner := Run_returned,
      r_conn := (r_conn s)\<lparr>c_queue := close_queue (c_queue (r_conn s))\<rparr>\<rparr>)"
| greets: "r_link s \<or> r_owed s \<Longrightarrow> \<not> r_greeted s \<Longrightarrow>
    irc_step e Library s (s\<lparr>r_conn := handle_connected e (r_conn s), r_greeted := True\<rparr>)"
| lost: "r_link s \<Longrightarrow> irc_step e Library s (s\<lparr>r_link := False, r_owed := True\<rparr>)"
| told: "r_owed s \<Longrightarrow>
    irc_step e Library s (s\<lparr>r_conn := handle_disconnected (r_conn s), r_owed := False, r_greeted := False\<rparr>)"
| ticks: "0 \<le> d \<Longrightarrow> irc_step e Clock s (s\<lparr>r_now := r_now s + d\<rparr>)"
| writes: "irc_step e Writer s (s\<lparr>r_conn := writer_step e p (r_conn s)\<rparr>)"
| telegram: "irc_step e Daemon s (s\<lparr>r_conn := notify t txt (r_conn s)\<rparr>)"
| cancelled: "irc_step e Daemon s (s\<lparr>r_conn := (r_conn s)\<lparr>c_done := True\<rparr>\<rparr>)"

inductive irc_path :: "conn_env \<Rightarrow> mover list \<Rightarrow> irc_run \<Rightarrow> irc_run \<Rightarrow> bool" for e :: conn_env where
  path_refl: "irc_path e [] s s"
| path_step: "irc_path e ms s s' \<Longrightarrow> irc_step e m s' s'' \<Longrightarrow> irc_path e (ms @ [m]) s s''"

definition run_can_move :: "conn_env \<Rightarrow> irc_run \<Rightarrow> bool" where
  "run_can_move e s \<longleftrightarrow> (\<exists>s'. irc_step e Runner s s')"


section \<open>What the callbacks and the writer leave alone\<close>

named_theorems frame_simps

lemma notify_frame [frame_simps]:
  "c_ready (notify t x c) = c_ready c" "c_fresh (notify t x c) = c_fresh c" "c_closed (notify t x c) = c_closed c"
  "c_token (notify t x c) = c_token c" "c_done (notify t x c) = c_done c" "c_panicked (notify t x c) = c_panicked c"
  "c_writer (notify t x c) = c_writer c"
  by (simp_all add: notify_def Let_def split: prod.split)

lemma writer_frame [frame_simps]:
  "c_ready (writer_step e p c) = c_ready c" "c_fresh (writer_step e p c) = c_fresh c"
  "c_closed (writer_step e p c) = c_closed c" "c_token (writer_step e p c) = c_token c"
  "c_done (writer_step e p c) = c_done c" "c_panicked (writer_step e p c) = c_panicked c"
  by (auto simp: writer_step.simps split: writer.split dequeued.split prod.split list.split sum.split)

lemma connected_frame [frame_simps]:
  "c_ready (handle_connected e c) = c_ready c" "c_fresh (handle_connected e c) = c_fresh c"
  "c_token (handle_connected e c) = c_token c" "c_done (handle_connected e c) = c_done c"
  "c_queue (handle_connected e c) = c_queue c" "c_writer (handle_connected e c) = c_writer c"
  by (simp_all add: handle_connected_def Let_def)

lemma disconnected_frame [frame_simps]:
  "c_closed (handle_disconnected c) = c_closed c" "c_done (handle_disconnected c) = c_done c"
  "c_panicked (handle_disconnected c) = c_panicked c" "c_queue (handle_disconnected c) = c_queue c"
  "c_writer (handle_disconnected c) = c_writer c"
  by (simp_all add: handle_disconnected_def)


section \<open>Disconnects are noticed\<close>

text \<open>The ready channel is closed exactly while the server has greeted; and as long as \<open>Run\<close> waits, exactly one of
  three things is the case: the connection is up, or the library has yet to call the handler, or the token is there.\<close>

definition chan_inv :: "bool \<Rightarrow> connection \<Rightarrow> bool" where
  "chan_inv greeted c \<longleftrightarrow> \<not> c_panicked c \<and> (c_ready c \<in> c_closed c \<longleftrightarrow> greeted) \<and> c_ready c < c_fresh c
     \<and> (\<forall>k \<in> c_closed c. k < c_fresh c)"

definition apart :: "irc_run \<Rightarrow> bool" where
  "apart s \<longleftrightarrow> \<not> r_link s \<and> \<not> r_owed s \<and> \<not> c_token (r_conn s)"

definition one_pending :: "irc_run \<Rightarrow> bool" where
  "one_pending s \<longleftrightarrow> (r_link s \<or> r_owed s \<or> c_token (r_conn s)) \<and> \<not> (r_link s \<and> c_token (r_conn s))
     \<and> \<not> (r_owed s \<and> c_token (r_conn s))"

definition link_inv :: "irc_run \<Rightarrow> bool" where
  "link_inv s \<longleftrightarrow> chan_inv (r_greeted s) (r_conn s) \<and> \<not> (r_link s \<and> r_owed s) \<and> (r_greeted s \<longrightarrow> r_link s \<or> r_owed s)
     \<and> (case r_runner s of
          Run_connected \<Rightarrow> one_pending s
        | Run_waiting since \<Rightarrow> one_pending s
        | Run_leaving \<Rightarrow> c_done (r_conn s)
        | Run_closing \<Rightarrow> c_done (r_conn s) \<and> \<not> r_link s
        | Run_returned \<Rightarrow> c_done (r_conn s) \<and> \<not> r_link s \<and> q_closed (c_queue (r_conn s))
        | _ \<Rightarrow> apart s)"

lemma chan_inv_frame:
  "chan_inv g (notify t x c) = chan_inv g c" "chan_inv g (writer_step e p c) = chan_inv g c"
  "chan_inv g (c\<lparr>c_token := b\<rparr>) = chan_inv g c" "chan_inv g (c\<lparr>c_done := b\<rparr>) = chan_inv g c"
  "chan_inv g (c\<lparr>c_queue := q\<rparr>) = chan_inv g c"
  "chan_inv False c \<Longrightarrow> chan_inv True (handle_connected e c)" "chan_inv g c \<Longrightarrow> chan_inv False (handle_disconnected c)"
  by (auto simp: chan_inv_def frame_simps, auto simp: handle_connected_def handle_disconnected_def Let_def)

lemma disconnected_token: "chan_inv g c \<Longrightarrow> c_token (handle_disconnected c)"
  by (simp add: chan_inv_def handle_disconnected_def)

lemma closed_frame:
  "q_closed (c_queue c) \<Longrightarrow> q_closed (c_queue (notify t x c))"
  "q_closed (c_queue c) \<Longrightarrow> q_closed (c_queue (writer_step e p c))"
proof -
  show "q_closed (c_queue c) \<Longrightarrow> q_closed (c_queue (notify t x c))"
    by (simp add: notify_def enqueue_closed Let_def split: prod.split)
  have "q_closed (snd (dequeue q)) = q_closed q" for q using dequeue_fields(1) [of q] by simp
  then have "dequeue q = (r, q') \<Longrightarrow> q_closed q' = q_closed q" for q q' r by (metis snd_conv)
  then show "q_closed (c_queue c) \<Longrightarrow> q_closed (c_queue (writer_step e p c))"
    by (auto simp: writer_step.simps split: writer.split dequeued.split prod.split list.split sum.split)
qed

lemma link_inv_start: "link_inv (run_start now (new_connection all lim))"
  by (simp add: link_inv_def run_start_def apart_def chan_inv_def new_connection_def)

lemma link_inv_step: "irc_step e m s s' \<Longrightarrow> link_inv s \<Longrightarrow> link_inv s'"
proof (induction rule: irc_step.induct)
  case (connect_fails s)
  then show ?case by (auto simp: link_inv_def after_failure_def apart_def)
next
  case (reconnect s since)
  then show ?case
    by (auto simp: link_inv_def after_session_def Let_def apart_def one_pending_def chan_inv_frame)
next
  case (slept_full s up until)
  then show ?case by (auto simp: link_inv_def after_sleep_def Let_def apart_def split: option.split)
next
  case (quits s)
  then show ?case by (auto simp: link_inv_def leave_def)
next
  case (closes s)
  then show ?case by (auto simp: link_inv_def chan_inv_frame close_queue_def)
next
  case (greets s)
  then show ?case
    by (auto simp: link_inv_def apart_def one_pending_def frame_simps chan_inv_frame split: runner.splits)
next
  case (lost s)
  then show ?case by (auto simp: link_inv_def apart_def one_pending_def split: runner.splits)
next
  case (told s)
  then show ?case
    using disconnected_token [of "r_greeted s" "r_conn s"]
    by (auto simp: link_inv_def apart_def one_pending_def frame_simps chan_inv_frame split: runner.splits)
next
  case (ticks d s)
  then show ?case by (auto simp: link_inv_def apart_def one_pending_def split: runner.splits)
next
  case (writes s p)
  then show ?case
    by (auto simp: link_inv_def apart_def one_pending_def frame_simps chan_inv_frame closed_frame split: runner.splits)
next
  case (telegram s t x)
  then show ?case
    by (auto simp: link_inv_def apart_def one_pending_def frame_simps chan_inv_frame closed_frame split: runner.splits)
next
  case (cancelled s)
  then show ?case by (auto simp: link_inv_def apart_def one_pending_def chan_inv_frame split: runner.splits)
qed (auto simp: link_inv_def apart_def one_pending_def)

lemma path_inv:
  assumes "irc_path e ms s s'" "P s" "\<And>m s s'. irc_step e m s s' \<Longrightarrow> P s \<Longrightarrow> P s'"
  shows "P s'"
  using assms(1,2) by (induction rule: irc_path.induct) (use assms(3) in blast)+

lemma link_inv_path: "irc_path e ms (run_start now (new_connection all lim)) s \<Longrightarrow> link_inv s"
  by (rule path_inv [where P = link_inv, OF _ link_inv_start link_inv_step])

inductive_simps runner_moves: "irc_step e Runner s s'"

text \<open>When \<open>Run\<close> can move.\<close>

lemma can_move_iff:
  "run_can_move e s \<longleftrightarrow>
     (case r_runner s of
        Run_waiting since \<Rightarrow> c_token (r_conn s) \<or> c_done (r_conn s)
      | Run_sleeping up until \<Rightarrow> until \<le> r_now s \<or> c_done (r_conn s)
      | Run_returned \<Rightarrow> False
      | _ \<Rightarrow> True)"
  unfolding run_can_move_def runner_moves by (cases "r_runner s") auto



text \<open>The connection itself goes through a history of the events of the theory Irc_Connection; what differs is the token,
  which \<open>Run\<close> alone consumes.\<close>

definition untaken :: "connection \<Rightarrow> connection" where
  "untaken c = c\<lparr>c_token := False\<rparr>"

lemma untaken_step: "untaken c = untaken d \<Longrightarrow> untaken (conn_step e ev c) = untaken (conn_step e ev d)"
proof -
  have w: "untaken (writer_step e p (c\<lparr>c_token := b\<rparr>)) = untaken (writer_step e p c)" for p c b
  proof (cases "c_writer c")
    case In_dequeue
    obtain r q where d: "dequeue (c_queue c) = (r, q)" by (cases "dequeue (c_queue c)")
    show ?thesis
    proof (cases r)
      case (Took n)
      then show ?thesis using In_dequeue d
        by (cases "encode_text (e_enc e) (e_charset e) (n_text n)") (simp_all add: untaken_def writer_step.simps)
    qed (use In_dequeue d in \<open>simp_all add: untaken_def writer_step.simps\<close>)
  next
    case (Sending msg chs)
    then show ?thesis by (cases chs) (simp_all add: untaken_def writer_step.simps)
  qed (simp_all add: untaken_def writer_step.simps)
  have t: "untaken (conn_step e ev (c\<lparr>c_token := b\<rparr>)) = untaken (conn_step e ev c)" for c b
  proof (cases ev)
    case (Telegram t x)
    then show ?thesis by (simp add: untaken_def notify_def Let_def split: prod.split)
  next
    case Connected
    then show ?thesis by (simp add: untaken_def handle_connected_def Let_def)
  next
    case Disconnected
    then show ?thesis by (simp add: untaken_def handle_disconnected_def)
  qed (simp_all add: w, simp_all add: untaken_def)
  assume "untaken c = untaken d"
  then have "untaken (conn_step e ev (c\<lparr>c_token := False\<rparr>)) = untaken (conn_step e ev (d\<lparr>c_token := False\<rparr>))"
    by (simp add: untaken_def)
  then show ?thesis unfolding t .
qed

lemma step_history:
  assumes "irc_step e m s s'" "link_inv s"
  shows "\<exists>evs. untaken (r_conn s') = untaken (conn_run e evs (r_conn s))"
  using assms
proof (induction rule: irc_step.induct)
  case (closes s)
  then show ?case by (intro exI [of _ "[Queue_closed]"]) (simp add: link_inv_def)
next
  case (greets s)
  show ?case by (intro exI [of _ "[Connected]"]) simp
next
  case (told s)
  show ?case by (intro exI [of _ "[Disconnected]"]) simp
next
  case (writes s p)
  show ?case by (intro exI [of _ "[Writer_step p]"]) simp
next
  case (telegram s t x)
  show ?case by (intro exI [of _ "[Telegram t x]"]) simp
next
  case (cancelled s)
  show ?case by (intro exI [of _ "[Cancelled]"]) simp
qed (intro exI [of _ "[]"], simp add: untaken_def after_failure_def after_session_def after_sleep_def leave_def Let_def
      split: option.split)+

lemma untaken_run: "untaken c = untaken d \<Longrightarrow> untaken (conn_run e evs c) = untaken (conn_run e evs d)"
proof (induction evs arbitrary: c d)
  case (Cons ev evs)
  from Cons.IH [OF untaken_step [OF Cons.prems]] show ?case by simp
qed simp

lemma path_history:
  assumes "irc_path e ms (run_start now (new_connection all lim)) s"
  shows "\<exists>evs. untaken (r_conn s) = untaken (conn_run e evs (new_connection all lim))"
  using assms
proof (induction ms "run_start now (new_connection all lim)" s rule: irc_path.induct)
  case path_refl
  show ?case by (intro exI [of _ "[]"]) (simp add: run_start_def)
next
  case (path_step ms s' m s'')
  from path_step.hyps(2) obtain evs where e1: "untaken (r_conn s') = untaken (conn_run e evs (new_connection all lim))"
    by blast
  from step_history [OF path_step.hyps(3) link_inv_path [OF path_step.hyps(1)]] obtain evs' where
    "untaken (r_conn s'') = untaken (conn_run e evs' (r_conn s'))" by blast
  with untaken_run [OF e1, of e evs'] have "untaken (r_conn s'') = untaken (conn_run e (evs @ evs') (new_connection all lim))"
    by simp
  then show ?case by blast
qed

text \<open>So nothing but JOINs and notices of the configured kind goes on the wire, to configured channels.\<close>

lemma path_wire_sound:
  assumes "irc_path e ms (run_start now (new_connection all lim)) s"
  shows "list_all (wire_ok e UNIV (set all \<union> set lim)) (c_wire (r_conn s))"
proof -
  from path_history [OF assms] obtain evs where "untaken (r_conn s) = untaken (conn_run e evs (new_connection all lim))" ..
  then have "c_wire (untaken (r_conn s)) = c_wire (untaken (conn_run e evs (new_connection all lim)))" by simp
  then have w: "c_wire (r_conn s) = c_wire (conn_run e evs (new_connection all lim))" by (simp add: untaken_def)
  have "wire_inv e UNIV all lim (conn_run e evs (new_connection all lim))"
    by (rule conn_run_induct) (simp_all add: wire_inv_new wire_inv_step)
  then show ?thesis by (simp add: wire_inv_def list_all_iff w)
qed

text \<open>A connection that is made and lost again, once before and once after the library has said so.\<close>

definition example_run :: irc_run where
  "example_run = run_start 0 (new_connection [''#a''] [])"

definition example_env :: conn_env where
  "example_env = \<lparr>e_enc = Some, e_charset = [], e_type = Notice_type\<rparr>"

lemma path_snoc: "irc_path e ms s s' \<Longrightarrow> irc_step e m s' s'' \<Longrightarrow> ms' = ms @ [m] \<Longrightarrow> irc_path e ms' s s''"
  by (simp add: path_step)

lemma example_run_start:
  "r_runner example_run = Run_head" "\<not> r_link example_run" "\<not> r_owed example_run" "\<not> c_done (r_conn example_run)"
  "r_now example_run = 0" "r_backoff example_run = initialBackoff" "r_attempts example_run = []" "r_naps example_run = []"
  "c_writer (r_conn example_run) = At_head" "writer_work (r_conn example_run) = 3"
  by (simp_all add: example_run_def run_start_def new_connection_def writer_work_def new_queue_def pending_def)


section \<open>The server is not hammered\<close>

text \<open>The time of the last attempt, the delay, and the turns completed.\<close>

definition spaced :: "int list \<Rightarrow> bool" where
  "spaced ts \<longleftrightarrow> sorted_wrt (\<lambda>x y. x + second \<le> y) ts"

definition time_inv :: "irc_run \<Rightarrow> bool" where
  "time_inv s \<longleftrightarrow> initialBackoff \<le> r_backoff s \<and> r_backoff s \<le> maxBackoff \<and> spaced (r_attempts s)
     \<and> (\<forall>a \<in> set (r_attempts s). a \<le> r_now s)
     \<and> (case r_runner s of
          Run_head \<Rightarrow> \<forall>a \<in> set (r_attempts s). a + second \<le> r_now s
        | Run_waiting since \<Rightarrow> since \<le> r_now s \<and> (\<forall>a \<in> set (r_attempts s). a \<le> since)
        | Run_sleeping up until \<Rightarrow> until \<le> r_now s + maxBackoff \<and> (\<forall>a \<in> set (r_attempts s). a + second \<le> until)
        | _ \<Rightarrow> True)"

lemma backoff_range:
  assumes "initialBackoff \<le> b" "b \<le> maxBackoff"
  shows "initialBackoff \<le> next_backoff b maxBackoff" "next_backoff b maxBackoff \<le> maxBackoff"
    "initialBackoff \<le> backoff_after_disconnect b up" "backoff_after_disconnect b up \<le> maxBackoff"
  using assms by (auto simp: next_backoff_min backoff_after_disconnect_def backoff_consts)

lemma time_inv_start: "time_inv (run_start now c)"
  by (simp add: time_inv_def run_start_def spaced_def backoff_consts)

lemma time_inv_step: "irc_step e m s s' \<Longrightarrow> time_inv s \<Longrightarrow> time_inv s'"
proof (induction rule: irc_step.induct)
  case (head s)
  then show ?case by (auto simp: time_inv_def spaced_def sorted_wrt_append)
next
  case (connect_fails s)
  then show ?case by (fastforce simp: time_inv_def after_failure_def backoff_consts)
next
  case (reconnect s since)
  let ?b = "backoff_after_disconnect (r_backoff s) (r_now s - since)"
  have b: "initialBackoff \<le> r_backoff s" "r_backoff s \<le> maxBackoff" and a: "\<forall>a \<in> set (r_attempts s). a \<le> since" "since \<le> r_now s"
    using reconnect by (simp_all add: time_inv_def)
  note r = backoff_range(3,4) [OF b, of "r_now s - since"]
  have "\<forall>a \<in> set (r_attempts s). a + second \<le> r_now s + ?b" using a r(1) by (fastforce simp: initialBackoff_def)
  moreover have "\<forall>a \<in> set (r_attempts s). a + second \<le> r_now s" if "stableConnectionThreshold \<le> r_now s - since"
    using a that by (fastforce simp: stableConnectionThreshold_def second_def)
  ultimately show ?case using reconnect r by (simp add: time_inv_def after_session_def Let_def)
next
  case (slept_full s up until)
  then have b: "initialBackoff \<le> r_backoff s" "r_backoff s \<le> maxBackoff" by (simp_all add: time_inv_def)
  have "\<forall>a \<in> set (r_attempts s). a + second \<le> r_now s" using slept_full by (fastforce simp: time_inv_def)
  then show ?case
    using slept_full backoff_range(1,2) [OF b] by (simp add: time_inv_def after_sleep_def Let_def split: option.split)
next
  case (quits s)
  then show ?case by (auto simp: time_inv_def leave_def)
next
  case (ticks d s)
  then show ?case by (fastforce simp: time_inv_def split: runner.splits)
qed (auto simp: time_inv_def split: runner.splits)

text \<open>The goroutine goes through the turns of the turn function.\<close>

lemma run_turns_snoc:
  assumes "run_turns turn b rs = (ws, b1)" "length ws = length rs" "turn b1 r = Some (w, b2)"
  shows "run_turns turn b (rs @ [r]) = (ws @ [w], b2)"
  using assms
proof (induction rs arbitrary: b ws)
  case (Cons x rs)
  obtain w' b' where t: "turn b x = Some (w', b')" using Cons.prems(1,2) by (cases "turn b x") auto
  obtain vs where "ws = w' # vs" "run_turns turn b' rs = (vs, b1)" "length vs = length rs"
    using Cons.prems(1,2) t by (auto split: prod.splits)
  then show ?case using Cons.IH [of b' vs] Cons.prems(3) t by simp
qed simp

fun turn_ok :: "runner \<Rightarrow> int \<Rightarrow> int \<Rightarrow> bool" where
  "turn_ok (Run_sleeping (Some up) until) b cur \<longleftrightarrow> up < stableConnectionThreshold \<and> cur = backoff_after_disconnect b up"
| "turn_ok (Run_sleeping None until) b cur \<longleftrightarrow> cur = b"
| "turn_ok Run_leaving b cur \<longleftrightarrow> True"
| "turn_ok Run_closing b cur \<longleftrightarrow> True"
| "turn_ok Run_returned b cur \<longleftrightarrow> True"
| "turn_ok r b cur \<longleftrightarrow> cur = b"

definition turn_inv :: "irc_run \<Rightarrow> bool" where
  "turn_inv s \<longleftrightarrow> (\<exists>ws b. run_turns irc_turn initialBackoff (r_rounds s) = (ws, b) \<and> length ws = length (r_rounds s)
     \<and> List.map_filter id ws = r_naps s \<and> turn_ok (r_runner s) b (r_backoff s))"

lemma turn_inv_start: "turn_inv (run_start now c)"
  by (simp add: turn_inv_def run_start_def map_filter_simps)

lemma turn_inv_same:
  assumes "turn_inv s" "r_rounds s' = r_rounds s" "r_naps s' = r_naps s" "r_backoff s' = r_backoff s"
    and "\<And>b. turn_ok (r_runner s) b (r_backoff s) \<Longrightarrow> turn_ok (r_runner s') b (r_backoff s)"
  shows "turn_inv s'"
  using assms unfolding turn_inv_def by metis

lemma turn_inv_round:
  assumes "run_turns irc_turn initialBackoff rs = (ws, b)" "length ws = length rs" "List.map_filter id ws = naps"
    and "irc_turn b r = Some (w, b')"
  shows "\<exists>ws'. run_turns irc_turn initialBackoff (rs @ [r]) = (ws', b') \<and> length ws' = length (rs @ [r])
    \<and> List.map_filter id ws' = naps @ (case w of None \<Rightarrow> [] | Some d \<Rightarrow> [d])"
proof (intro exI conjI)
  show "run_turns irc_turn initialBackoff (rs @ [r]) = (ws @ [w], b')"
    by (rule run_turns_snoc [OF assms(1,2,4)])
  have "List.map_filter id (xs @ ys) = List.map_filter id xs @ List.map_filter id ys" for xs ys :: "int option list"
    by (simp add: List.map_filter_def)
  then show "List.map_filter id (ws @ [w]) = naps @ (case w of None \<Rightarrow> [] | Some d \<Rightarrow> [d])"
    using assms(3) by (simp add: map_filter_simps split: option.split)
qed (use assms(2) in simp)


lemma turn_inv_step: "irc_step e m s s' \<Longrightarrow> turn_inv s \<Longrightarrow> turn_inv s'"
proof (induction rule: irc_step.induct)
  case (connect_fails s)
  then show ?case by - (rule turn_inv_same [of s], simp_all add: after_failure_def)
next
  case (reconnect s since)
  let ?up = "r_now s - since"
  let ?b = "backoff_after_disconnect (r_backoff s) ?up"
  obtain ws where w: "run_turns irc_turn initialBackoff (r_rounds s) = (ws, r_backoff s)" "length ws = length (r_rounds s)"
    "List.map_filter id ws = r_naps s" using reconnect by (auto simp: turn_inv_def)
  consider "c_done (r_conn s)" | "\<not> c_done (r_conn s)" "stableConnectionThreshold \<le> ?up"
    | "\<not> c_done (r_conn s)" "\<not> stableConnectionThreshold \<le> ?up" by blast
  then show ?case
  proof cases
    case 1
    then show ?thesis using reconnect by - (rule turn_inv_same [of s], simp_all add: after_session_def Let_def)
  next
    case 2
    then have "irc_turn (r_backoff s) (Session ?up False True) = Some (None, ?b)" by (simp add: Let_def)
    from turn_inv_round [OF w this] show ?thesis using 2 by (simp add: turn_inv_def after_session_def Let_def)
  next
    case 3
    then show ?thesis using w by (simp add: turn_inv_def after_session_def Let_def)
  qed
next
  case (slept_full s up until)
  obtain ws b where w: "run_turns irc_turn initialBackoff (r_rounds s) = (ws, b)" "length ws = length (r_rounds s)"
    "List.map_filter id ws = r_naps s" and b: "turn_ok (Run_sleeping up until) b (r_backoff s)"
    using slept_full by (auto simp: turn_inv_def)
  show ?case
  proof (cases up)
    case None
    then have "irc_turn b (Connect_failed False True) = Some (Some (r_backoff s), next_backoff (r_backoff s) maxBackoff)"
      using b by simp
    from turn_inv_round [OF w this] None show ?thesis by (simp add: turn_inv_def after_sleep_def Let_def)
  next
    case (Some u)
    then have "irc_turn b (Session u False True) = Some (Some (r_backoff s), r_backoff s)"
      using b by (simp add: Let_def)
    from turn_inv_round [OF w this] Some show ?thesis by (simp add: turn_inv_def after_sleep_def Let_def)
  qed
next
  case (quits s)
  then show ?case by - (rule turn_inv_same [of s], simp_all add: leave_def)
qed (erule turn_inv_same; simp)+

text \<open>C30. The reconnect loop cannot hammer a server: in every execution of a connection, however connects fail,
  connections die and callbacks come, any two calls of \<open>ConnectContext\<close> lie at least a second apart, and every sleep
  between them is at least one second and at most one minute; the goroutine refines the turn function
  of the loop: the delays it has slept are those that the function gives for the turns it has gone through, so
  that over turns in which no connection stayed up for 30 seconds they never decrease, and the \<open>k\<close>-th
  is at least \<open>2^k\<close> seconds or the cap.\<close>

theorem reconnects_limited:
  assumes "irc_path e ms (run_start now (new_connection all lim)) s"
  shows "sorted_wrt (\<lambda>x y. x + 1 * second \<le> y) (r_attempts s)
    \<and> (\<forall>d \<in> set (r_naps s). 1 * second \<le> d \<and> d \<le> 60 * second)
    \<and> (\<forall>up until. r_runner s = Run_sleeping up until \<longrightarrow> until \<le> r_now s + 60 * second)
    \<and> r_naps s = slept irc_turn initialBackoff (r_rounds s)
    \<and> (list_all unstable (r_rounds s) \<longrightarrow> length (r_naps s) = length (r_rounds s) \<and> sorted (r_naps s)
         \<and> (\<forall>k < length (r_naps s). min (2 ^ k * second) (60 * second) \<le> r_naps s ! k))"
proof -
  have t: "time_inv s" by (rule path_inv [where P = time_inv, OF assms time_inv_start time_inv_step])
  have "turn_inv s" by (rule path_inv [where P = turn_inv, OF assms turn_inv_start turn_inv_step])
  then have n: "r_naps s = slept irc_turn initialBackoff (r_rounds s)" by (auto simp: turn_inv_def slept_def)
  have i: "initialBackoff \<le> initialBackoff" "initialBackoff \<le> maxBackoff" by (simp_all add: backoff_consts)
  have "\<forall>d \<in> set (r_naps s). 1 * second \<le> d \<and> d \<le> 60 * second"
    using irc_backoff.slept_bounds [OF i] unfolding n by (auto simp: initialBackoff_def maxBackoff_def)
  moreover have "list_all unstable (r_rounds s) \<longrightarrow> length (r_naps s) = length (r_rounds s) \<and> sorted (r_naps s)
         \<and> (\<forall>k < length (r_naps s). min (2 ^ k * second) (60 * second) \<le> r_naps s ! k)"
    using slept_unstable [OF i, of "r_rounds s"] unfolding n
    by (auto simp: list_all_iff initialBackoff_def maxBackoff_def)
  moreover have "\<forall>up until. r_runner s = Run_sleeping up until \<longrightarrow> until \<le> r_now s + 60 * second"
    using t by (auto simp: time_inv_def maxBackoff_def)
  ultimately show ?thesis using t n by (simp add: time_inv_def spaced_def)
qed

lemma reconnects_limited_witness:
  "\<exists>s. irc_path example_env [Runner, Runner, Clock, Runner, Runner] example_run s \<and> r_attempts s = [0, 1 * second]
     \<and> r_naps s = [1 * second] \<and> slept irc_turn initialBackoff (r_rounds s) = [1 * second]"
proof -
  let ?s1 = "example_run\<lparr>r_runner := Run_connecting, r_attempts := r_attempts example_run @ [r_now example_run]\<rparr>"
  let ?s2 = "after_failure ?s1"
  let ?s3 = "?s2\<lparr>r_now := r_now ?s2 + second\<rparr>"
  let ?s4 = "after_sleep None ?s3"
  let ?s5 = "?s4\<lparr>r_runner := Run_connecting, r_attempts := r_attempts ?s4 @ [r_now ?s4]\<rparr>"
  have p1: "irc_path example_env [Runner] example_run ?s1"
    by (rule path_snoc [OF path_refl irc_step.head]) (simp_all add: example_run_start)
  have p2: "irc_path example_env [Runner, Runner] example_run ?s2"
    by (rule path_snoc [OF p1 irc_step.connect_fails]) simp_all
  have p3: "irc_path example_env [Runner, Runner, Clock] example_run ?s3"
    by (rule path_snoc [OF p2 irc_step.ticks]) (simp_all add: second_def)
  have p4: "irc_path example_env [Runner, Runner, Clock, Runner] example_run ?s4"
    by (rule path_snoc [OF p3 irc_step.slept_full [where until = second]])
      (simp_all add: after_failure_def example_run_start initialBackoff_def)
  have p5: "irc_path example_env [Runner, Runner, Clock, Runner, Runner] example_run ?s5"
    by (rule path_snoc [OF p4 irc_step.head]) (simp_all add: after_failure_def after_sleep_def example_run_start)
  have n: "r_naps ?s5 = [1 * second]" "r_attempts ?s5 = [0, 1 * second]"
    by (simp_all add: after_failure_def after_sleep_def example_run_start initialBackoff_def)
  with p5 reconnects_limited [OF p5 [unfolded example_run_def], folded example_run_def] show ?thesis by metis
qed

section \<open>Shutdown\<close>

text \<open>The steps \<open>Run\<close> may still take once the context is done.\<close>

fun run_work :: "runner \<Rightarrow> nat" where
  "run_work Run_returned = 0"
| "run_work Run_closing = 1"
| "run_work Run_leaving = 2"
| "run_work Run_head = 3"
| "run_work (Run_waiting since) = 3"
| "run_work (Run_sleeping up until) = 4"
| "run_work Run_connected = 4"
| "run_work Run_connecting = 5"

lemma done_stays: "irc_step e m s s' \<Longrightarrow> c_done (r_conn s) \<Longrightarrow> c_done (r_conn s')"
  by (induction rule: irc_step.induct)
    (auto simp: frame_simps after_failure_def after_session_def after_sleep_def leave_def Let_def split: option.split)

lemma run_work_step:
  "irc_step e m s s' \<Longrightarrow> c_done (r_conn s) \<Longrightarrow>
     (if m = Runner then run_work (r_runner s') < run_work (r_runner s) else r_runner s' = r_runner s)"
  by (induction rule: irc_step.induct)
    (auto simp: after_failure_def after_session_def after_sleep_def leave_def Let_def split: option.split)

lemma run_work_path:
  "irc_path e ms s s' \<Longrightarrow> c_done (r_conn s) \<Longrightarrow>
     c_done (r_conn s') \<and> run_work (r_runner s') + length (filter ((=) Runner) ms) \<le> run_work (r_runner s)"
proof (induction rule: irc_path.induct)
  case (path_step ms s s' m s'')
  then show ?case using done_stays [OF path_step.hyps(2)] run_work_step [OF path_step.hyps(2)]
    by (auto split: if_splits)
qed simp

lemma done_can_move: "link_inv s \<Longrightarrow> c_done (r_conn s) \<Longrightarrow> run_can_move e s \<longleftrightarrow> r_runner s \<noteq> Run_returned"
  by (auto simp: can_move_iff split: runner.split)


lemma stopping_frame:
  assumes "stopping c" "c_queue c' = c_queue c" "c_writer c' = c_writer c" "c_done c'" "\<not> c_panicked c'"
  shows "stopping c' \<and> writer_work c' = writer_work c"
  using assms by (simp add: stopping_def writer_work_def)

lemma queue_closed_frame:
  "stopping c \<Longrightarrow> c_queue (notify t x c) = c_queue c" "stopping c \<Longrightarrow> close_queue (c_queue c) = c_queue c"
  by (simp_all add: stopping_def notify_def enqueue_closed close_queue_def Let_def split: prod.split)

lemma queue_inv_irc_step: "irc_step e m s s' \<Longrightarrow> queue_inv (c_queue (r_conn s)) \<Longrightarrow> queue_inv (c_queue (r_conn s'))"
proof (induction rule: irc_step.induct)
  case (closes s)
  then show ?case by (simp add: close_queue_def queue_inv_def entry_def)
next
  case (writes s p)
  then show ?case using queue_inv_step [of "r_conn s" e "Writer_step p"] by simp
next
  case (telegram s t x)
  then show ?case using queue_inv_step [of "r_conn s" e "Telegram t x"] by simp
qed (auto simp: after_failure_def after_session_def after_sleep_def leave_def frame_simps Let_def split: option.split)

text \<open>Once \<open>Run\<close> has returned, only the writer's own steps change its work.\<close>

lemma stopping_irc_step:
  assumes "irc_step e m s s'" "link_inv s'" "r_runner s = Run_returned" "stopping (r_conn s)"
  shows "stopping (r_conn s') \<and> r_runner s' = Run_returned
    \<and> (m \<noteq> Writer \<longrightarrow> writer_work (r_conn s') = writer_work (r_conn s) \<and> c_writer (r_conn s') = c_writer (r_conn s))
    \<and> (m = Writer \<longrightarrow> (c_writer (r_conn s) = Returned_writer \<longrightarrow> c_writer (r_conn s') = Returned_writer)
         \<and> (c_writer (r_conn s) \<noteq> Returned_writer \<longrightarrow> writer_work (r_conn s') < writer_work (r_conn s)))"
proof -
  have np: "\<not> c_panicked (r_conn s')" using assms(2) by (simp add: link_inv_def chan_inv_def)
  have d: "c_done (r_conn s')" by (rule done_stays [OF assms(1)]) (use assms(4) in \<open>simp add: stopping_def\<close>)
  show ?thesis
  proof (cases "m = Writer")
    case True
    with assms(1) obtain p where "s' = s\<lparr>r_conn := writer_step e p (r_conn s)\<rparr>" by (auto elim: irc_step.cases)
    then show ?thesis using stopping_writer [OF assms(4), of e p] assms(3) True by simp
  next
    case False
    then have "c_queue (r_conn s') = c_queue (r_conn s) \<and> c_writer (r_conn s') = c_writer (r_conn s)
        \<and> r_runner s' = Run_returned"
      using assms(1,3,4) by (auto simp: frame_simps queue_closed_frame elim!: irc_step.cases)
    then show ?thesis using stopping_frame [OF assms(4) _ _ d np] False by simp
  qed
qed

lemma stopping_path:
  assumes "irc_path e ms s s'" "link_inv s" "r_runner s = Run_returned" "stopping (r_conn s)"
  shows "link_inv s' \<and> r_runner s' = Run_returned \<and> stopping (r_conn s')
    \<and> (c_writer (r_conn s') = Returned_writer
       \<or> writer_work (r_conn s') + length (filter ((=) Writer) ms) \<le> writer_work (r_conn s))"
  using assms
proof (induction rule: irc_path.induct)
  case (path_step ms s s' m s'')
  then have "link_inv s''" using link_inv_step by blast
  with stopping_irc_step [OF path_step.hyps(2) this] path_step.IH [OF path_step.prems] show ?case
    by (cases "m = Writer") auto
qed simp

lemma path_append: "irc_path e ns s' s'' \<Longrightarrow> irc_path e ms s s' \<Longrightarrow> irc_path e (ms @ ns) s s''"
  by (induction rule: irc_path.induct) (auto intro: path_step simp flip: append_assoc)

text \<open>C16. A signal ends a connection: from any reachable state in which the context is cancelled, whatever \<open>Run\<close> was
  doing, connecting, waiting or asleep, and whatever the server, the library, the daemon and the writer do
  then: \<open>Run\<close> takes at most five more steps and can always take the next one, until it has returned; then there is
  no connection and the queue is closed; and the writer, which \<open>Run\<close> does not wait for, has returned as well once
  it has been given as many steps as \<open>writer_work\<close> says.\<close>

theorem shutdown_ends_connection:
  assumes "irc_path e ms (run_start now (new_connection all lim)) s" "c_done (r_conn s)" "irc_path e ms' s s'"
  shows "length (filter ((=) Runner) ms') \<le> 5
    \<and> (run_can_move e s' \<longleftrightarrow> r_runner s' \<noteq> Run_returned)
    \<and> (r_runner s' = Run_returned \<longrightarrow> \<not> r_link s' \<and> q_closed (c_queue (r_conn s')))
    \<and> (r_runner s = Run_returned \<and> writer_work (r_conn s) \<le> length (filter ((=) Writer) ms')
         \<longrightarrow> c_writer (r_conn s') = Returned_writer)"
proof -
  have inv: "link_inv s" "link_inv s'" using link_inv_path assms(1) path_append [OF assms(3,1)] by blast+
  have d: "c_done (r_conn s')" "length (filter ((=) Runner) ms') \<le> run_work (r_runner s)"
    using run_work_path [OF assms(3,2)] by simp_all
  have q: "queue_inv (c_queue (r_conn s))"
    by (rule path_inv [where P = "\<lambda>s. queue_inv (c_queue (r_conn s))", OF assms(1) _ queue_inv_irc_step])
      (simp_all add: run_start_def new_connection_def queue_inv_new)
  have "run_work r \<le> 5" for r by (cases r) simp_all
  then have "length (filter ((=) Runner) ms') \<le> 5" using d(2) order_trans by blast
  moreover have "run_can_move e s' \<longleftrightarrow> r_runner s' \<noteq> Run_returned" by (rule done_can_move [OF inv(2) d(1)])
  moreover have "r_runner s' = Run_returned \<longrightarrow> \<not> r_link s' \<and> q_closed (c_queue (r_conn s'))"
    using inv(2) by (auto simp: link_inv_def)
  moreover have "c_writer (r_conn s') = Returned_writer"
    if r: "r_runner s = Run_returned" and w: "writer_work (r_conn s) \<le> length (filter ((=) Writer) ms')"
  proof -
    have "stopping (r_conn s)" using inv(1) r q assms(2) by (simp add: link_inv_def chan_inv_def stopping_def)
    from stopping_path [OF assms(3) inv(1) r this] w show ?thesis
      by (cases "c_writer (r_conn s')") (auto simp: writer_work_def)
  qed
  ultimately show ?thesis by blast
qed

lemma shutdown_ends_connection_witness:
  "\<exists>s s'. irc_path example_env [Daemon, Runner, Runner, Runner] example_run s \<and> r_runner s = Run_returned \<and> \<not> r_link s
     \<and> irc_path example_env [Writer, Writer, Writer] s s' \<and> c_writer (r_conn s') = Returned_writer"
proof -
  let ?s1 = "example_run\<lparr>r_conn := (r_conn example_run)\<lparr>c_done := True\<rparr>\<rparr>"
  let ?s2 = "?s1\<lparr>r_runner := Run_leaving\<rparr>"
  let ?s3 = "leave ?s2"
  let ?s4 = "?s3\<lparr>r_runner := Run_returned, r_conn := (r_conn ?s3)\<lparr>c_queue := close_queue (c_queue (r_conn ?s3))\<rparr>\<rparr>"
  have p1: "irc_path example_env [Daemon] example_run ?s1"
    by (rule path_snoc [OF path_refl irc_step.cancelled]) simp
  have p2: "irc_path example_env [Daemon, Runner] example_run ?s2"
    by (rule path_snoc [OF p1 irc_step.head_done]) (simp_all add: example_run_start)
  have p3: "irc_path example_env [Daemon, Runner, Runner] example_run ?s3"
    by (rule path_snoc [OF p2 irc_step.quits]) simp_all
  have p4: "irc_path example_env [Daemon, Runner, Runner, Runner] example_run ?s4"
    by (rule path_snoc [OF p3 irc_step.closes]) (simp_all add: leave_def example_run_start)
  have d: "c_done (r_conn ?s4)" "r_runner ?s4 = Run_returned" "writer_work (r_conn ?s4) = 3"
    by (simp_all add: leave_def example_run_start)
      (simp add: example_run_def run_start_def new_connection_def writer_work_def new_queue_def pending_def close_queue_def)
  have more: "\<exists>u. irc_path example_env (ns @ [Writer]) ?s4 u" if "irc_path example_env ns ?s4 v" for ns v
    using path_step [OF that irc_step.writes] by blast
  obtain u1 where u1: "irc_path example_env ([] @ [Writer]) ?s4 u1" using more [OF path_refl] by blast
  obtain u2 where u2: "irc_path example_env (([] @ [Writer]) @ [Writer]) ?s4 u2" using more [OF u1] by blast
  obtain s' where "irc_path example_env ((([] @ [Writer]) @ [Writer]) @ [Writer]) ?s4 s'" using more [OF u2] by blast
  then have w: "irc_path example_env [Writer, Writer, Writer] ?s4 s'" by simp
  have "\<not> r_link ?s4" "c_writer (r_conn s') = Returned_writer"
    using shutdown_ends_connection [OF p4 [unfolded example_run_def] d(1) [unfolded example_run_def] path_refl] d(2,3)
      shutdown_ends_connection [OF p4 [unfolded example_run_def] d(1) [unfolded example_run_def] w [unfolded example_run_def]]
    unfolding example_run_def by simp_all
  with p4 d(2) w show ?thesis by blast
qed

end
