(* ===== verification/Daemon_Exit.thy ===== *)
theory Daemon_Exit
  imports App Irc_Run "HOL-Library.Multiset"
begin

text \<open>
  \<open>app.Run\<close> of \<open>internal/app/app.go\<close> as a process: the connection loop that hands telegrams to \<open>onData\<close>, one goroutine for
  each Slack post, one \<open>Connection.Run\<close> for each IRC server with its writer and callbacks, the signal that
  cancels the context they share, and the end of the process once \<open>Run\<close> has returned, as a step relation over all
  interleavings.
\<close>


section \<open>The process\<close>

record proc_state =
  x_processor :: processor
  x_fs :: file_system
  x_active :: "(hook \<times> string \<times> string) list"    \<comment> \<open>posts under way\<close>
  x_finished :: "(hook \<times> string \<times> string) list"  \<comment> \<open>posts whose \<open>Send\<close> has returned\<close>
  x_started :: "(hook \<times> string \<times> string) list"   \<comment> \<open>all posts ever started\<close>
  x_irc :: "irc_run list"
  x_wni :: bool                                  \<comment> \<open>the connection loop is running\<close>
  x_cancelled :: bool
  x_exited :: bool

definition start_process :: "daemon \<Rightarrow> proc_state" where
  "start_process d = \<lparr>x_processor = dm_processor d, x_fs = dm_fs d, x_active = dm_posts d, x_finished = [],
     x_started = dm_posts d, x_irc = map (run_start 0) (dm_irc d), x_wni = True, x_cancelled = False, x_exited = False\<rparr>"

text \<open>\<open>onData\<close>: it starts the posts' goroutines and hands the telegram to each connection.\<close>

definition proc_received :: "io_outcome \<Rightarrow> string \<Rightarrow> bytes \<Rightarrow> proc_state \<Rightarrow> proc_state" where
  "proc_received io md5 body x =
     (let (r, p, fs) = process io md5 body (x_processor x, x_fs x)
      in x\<lparr>x_processor := p, x_fs := fs, x_active := x_active x @ dispatch_to_slack r,
           x_started := x_started x @ dispatch_to_slack r,
           x_irc := map (\<lambda>s. s\<lparr>r_conn := notify (pr_telegram r) (pr_text r) (r_conn s)\<rparr>) (x_irc x)\<rparr>)"

definition proc_signal :: "proc_state \<Rightarrow> proc_state" where
  "proc_signal x = x\<lparr>x_cancelled := True, x_irc := map (\<lambda>s. s\<lparr>r_conn := (r_conn s)\<lparr>c_done := True\<rparr>\<rparr>) (x_irc x)\<rparr>"

datatype proc_label = Receives | Post_ends | Irc_moves nat mover | Signalled | Wni_ends | Exits

inductive proc_step :: "(nat \<Rightarrow> conn_env) \<Rightarrow> proc_label \<Rightarrow> proc_state \<Rightarrow> proc_state \<Rightarrow> bool" for envs :: "nat \<Rightarrow> conn_env" where
  receives: "\<not> x_exited x \<Longrightarrow> x_wni x \<Longrightarrow> proc_step envs Receives x (proc_received io md5 body x)"
| post_ends: "\<not> x_exited x \<Longrightarrow> x_active x = ps @ q # qs \<Longrightarrow>
    proc_step envs Post_ends x (x\<lparr>x_active := ps @ qs, x_finished := x_finished x @ [q]\<rparr>)"
| irc_moves: "\<not> x_exited x \<Longrightarrow> i < length (x_irc x) \<Longrightarrow> m \<noteq> Daemon \<Longrightarrow> irc_step (envs i) m (x_irc x ! i) s \<Longrightarrow>
    proc_step envs (Irc_moves i m) x (x\<lparr>x_irc := (x_irc x)[i := s]\<rparr>)"
| signalled: "\<not> x_exited x \<Longrightarrow> proc_step envs Signalled x (proc_signal x)"
| wni_ends: "\<not> x_exited x \<Longrightarrow> x_wni x \<Longrightarrow> x_cancelled x \<Longrightarrow> proc_step envs Wni_ends x (x\<lparr>x_wni := False\<rparr>)"
| exits: "\<not> x_exited x \<Longrightarrow> \<not> x_wni x \<Longrightarrow> list_all (\<lambda>s. r_runner s = Run_returned) (x_irc x) \<Longrightarrow>
    proc_step envs Exits x (x\<lparr>x_exited := True\<rparr>)"

inductive proc_path :: "(nat \<Rightarrow> conn_env) \<Rightarrow> proc_label list \<Rightarrow> proc_state \<Rightarrow> proc_state \<Rightarrow> bool"
  for envs :: "nat \<Rightarrow> conn_env" where
  proc_refl: "proc_path envs [] x x"
| proc_more: "proc_path envs ks x y \<Longrightarrow> proc_step envs k y z \<Longrightarrow> proc_path envs (ks @ [k]) x z"

text \<open>The steps that lead to the end.\<close>

fun ending :: "proc_label \<Rightarrow> bool" where
  "ending (Irc_moves i Runner) \<longleftrightarrow> True"
| "ending Wni_ends \<longleftrightarrow> True"
| "ending Exits \<longleftrightarrow> True"
| "ending k \<longleftrightarrow> False"


section \<open>Invariants\<close>

definition proc_inv :: "proc_state \<Rightarrow> bool" where
  "proc_inv x \<longleftrightarrow> list_all (\<lambda>s. link_inv s \<and> (c_done (r_conn s) \<longleftrightarrow> x_cancelled x)) (x_irc x)
     \<and> (x_wni x \<or> x_cancelled x)
     \<and> (x_exited x \<longrightarrow> \<not> x_wni x \<and> list_all (\<lambda>s. r_runner s = Run_returned) (x_irc x))
     \<and> mset (x_active x) + mset (x_finished x) = mset (x_started x)"

lemma done_same: "irc_step e m s s' \<Longrightarrow> m \<noteq> Daemon \<Longrightarrow> c_done (r_conn s') = c_done (r_conn s)"
  by (induction rule: irc_step.induct)
    (auto simp: frame_simps after_failure_def after_session_def after_sleep_def leave_def Let_def split: option.split)

lemma proc_inv_start:
  assumes "start_daemon url_host mkdir_ok write_ok cfg fs = Inr d"
  shows "proc_inv (start_process d)"
proof -
  have irc: "dm_irc d = map start_connection (irc_conf cfg)" by (rule start_daemon_Inr(3) [OF assms])
  have "link_inv (run_start 0 (start_connection srv)) \<and> \<not> c_done (r_conn (run_start 0 (start_connection srv)))" for srv
    using link_inv_start by (simp add: start_connection_def) (simp add: run_start_def new_connection_def)
  then show ?thesis by (simp add: proc_inv_def start_process_def irc list_all_iff)
qed

lemma proc_inv_step: "proc_step envs k x y \<Longrightarrow> proc_inv x \<Longrightarrow> proc_inv y"
proof (induction rule: proc_step.induct)
  case (receives x io md5 body)
  obtain r p fs where r: "process io md5 body (x_processor x, x_fs x) = (r, p, fs)" by (metis prod_cases3)
  have "link_inv (s\<lparr>r_conn := notify t w (r_conn s)\<rparr>)" if "link_inv s" for s t w
    using link_inv_step [OF irc_step.telegram that] .
  with receives show ?case
    by (auto simp: proc_inv_def proc_received_def r list_all_iff frame_simps add.commute add.left_commute)
next
  case (irc_moves x i m s)
  have s: "link_inv (x_irc x ! i)" "c_done (r_conn (x_irc x ! i)) = x_cancelled x"
    using irc_moves by (auto simp: proc_inv_def list_all_length)
  have "link_inv s" "c_done (r_conn s) = x_cancelled x"
    using link_inv_step [OF irc_moves(4) s(1)] done_same [OF irc_moves(4,3)] s(2) by simp_all
  then show ?case using irc_moves by (auto simp: proc_inv_def list_all_length nth_list_update)
next
  case (signalled x)
  have "link_inv (s\<lparr>r_conn := (r_conn s)\<lparr>c_done := True\<rparr>\<rparr>)" if "link_inv s" for s
    using link_inv_step [OF irc_step.cancelled that] .
  with signalled show ?case by (auto simp: proc_inv_def proc_signal_def list_all_iff)
qed (auto simp: proc_inv_def)

lemma proc_inv_path: "proc_path envs ks x y \<Longrightarrow> proc_inv x \<Longrightarrow> proc_inv y"
  by (induction rule: proc_path.induct) (auto intro: proc_inv_step)


section \<open>The way to the end\<close>

definition proc_work :: "proc_state \<Rightarrow> nat" where
  "proc_work x = (if x_exited x then 0
     else 1 + (if x_wni x then 1 else 0) + sum_list (map (\<lambda>s. run_work (r_runner s)) (x_irc x)))"

lemma run_work_le: "run_work r \<le> 5"
  by (cases r) simp_all

lemma proc_work_le: "proc_work x \<le> 5 * length (x_irc x) + 2"
proof -
  have "sum_list (map (\<lambda>s. run_work (r_runner s)) ss) \<le> 5 * length ss" for ss
    by (induction ss) (use run_work_le in \<open>auto intro: add_mono\<close>)
  from this [of "x_irc x"] show ?thesis by (simp add: proc_work_def)
qed

lemma proc_work_step:
  assumes "proc_step envs k x y" "proc_inv x" "x_cancelled x"
  shows "x_cancelled y \<and> (if ending k then proc_work y < proc_work x else proc_work y = proc_work x)"
  using assms
proof (induction rule: proc_step.induct)
  case (receives x io md5 body)
  then show ?case by (simp add: proc_received_def case_prod_beta Let_def proc_work_def comp_def)
next
  case (irc_moves x i m s)
  let ?w = "\<lambda>s. run_work (r_runner s)"
  have "c_done (r_conn (x_irc x ! i))" using irc_moves by (auto simp: proc_inv_def list_all_length)
  note w = run_work_step [OF irc_moves(4) this]
  have u: "map ?w ((x_irc x)[i := s]) = (map ?w (x_irc x))[i := ?w s]" by (rule map_update)
  have le: "?w (x_irc x ! i) \<le> sum_list (map ?w (x_irc x))" using irc_moves(2) by (intro member_le_sum_list) simp_all
  have "sum_list (map ?w ((x_irc x)[i := s])) = sum_list (map ?w (x_irc x)) + ?w s - ?w (x_irc x ! i)"
    unfolding u using irc_moves(2) by (subst sum_list_update) simp_all
  then show ?case using irc_moves w le by (cases m) (auto simp: proc_work_def)
qed (auto simp: proc_signal_def proc_work_def comp_def)

lemma proc_work_path:
  "proc_path envs ks x y \<Longrightarrow> proc_inv x \<Longrightarrow> x_cancelled x \<Longrightarrow>
     proc_inv y \<and> x_cancelled y \<and> proc_work y + length (filter ending ks) \<le> proc_work x"
proof (induction rule: proc_path.induct)
  case (proc_more ks x y k z)
  then show ?case using proc_inv_step [OF proc_more.hyps(2)] proc_work_step [OF proc_more.hyps(2)]
    by (auto split: if_splits)
qed simp


text \<open>As long as the process has not ended, some step towards the end can be taken; it leaves the posts alone.\<close>

lemma can_end:
  assumes "proc_inv x" "x_cancelled x" "\<not> x_exited x"
  shows "\<exists>k y. ending k \<and> proc_step envs k x y \<and> x_active y = x_active x \<and> x_finished y = x_finished x"
proof -
  consider "x_wni x" | "\<not> x_wni x" "list_all (\<lambda>s. r_runner s = Run_returned) (x_irc x)"
    | i where "i < length (x_irc x)" "r_runner (x_irc x ! i) \<noteq> Run_returned"
    by (auto simp: list_all_length)
  then show ?thesis
  proof cases
    case 1
    from proc_step.wni_ends [OF assms(3) 1 assms(2), of envs] show ?thesis
      by (intro exI [of _ Wni_ends] exI [of _ "x\<lparr>x_wni := False\<rparr>"] conjI) simp_all
  next
    case 2
    from proc_step.exits [OF assms(3) 2, of envs] show ?thesis
      by (intro exI [of _ Exits] exI [of _ "x\<lparr>x_exited := True\<rparr>"] conjI) simp_all
  next
    case 3
    have "link_inv (x_irc x ! i)" "c_done (r_conn (x_irc x ! i))" using assms 3 by (auto simp: proc_inv_def list_all_length)
    from done_can_move [OF this, of "envs i"] 3(2) obtain s where "irc_step (envs i) Runner (x_irc x ! i) s"
      by (auto simp: run_can_move_def)
    from proc_step.irc_moves [where envs = envs, OF assms(3) 3(1) _ this] show ?thesis
      by (intro exI [of _ "Irc_moves i Runner"] exI [of _ "x\<lparr>x_irc := (x_irc x)[i := s]\<rparr>"] conjI) simp_all
  qed
qed

lemma proc_path_front: "proc_path envs ks y z \<Longrightarrow> proc_step envs k x y \<Longrightarrow> proc_path envs (k # ks) x z"
proof (induction rule: proc_path.induct)
  case (proc_refl y)
  then show ?case using proc_path.proc_more [OF proc_path.proc_refl, of envs k x y] by simp
next
  case (proc_more ks y z k' z')
  then show ?case using proc_path.proc_more [of envs "k # ks" x z k' z'] by simp
qed

lemma runs_to_end:
  assumes "proc_inv x" "x_cancelled x"
  shows "\<exists>ks y. proc_path envs ks x y \<and> x_exited y \<and> x_active y = x_active x \<and> x_finished y = x_finished x"
  using assms
proof (induction "proc_work x" arbitrary: x rule: less_induct)
  case less
  show ?case
  proof (cases "x_exited x")
    case True
    then show ?thesis using proc_path.proc_refl by blast
  next
    case False
    from can_end [OF less.prems False] obtain k y where
      k: "ending k" "proc_step envs k x y" "x_active y = x_active x" "x_finished y = x_finished x" by blast
    have "proc_inv y" "x_cancelled y" "proc_work y < proc_work x"
      using proc_inv_step [OF k(2) less.prems(1)] proc_work_step [OF k(2) less.prems] k(1) by simp_all
    from less.hyps [OF this(3,1,2)] show ?thesis using proc_path_front [OF _ k(2)] k(3,4) by metis
  qed
qed

lemma exited_stops: "x_exited x \<Longrightarrow> \<not> proc_step envs k x y"
  by (auto elim: proc_step.cases)

text \<open>Each connection goes through an execution of its own.\<close>

lemma irc_step_daemon:
  "irc_path e ms s s' \<Longrightarrow> \<exists>ms. irc_path e ms s (s'\<lparr>r_conn := notify t w (r_conn s')\<rparr>)"
  "irc_path e ms s s' \<Longrightarrow> \<exists>ms. irc_path e ms s (s'\<lparr>r_conn := (r_conn s')\<lparr>c_done := True\<rparr>\<rparr>)"
  using path_step [OF _ irc_step.telegram] path_step [OF _ irc_step.cancelled] by blast+

lemma proc_irc_path:
  "proc_path envs ks x y \<Longrightarrow> length (x_irc y) = length (x_irc x)
     \<and> (\<forall>i < length (x_irc x). \<exists>ms. irc_path (envs i) ms (x_irc x ! i) (x_irc y ! i))"
proof (induction rule: proc_path.induct)
  case (proc_refl x)
  then show ?case using path_refl by blast
next
  case (proc_more ks x y k z)
  from proc_more.hyps(2) show ?case
  proof (cases rule: proc_step.cases)
    case (receives io md5 body)
    obtain r p fs where r: "process io md5 body (x_processor y, x_fs y) = (r, p, fs)" by (metis prod_cases3)
    have "x_irc z = map (\<lambda>s. s\<lparr>r_conn := notify (pr_telegram r) (pr_text r) (r_conn s)\<rparr>) (x_irc y)"
      by (simp add: receives proc_received_def r)
    then show ?thesis using proc_more.IH irc_step_daemon(1) by simp blast
  next
    case (irc_moves i m s)
    then show ?thesis using proc_more.IH path_step by (auto simp: nth_list_update) blast
  next
    case signalled
    then show ?thesis using proc_more.IH irc_step_daemon(2) by (simp add: proc_signal_def) blast
  qed (use proc_more.IH in simp_all)
qed

section \<open>Properties\<close>

text \<open>C34. A signal ends the process in an orderly way: the daemon starts from its configuration and goes through any
  interleaving of telegrams, Slack posts, connections, reconnects, callbacks and writers.  Once the signal has come,
  the process can always go on towards its end, and in every execution it takes at most five steps for each
  configured IRC server, and two, to get there; and when it has ended, the loop that receives telegrams had
  ended, and every IRC connection had been closed, its queue closed and its \<open>Run\<close> returned.\<close>

theorem signal_ends_process:
  assumes "start_daemon url_host mkdir_ok write_ok cfg fs = Inr d" "proc_path envs ks (start_process d) x"
  shows "(x_cancelled x \<and> \<not> x_exited x \<longrightarrow> (\<exists>k y. ending k \<and> proc_step envs k x y))
    \<and> (x_cancelled x \<and> proc_path envs ks' x y \<longrightarrow> length (filter ending ks') \<le> 5 * length (irc_conf cfg) + 2)
    \<and> (x_exited x \<longrightarrow> x_cancelled x \<and> \<not> x_wni x \<and>
         list_all (\<lambda>s. r_runner s = Run_returned \<and> \<not> r_link s \<and> q_closed (c_queue (r_conn s))) (x_irc x))"
proof -
  have inv: "proc_inv x" by (rule proc_inv_path [OF assms(2) proc_inv_start [OF assms(1)]])
  have "length (x_irc x) = length (irc_conf cfg)"
    using proc_irc_path [OF assms(2)] start_daemon_Inr(3) [OF assms(1)] by (simp add: start_process_def)
  then have "length (filter ending ks') \<le> 5 * length (irc_conf cfg) + 2" if "x_cancelled x" "proc_path envs ks' x y"
    using proc_work_path [OF that(2) inv that(1)] proc_work_le [of x] by simp
  moreover have "x_exited x \<longrightarrow> x_cancelled x \<and> \<not> x_wni x \<and>
         list_all (\<lambda>s. r_runner s = Run_returned \<and> \<not> r_link s \<and> q_closed (c_queue (r_conn s))) (x_irc x)"
    using inv by (auto simp: proc_inv_def list_all_iff link_inv_def)
  ultimately show ?thesis using can_end [OF inv, of envs] by blast
qed

text \<open>A daemon with one hook and one IRC server.\<close>

definition one_each :: config where
  "one_each = \<lparr>log_dir = [], slack_conf = Some \<lparr>s_all = [\<lparr>ch_name = ''ops'', ch_url = ''u''\<rparr>], s_limited = []\<rparr>,
     wni_conf = \<lparr>w_user = [], w_passwd = [], w_passwd_md5 = [], w_log_timeout = False, w_log_keep_alive = False,
       w_server_override = []\<rparr>,
     irc_conf = [\<lparr>irc_server = \<lparr>srv_host = ''h'', srv_port = 6667, srv_password = [], srv_charset = [], srv_message_type = []\<rparr>,
       irc_nick = ''n'', irc_name = ''n'', irc_desc = ''n'', irc_all_notice = [''#a''], irc_limited_notice = []\<rparr>]\<rparr>"

lemma one_each_starts:
  "\<exists>d. start_daemon (\<lambda>_. None) True True one_each \<lparr>fs_files = Map.empty\<rparr> = Inr d \<and> dm_posts d = []
     \<and> p_store (dm_processor d) = None \<and> p_dispatcher (dm_processor d) = new_dispatcher [\<lparr>hook_name = ''ops'', hook_url = ''u''\<rparr>] []"
  by (simp add: start_daemon_def one_each_def to_slack_hooks_def display_name_def new_processor_def)

lemma signal_ends_process_witness:
  "\<exists>d ks' y. start_daemon (\<lambda>_. None) True True one_each \<lparr>fs_files = Map.empty\<rparr> = Inr d
     \<and> proc_path (\<lambda>_. example_env) ks' (proc_signal (start_process d)) y \<and> x_exited y \<and> length (filter ending ks') \<le> 7
     \<and> list_all (\<lambda>s. \<not> r_link s) (x_irc y)"
proof -
  obtain d where d: "start_daemon (\<lambda>_. None) True True one_each \<lparr>fs_files = Map.empty\<rparr> = Inr d"
    using one_each_starts by blast
  let ?x = "proc_signal (start_process d)"
  have "\<not> x_exited (start_process d)" by (simp add: start_process_def)
  then have p: "proc_path (\<lambda>_. example_env) [Signalled] (start_process d) ?x"
    using proc_path_front [OF proc_refl proc_step.signalled] by blast
  have c: "x_cancelled ?x" by (simp add: proc_signal_def)
  obtain ks' y where y: "proc_path (\<lambda>_. example_env) ks' ?x y" "x_exited y"
    using runs_to_end [OF proc_inv_path [OF p proc_inv_start [OF d]] c] by blast
  have "5 * length (irc_conf one_each) + 2 = 7" by (simp add: one_each_def)
  then have n: "length (filter ending ks') \<le> 7"
    using signal_ends_process [OF d p, of ks' y] c y by metis
  have yp: "proc_path (\<lambda>_. example_env) (Signalled # ks') (start_process d) y"
    using proc_path_front [OF y(1) proc_step.signalled] by (simp add: start_process_def)
  have "list_all (\<lambda>s. \<not> r_link s) (x_irc y)"
    using signal_ends_process [OF d yp, of "[]" y] y(2) by (auto simp: list_all_iff)
  with d y n show ?thesis by blast
qed

text \<open>C17. The end of the process cuts the Slack posts under way: every post that a telegram has started is under way or finished,
  none twice; but \<open>Run\<close> waits for the IRC connections only, so from every state, whatever posts are under way, a signal can
  end the process with exactly those posts under way, and after that none of them is ever finished, although each
  goroutine has been granted 30 seconds.\<close>

theorem exit_cuts_posts:
  assumes "start_daemon url_host mkdir_ok write_ok cfg fs = Inr d" "proc_path envs ks (start_process d) x"
  shows "mset (x_active x) + mset (x_finished x) = mset (x_started x)
    \<and> (\<not> x_exited x \<longrightarrow> (\<exists>ks' y. proc_path envs (Signalled # ks') x y \<and> x_exited y
         \<and> x_active y = x_active x \<and> x_finished y = x_finished x))
    \<and> (x_exited x \<longrightarrow> (\<forall>ks' y. proc_path envs ks' x y \<longrightarrow> y = x))"
proof (intro conjI impI allI)
  have inv: "proc_inv x" by (rule proc_inv_path [OF assms(2) proc_inv_start [OF assms(1)]])
  then show "mset (x_active x) + mset (x_finished x) = mset (x_started x)" by (simp add: proc_inv_def)
  show "\<exists>ks' y. proc_path envs (Signalled # ks') x y \<and> x_exited y \<and> x_active y = x_active x \<and> x_finished y = x_finished x"
    if "\<not> x_exited x"
  proof -
    note s = proc_step.signalled [OF that, of envs]
    have "proc_inv (proc_signal x)" "x_cancelled (proc_signal x)" "x_active (proc_signal x) = x_active x"
      "x_finished (proc_signal x) = x_finished x"
      using proc_inv_step [OF s inv] by (simp_all add: proc_signal_def)
    with runs_to_end [of "proc_signal x" envs] proc_path_front [OF _ s] show ?thesis by metis
  qed
  show "y = x" if "x_exited x" "proc_path envs ks' x y" for ks' y
    using that(2,1) by (induction rule: proc_path.induct) (use exited_stops in blast)+
qed

lemma exit_cuts_posts_witness:
  "\<exists>d x ks y. start_daemon (\<lambda>_. None) True True one_each \<lparr>fs_files = Map.empty\<rparr> = Inr d
     \<and> proc_path (\<lambda>_. example_env) [Receives] (start_process d) x \<and> proc_path (\<lambda>_. example_env) (Signalled # ks) x y \<and> x_exited y
     \<and> x_active y = post_of (decode ''ab'') [\<lparr>hook_name = ''ops'', hook_url = ''u''\<rparr>] \<and> x_finished y = []"
proof -
  obtain d where d: "start_daemon (\<lambda>_. None) True True one_each \<lparr>fs_files = Map.empty\<rparr> = Inr d" "dm_posts d = []"
    "p_dispatcher (dm_processor d) = new_dispatcher [\<lparr>hook_name = ''ops'', hook_url = ''u''\<rparr>] []"
    using one_each_starts by blast
  let ?io = "\<lparr>io_now = 7, io_write = Written, io_mkdir = True, io_rename = True\<rparr>"
  let ?x = "proc_received ?io ''0a'' ''ab'' (start_process d)"
  have p: "proc_path (\<lambda>_. example_env) [Receives] (start_process d) ?x"
    using proc_path_front [OF proc_refl proc_step.receives, of "start_process d" "\<lambda>_. example_env" ?io "''0a''" "''ab''"]
    by (simp add: start_process_def)
  have h: "fst (hooks_for (new_dispatcher hs []) t) = hs" for hs :: "hook list" and t
    by (simp add: hooks_for_def new_dispatcher_def Let_def)
  have x: "\<not> x_exited ?x" "x_finished ?x = []"
    "x_active ?x = post_of (decode ''ab'') [\<lparr>hook_name = ''ops'', hook_url = ''u''\<rparr>]"
    using process_result_eq(1) [of ?io "''0a''" "''ab''" "dm_processor d" "dm_fs d"] d(2,3) h
    by (simp_all add: proc_received_def start_process_def case_prod_beta Let_def dispatch_to_slack_def post_of_def)
  from exit_cuts_posts [OF d(1) p] x d(1) p show ?thesis by metis
qed

end
