(* ===== verification/Slack_Payload.thy ===== *)
theory Slack_Payload
  imports Utf8 Slack Eewmsg
begin

text \<open>
  \<open>internal/slack/notifier.go\<close>: the payload of a message, a JSON object of two strings.  \<open>json_body\<close> is what
  \<open>json.Marshal\<close> writes for a string: UTF-8 is decoded as Go does, the characters that HTML and JavaScript
  treat specially are escaped, and a byte that is no UTF-8 becomes U+FFFD.  A reader of such objects,
  written from RFC 8259, says what Slack gets to see.
\<close>


section \<open>Writing JSON\<close>

abbreviation quote :: char where "quote \<equiv> CHR 0x22"

definition json_ascii :: "char \<Rightarrow> bytes" where
  "json_ascii c =
     (if c = backslash \<or> c = quote then [backslash, c]
      else if c = CHR 0x08 then [backslash, CHR ''b'']
      else if c = CHR 0x0C then [backslash, CHR ''f'']
      else if c = nl then [backslash, CHR ''n'']
      else if c = cr then [backslash, CHR ''r'']
      else if c = CHR 0x09 then [backslash, CHR ''t'']
      else if byte_in 0 0x1F c \<or> c \<in> {CHR ''<'', CHR ''>'', CHR ''&''} then
        backslash # ''u00'' @ [hex_digit (of_char c div 16), hex_digit (of_char c mod 16)]
      else [c])"

text \<open>What is written for the rune at the head of a text.\<close>

definition json_rune :: "bytes \<Rightarrow> bytes" where
  "json_rune s =
     (let (k, n) = decode_rune s
      in if k < 0x80 then json_ascii (hd s)
         else if k = 0xFFFD \<and> n = 1 then backslash # ''ufffd''
         else if k = 0x2028 \<or> k = 0x2029 then backslash # ''u202'' @ [hex_digit (k mod 16)]
         else take n s)"

function json_body :: "bytes \<Rightarrow> bytes" where
  "json_body s = (if s = [] then [] else json_rune s @ json_body (drop (snd (decode_rune s)) s))"
  by pat_completeness auto
termination
  by (relation "measure length") (use decode_rune_size in \<open>force+\<close>)

declare json_body.simps [simp del]

definition json_string :: "bytes \<Rightarrow> bytes" where
  "json_string s = quote # json_body s @ [quote]"

text \<open>\<open>json.Marshal\<close> writes the keys of a map in ascending order.\<close>

definition payload :: "string \<Rightarrow> string \<Rightarrow> bytes" where
  "payload txt username =
     CHR ''{'' # json_string ''text'' @ CHR '':'' # json_string txt @ CHR '','' # json_string ''username''
       @ CHR '':'' # json_string username @ ''}''"


section \<open>Reading JSON\<close>

text \<open>The code unit of a \<open>\u\<close> escape; one of a surrogate pair is not read, as none is written.\<close>

definition hex4 :: "char \<Rightarrow> char \<Rightarrow> char \<Rightarrow> char \<Rightarrow> nat option" where
  "hex4 a b c d =
     (case (hex_val a, hex_val b, hex_val c, hex_val d) of
        (Some w, Some x, Some y, Some z) \<Rightarrow>
          let k = ((w * 16 + x) * 16 + y) * 16 + z in if 0xD800 \<le> k \<and> k \<le> 0xDFFF then None else Some k
      | _ \<Rightarrow> None)"

fun unescape :: "char \<Rightarrow> char option" where
  "unescape c =
     (if c \<in> {quote, backslash, CHR ''/''} then Some c
      else if c = CHR ''b'' then Some (CHR 0x08)
      else if c = CHR ''f'' then Some (CHR 0x0C)
      else if c = CHR ''n'' then Some nl
      else if c = CHR ''r'' then Some cr
      else if c = CHR ''t'' then Some (CHR 0x09)
      else None)"

text \<open>The rest of a string after its opening quote: the text it stands for and what follows it.\<close>

fun read_body :: "bytes \<Rightarrow> (bytes \<times> bytes) option" where
  "read_body [] = None"
| "read_body (c # s) =
     (if c = quote then Some ([], s)
      else if c = backslash then
        (case s of
           [] \<Rightarrow> None
         | e # s1 \<Rightarrow>
             if e = CHR ''u'' then
               (case s1 of
                  w # x # y # z # s2 \<Rightarrow>
                    (case hex4 w x y z of
                       None \<Rightarrow> None
                     | Some k \<Rightarrow> map_option (apfst (append (utf8_rune k))) (read_body s2))
                | _ \<Rightarrow> None)
             else (case unescape e of
                 None \<Rightarrow> None
               | Some b \<Rightarrow> map_option (apfst (Cons b)) (read_body s1)))
      else if byte_in 0 0x1F c then None
      else map_option (apfst (Cons c)) (read_body s))"

definition read_string :: "bytes \<Rightarrow> (bytes \<times> bytes) option" where
  "read_string s = (case s of [] \<Rightarrow> None | c # s1 \<Rightarrow> if c = quote then read_body s1 else None)"

text \<open>A byte that has to come next.\<close>

definition expect :: "char \<Rightarrow> bytes \<Rightarrow> bytes option" where
  "expect c s = (case s of [] \<Rightarrow> None | d # s1 \<Rightarrow> if d = c then Some s1 else None)"

definition read_member :: "string \<Rightarrow> bytes \<Rightarrow> (bytes \<times> bytes) option" where
  "read_member key s =
     Option.bind (read_string s) (\<lambda>(k, s1). if k = key then Option.bind (expect (CHR '':'') s1) read_string else None)"

definition read_payload :: "bytes \<Rightarrow> (bytes \<times> bytes) option" where
  "read_payload s =
     Option.bind (expect (CHR ''{'') s) (\<lambda>s.
     Option.bind (read_member ''text'' s) (\<lambda>(txt, s).
     Option.bind (expect (CHR '','') s) (\<lambda>s.
     Option.bind (read_member ''username'' s) (\<lambda>(username, s).
     if s = ''}'' then Some (txt, username) else None))))"


section \<open>What is read is what was written\<close>

lemma read_escape:
  assumes "hex4 w x y z = Some k"
  shows "read_body (backslash # CHR ''u'' # w # x # y # z # s) = map_option (apfst (append (utf8_rune k))) (read_body s)"
  using assms by simp

lemma read_literal:
  "list_all (byte_in 0x80 0xFF) w \<Longrightarrow> read_body (w @ s) = map_option (apfst (append w)) (read_body s)"
proof (induction w)
  case (Cons c w)
  then have "c \<noteq> quote" "c \<noteq> backslash" "\<not> byte_in 0 0x1F c" by (auto simp: byte_in_def)
  then show ?case using Cons by (simp add: option.map_comp comp_def apfst_def map_prod_def case_prod_beta)
qed (cases "read_body s", auto)

lemma read_ascii:
  assumes "byte_in 0 0x7F c"
  shows "read_body (json_ascii c @ s) = map_option (apfst (append (utf8_rune (of_char c)))) (read_body s)"
proof -
  have one: "utf8_rune (of_char c) = [c]" using assms by (simp add: utf8_rune_def byte_in_def)
  define S where "S = {backslash, quote, CHR 0x08, CHR 0x0C, nl, cr, CHR 0x09}"
  define T where "T = {CHR ''<'', CHR ''>'', CHR ''&''}"
  consider "c \<in> S" | "c \<notin> S" "byte_in 0 0x1F c \<or> c \<in> T" | "c \<notin> S" "\<not> byte_in 0 0x1F c" "c \<notin> T" by blast
  then show ?thesis
  proof cases
    case 1
    then show ?thesis by (auto simp: S_def json_ascii_def one apfst_def map_prod_def)
  next
    case 2
    define n :: nat where "n = of_char c"
    have n: "n \<le> 127" using assms by (simp add: n_def byte_in_def)
    have "hex4 CHR ''0'' CHR ''0'' (hex_digit (n div 16)) (hex_digit (n mod 16)) = Some n"
      using n by (simp add: hex4_def hex_val_digit Let_def) (simp add: hex_val_def byte_in_def)
    moreover have "json_ascii c = backslash # ''u00'' @ [hex_digit (n div 16), hex_digit (n mod 16)]"
      using 2 by (auto simp: S_def T_def json_ascii_def n_def)
    ultimately show ?thesis using read_escape by (simp add: n_def)
  next
    case 3
    then have "json_ascii c = [c]" by (simp add: S_def T_def json_ascii_def)
    then show ?thesis using 3 by (simp add: S_def one apfst_def map_prod_def)
  qed
qed

lemma read_rune:
  assumes "s \<noteq> []"
  shows "read_body (json_rune s @ x) = map_option (apfst (append (utf8_rune (fst (decode_rune s))))) (read_body x)"
  using decode_rune_sound [OF assms]
proof (elim disjE exE conjE)
  assume d: "decode_rune s = (0xFFFD, 1)"
  have "hex4 CHR ''f'' CHR ''f'' CHR ''f'' CHR ''d'' = Some 0xFFFD"
    by (simp add: hex4_def hex_val_def byte_in_def)
  from read_escape [OF this] show ?thesis by (simp add: json_rune_def d)
next
  fix k
  assume d: "decode_rune s = (k, length (utf8_rune k))" "take (length (utf8_rune k)) s = utf8_rune k" "scalar k"
  show ?thesis
  proof (cases "k < 0x80")
    case True
    then have c: "hd s = char_of k" using d(2) assms by (cases s) (auto simp: utf8_rune_def)
    then have "json_rune s = json_ascii (char_of k)" using d True by (simp add: json_rune_def)
    then show ?thesis using read_ascii [of "char_of k"] True d(1) by (simp add: byte_of)
  next
    case False
    have hex: "hex4 CHR ''2'' CHR ''0'' CHR ''2'' (hex_digit 8) = Some 0x2028"
      "hex4 CHR ''2'' CHR ''0'' CHR ''2'' (hex_digit 9) = Some 0x2029"
      by (simp_all add: hex4_def hex_val_digit) (simp_all add: hex_val_def byte_in_def)
    have fst: "fst (decode_rune s) = k" using d(1) by simp
    have "length (utf8_rune k) \<noteq> 1" using False by (simp add: utf8_rune_def)
    then have j: "json_rune s = (if k = 0x2028 \<or> k = 0x2029 then backslash # ''u202'' @ [hex_digit (k mod 16)] else utf8_rune k)"
      using d False by (simp add: json_rune_def)
    consider "k = 0x2028" | "k = 0x2029" | "k \<noteq> 0x2028" "k \<noteq> 0x2029" by blast
    then show ?thesis
    proof cases
      case 1
      have "json_rune s @ x = backslash # CHR ''u'' # CHR ''2'' # CHR ''0'' # CHR ''2'' # hex_digit 8 # x"
        unfolding j 1 by simp
      then show ?thesis unfolding fst 1 using read_escape [OF hex(1)] by (simp only:)
    next
      case 2
      have "json_rune s @ x = backslash # CHR ''u'' # CHR ''2'' # CHR ''0'' # CHR ''2'' # hex_digit 9 # x"
        unfolding j 2 by simp
      then show ?thesis unfolding fst 2 using read_escape [OF hex(2)] by (simp only:)
    next
      case 3
      have "0x80 \<le> k" using False by simp
      from read_literal [OF high_bytes [OF d(3) this]] j 3 show ?thesis by (simp add: fst)
    qed
  qed
qed

lemma read_json_body: "read_body (json_body s @ quote # x) = Some (utf8 (runes s), x)"
proof (induction s rule: json_body.induct)
  case (1 s)
  show ?case
  proof (cases "s = []")
    case False
    then show ?thesis using 1 read_rune [OF False]
      by (subst json_body.simps, subst runes.simps) (simp add: utf8_def)
  qed (simp add: json_body.simps runes.simps utf8_def)
qed

lemma read_json_string: "read_string (json_string s @ x) = Some (utf8 (runes s), x)"
  by (simp add: read_string_def json_string_def read_json_body)

lemma read_payload_payload: "read_payload (payload txt username) = Some (utf8 (runes txt), utf8 (runes username))"
proof -
  have key: "utf8 (runes (map char_of ks)) = map char_of ks" if "list_all (\<lambda>k. k < 0x80) ks" for ks :: "nat list"
  proof -
    have "map char_of ks = utf8 ks" using that by (induction ks) (simp_all add: utf8_def utf8_rune_def)
    moreover have "list_all scalar ks" using that by (auto simp: list_all_iff scalar_def)
    ultimately show ?thesis by (simp add: runes_utf8)
  qed
  have k: "''text'' = map char_of [0x74, 0x65, 0x78, 0x74 :: nat]"
    "''username'' = map char_of [0x75, 0x73, 0x65, 0x72, 0x6E, 0x61, 0x6D, 0x65 :: nat]" by code_simp+
  have "utf8 (runes ''text'') = ''text''" "utf8 (runes ''username'') = ''username''"
    unfolding k by (rule key; simp)+
  then show ?thesis by (simp add: read_payload_def payload_def read_member_def expect_def read_json_string)
qed

text \<open>A byte that may stand in an HTML page or a script.\<close>

definition inert_byte :: "char \<Rightarrow> bool" where
  "inert_byte c \<longleftrightarrow> \<not> byte_in 0 0x1F c \<and> c \<notin> {CHR ''<'', CHR ''>'', CHR ''&''}"

lemma inert_high: "byte_in 0x80 0xFF c \<Longrightarrow> inert_byte c"
  by (auto simp: inert_byte_def byte_in_def)

lemma inert_hex: "d < 16 \<Longrightarrow> inert_byte (hex_digit d)"
  by (auto simp: inert_byte_def hex_digit_def byte_of)

lemma inert_ascii_chars [simp]:
  "inert_byte backslash" "inert_byte quote" "list_all inert_byte ''bfnrtu0{}:,textusername2d''"
  by (simp_all add: inert_byte_def byte_in_def)

lemma list_all_if: "(P \<Longrightarrow> list_all Q a) \<Longrightarrow> (\<not> P \<Longrightarrow> list_all Q b) \<Longrightarrow> list_all Q (if P then a else b)"
  by simp

lemma inert_json_ascii: "byte_in 0 0x7F c \<Longrightarrow> list_all inert_byte (json_ascii c)"
proof -
  assume c: "byte_in 0 0x7F c"
  have q: "c = backslash \<or> c = quote \<Longrightarrow> inert_byte c" by auto
  have l: "inert_byte CHR ''b''" "inert_byte CHR ''f''" "inert_byte CHR ''n''" "inert_byte CHR ''r''"
    "inert_byte CHR ''t''" "inert_byte CHR ''u''" "inert_byte CHR ''0''"
    by (simp_all add: inert_byte_def byte_in_def)
  have n: "\<not> (byte_in 0 0x1F c \<or> c \<in> {CHR ''<'', CHR ''>'', CHR ''&''}) \<Longrightarrow> inert_byte c"
    by (simp only: inert_byte_def) blast
  have "of_char c div 16 < (16 :: nat)" using c by (simp add: byte_in_def)
  then have h: "inert_byte (hex_digit (of_char c div 16))" "inert_byte (hex_digit (of_char c mod 16))"
    by (simp_all add: inert_hex)
  show ?thesis
    unfolding json_ascii_def
    by (intro list_all_if; simp only: list.pred_inject append_Cons append_Nil inert_ascii_chars l h q n simp_thms)
qed

lemma inert_json_rune:
  assumes "s \<noteq> []"
  shows "list_all inert_byte (json_rune s)"
  using decode_rune_sound [OF assms]
proof (elim disjE exE conjE)
  assume "decode_rune s = (0xFFFD, 1)"
  then show ?thesis by (simp add: json_rune_def) (simp add: inert_byte_def byte_in_def)
next
  fix k
  assume d: "decode_rune s = (k, length (utf8_rune k))" "take (length (utf8_rune k)) s = utf8_rune k" "scalar k"
  show ?thesis
  proof (cases "k < 0x80")
    case True
    then have "hd s = char_of k" using d(2) assms by (cases s) (auto simp: utf8_rune_def)
    then show ?thesis using d(1) True inert_json_ascii [of "hd s"] by (simp add: json_rune_def byte_of)
  next
    case False
    then have "list_all inert_byte (utf8_rune k)"
      using high_bytes [OF d(3)] by (auto simp: list_all_iff inert_high)
    then show ?thesis using d(1,2) False
      by (simp add: json_rune_def inert_hex) (simp add: inert_byte_def byte_in_def)
  qed
qed

lemma inert_json_string: "list_all inert_byte (json_string s)"
proof -
  have "list_all inert_byte (json_body s)"
  proof (induction s rule: json_body.induct)
    case (1 s)
    then show ?case by (subst json_body.simps) (simp add: inert_json_rune)
  qed
  then show ?thesis by (simp add: json_string_def)
qed

lemma inert_payload: "list_all inert_byte (payload txt username)"
  by (simp add: payload_def inert_json_string) (simp add: inert_byte_def byte_in_def)


section \<open>The payload of a report\<close>

lemma texty_lookup: "list_all (\<lambda>x. texty (snd x)) t \<Longrightarrow> texty (lookup t k)"
  by (induction t) (auto simp: lookup_def)

lemma texty_tables:
  "list_all (\<lambda>x. texty (snd x)) EpicenterCode_1" "list_all (\<lambda>x. texty (snd x)) EpicenterCode_2"
  "list_all (\<lambda>x. texty (snd x)) EpicenterCode_3" "list_all (\<lambda>x. texty (snd x)) Shindo"
  "list_all (\<lambda>x. texty (snd x)) WarnType"
  by (simp_all add: EpicenterCode_1_def EpicenterCode_2_def EpicenterCode_3_def Shindo_def WarnType_def
      scalar_def byte_in_def)

lemma texty_texts:
  "texty (lookup EpicenterCode k)" "texty (lookup Shindo k)" "texty (lookup WarnType k)"
  by (rule texty_lookup; simp add: EpicenterCode_def texty_tables)+

lemma texty_stamp: "list_all is_digit s \<Longrightarrow> texty (stamp (split_pairs s))"
  by (simp add: stamp_def texty_digits at_digits byte_in_def)

lemma texty_parts: "texty (map_uri t)" "texty (coordinates t)" "texty (format_times t)"
  by (simp_all add: map_uri_def coordinates_def format_times_def scalar_def byte_in_def)

lemma texty_format: "wf_telegram t \<Longrightarrow> texty (fst (format t)) \<and> texty (snd (format t))"
proof -
  assume wf: "wf_telegram t"
  then have d: "list_all is_digit (warn_time t)" "list_all is_digit (eq_time t)"
    by (auto simp: wf_telegram_def opt_len_def)
  have l: "texty (center_name t)" "texty (shindo t)" "texty (warn_type t)"
    using wf by (simp_all add: wf_telegram_def texty_texts)
  show ?thesis
    using texty_stamp [OF d(1)] texty_stamp [OF d(2)] l texty_parts
    by (simp add: format_def Let_def scalar_def byte_in_def)
qed

text \<open>C15. What Slack receives is the message: for every text and name the payload is one JSON object whose
  two members a reader of the JSON standard gets back, with each byte that is not UTF-8 as U+FFFD and all
  else unchanged; no byte of it is a control byte or one that HTML treats specially, so nothing in a
  message can end the object early or add a member; and what Slack reads of a report, whatever bytes came
  from the relay, is exactly its formatted text and title.\<close>

theorem slack_receives_message:
  "read_payload (payload txt username) = Some (utf8 (runes txt), utf8 (runes username))
   \<and> list_all inert_byte (payload txt username)
   \<and> read_payload (case format (decode raw) of (t, u) \<Rightarrow> payload t u) = Some (format (decode raw))"
proof -
  have "utf8 (runes (fst (format (decode raw)))) = fst (format (decode raw))"
    "utf8 (runes (snd (format (decode raw)))) = snd (format (decode raw))"
    using texty_format [OF wf_decode] by (simp_all add: texty_runes)
  then show ?thesis by (simp add: read_payload_payload inert_payload case_prod_beta)
qed

end
