(* ===== verification/Spec2Isabelle.thy ===== *)
theory Spec2Isabelle
  imports Commands Wnisim_Delivery Table_Source Decoder_Format Archive_Pages Daemon_Events Daemon_Shutdown Daemon_Exit Slack_Payload
begin

text \<open>
  irc-eew is a daemon that receives Japanese earthquake early warnings from the Weathernews (WNI)
  relay servers, decodes the telegrams, announces them on Slack and IRC and archives them; a web viewer
  shows the archive, and a simulator of the relay server serves for testing.  This library models the Go
  code under \<open>src/internal\<close> and \<open>src/cmd\<close> and proves what each part promises to the next.

  \<^bold>\<open>How the parts interact.\<close>  Bytes from a relay server go through \<open>wni.FrameParser.Feed\<close>; \<open>wni.Client.Run\<close>
  hands each data block to the \<open>onData\<close> callback of \<open>app.Run\<close>, which writes the raw bytes to a temporary
  file (\<open>eewlog\<close>), decodes them (\<open>decoder\<close>), formats a text (\<open>eewmsg\<close>), asks \<open>notify.Dispatcher\<close> for the
  Slack hooks due, renames the file to its place, starts one goroutine per hook (\<open>slack.Notifier.Send\<close>) and
  hands the telegram to every \<open>irc.Connection\<close>, which asks its own dispatcher for the channels and puts a
  notice into its queue; a writer goroutine takes notices out and sends them once the connection has
  joined its channels.  The viewer (\<open>eewview\<close>) reads the archive's directories and decodes the files again.

  \<^bold>\<open>Theories and sources.\<close>
  \<^item> Prelude: bytes as characters, splitting, decimal numbers, \<open>TrimSpace\<close>, \<open>Atoi\<close> and \<open>Sprintf\<close> verbs of
    the Go library.  Utf8: encoding and decoding of runes.  Go_Quote: \<open>strconv.Quote\<close> and the literals of
    Go.  Md5: \<open>crypto/md5\<close> on 32-bit words, and hex.  Regex: \<open>regexp\<close> with leftmost-first matching,
    submatches and replacement.
  \<^item> Wni_Protocol (\<open>wni/protocol.go\<close>): the parser state is the record \<open>parser\<close> (buffer, header, size), a
    pass of the loop is \<open>parse_step\<close>, the loop \<open>feed_loop\<close>, a call \<open>feed\<close>.  Wni_Client (\<open>wni/client.go\<close>,
    \<open>wni/serverlist.go\<close>): login, \<open>run\<close> over read outcomes, the server list.  Wnisim (\<open>wnisim/server.go\<close>):
    what the simulator writes and reads.  Wni_Session: connections that break.  Wnisim_Main (\<open>cmd/wnisim\<close>): the
    command and the writes of a session.  Wnisim_Loop, Wnisim_Delivery: the simulator and the client at work on
    one connection, as a step relation over all interleavings.
  \<^item> Tables, Decoder, Decoder_Format (\<open>decoder\<close>): the lookup tables, the line handlers and \<open>decode\<close>; the
    third adds an abstract \<open>report\<close> and its printed form.  Table_Gen (\<open>decoder/gen\<close>): the generator of the
    tables.  Table_Source: a reader of what it writes.
  \<^item> Eewmsg (\<open>eewmsg\<close>), Notify (\<open>notify\<close>), Slack (\<open>slack\<close>): the retries.  Slack_Timed: the same in time, with the
    timeouts.  Slack_Payload: what \<open>json.Marshal\<close> writes, and a reader of it.
  \<^item> Irc_Text, Irc_Queue, Irc_Dispatcher, Irc_Connection (\<open>irc\<close>): text and configuration, the send queue,
    the channels of a telegram, and the connection as a state machine driven by events.  Irc_Delivery:
    what becomes of one report on its way through that machine.  Irc_Run: the goroutine \<open>Run\<close>, beside the
    callbacks, the writer, the clock and the daemon.  Daemon_Events: the daemon with all its
    connections, each at its own pace.  Daemon_Shutdown: its connection loop in time, when a signal ends it.
    Daemon_Exit: the whole process with its goroutines, from start to exit.
  \<^item> Eewlog (\<open>eewlog\<close>), Config (\<open>config\<close>), App (\<open>app\<close>): the archive on a map from paths to contents, the
    configuration, and the daemon.
  \<^item> Eewview_Text, Eewview_Server (\<open>eewview\<close>): the texts, escaping and tables of the pages; the handlers.
    Archive_View, Archive_Pages: the directory tree of the files the daemon has written, and the viewer's
    pages on it.
  \<^item> Commands (\<open>cmd/eew-notifier\<close>, \<open>cmd/eew-replay\<close>, \<open>cmd/eew-view\<close>): the log level, exit statuses and the
    replay of files, the viewer's server until its end.

  \<^bold>\<open>Interfaces.\<close>  \<open>chunked_reader\<close> (Wni_Protocol): a reader whose frames do not depend on how its input is
  cut, interpreted on \<open>feed\<close>.  \<open>notice_queue\<close> (Irc_Queue): what the connection relies on, interpreted on the
  queue's operations through the list of pending notices.  \<open>limited_gate\<close> (Limited_Gate): the rule that
  decides when the limited receivers are told, interpreted on both dispatchers.  \<open>capped_backoff\<close>
  (Backoff): delays that double to a cap, interpreted on both reconnect loops.

  \<^bold>\<open>What the lemmas show.\<close>  Parser: independence of the cutting, honest frames, the one way to panic, round
  trips with the simulator's bytes; on a simulated connection every file is delivered and neither side blocks the
  other.  Decoder: \<open>decode\<close> inverts printing, and every result is well formed.
  Queue: an invariant kept by every operation, refinement of the list of pending notices, no lost
  wake-up, draining after close.  Connection: soundness of what is sent, delivery of everything pending
  and of the last report of each earthquake, also among other servers' events, no lost reconnect, attempts to connect that are spaced, an
  orderly shutdown, and the histories in which a notice is lost.  Process: a signal ends it in a bounded number of steps,
  behind every IRC connection but not behind the Slack posts.  Slack: every
  send ends in time, prompt answers are waited for, and a payload from which the message is read back.  Archive and viewer: unique places, the files after any
  sequence of telegrams, index and day pages that show exactly those reports, lookups that find them, no
  access outside the data directory, escaping.  Table generator: the Go compiler reads back the maps of the
  Perl module.
  This theory composes them: from the server's bytes to the posts; from the server's bytes, through any number of
  lives of the daemon, to the viewer's pages; and from the archive to the posts of a replay.

  \<^bold>\<open>Conventions and bounds.\<close>  Strings are lists of bytes; Japanese literals are given by their code points.
  An \<open>int\<close> of Go (64 bits) is an \<open>int\<close> whose bounds are checked where the code depends on them (\<open>atoi\<close>
  rejects what does not fit, \<open>duration_of_seconds\<close> wraps).  The numbers of a telegram have at most five
  digits.  Coordinates and magnitude, floating-point numbers divided by ten in Go, are kept in tenths;
  they are only printed with one decimal, which is exact.  No definition takes fuel: each loop
  terminates by a measure or by the sequence of outcomes it is given, and \<open>drain\<close> and \<open>steps\<close> count the
  calls and steps that the theorems show to be enough.

  \<^bold>\<open>Parameters.\<close>  Code outside the repository is an argument: the YAML decoder, the host of a URL, the
  ISO-2022-JP encoder and the Shift_JIS decoder, goirc's \<open>NewConfig\<close>, the HTTP client, the clock, and the
  outcomes of system calls.  The order in which goirc calls the handlers is arbitrary in Irc_Connection, and in
  Irc_Run what its documentation says of one connection.

  \<^bold>\<open>Not modelled.\<close>  Logging and the parsing of command-line flags, the HTML templates (which are not Go
  code: the handlers' results are the data passed to them), and the memory model: the queue's operations and
  the connection's callbacks are atomic because the code runs them under a lock, and goroutines are
  interleaved at those points.
\<close>


section \<open>From the wire to the webhooks\<close>

text \<open>The bodies of the data blocks among a sequence of server messages.\<close>

fun message_bodies :: "server_send list \<Rightarrow> bytes list" where
  "message_bodies [] = []"
| "message_bodies (SendData body # ms) = body # message_bodies ms"
| "message_bodies (_ # ms) = message_bodies ms"

lemma call_bodies_dispatch:
  "on_data h \<Longrightarrow> call_bodies (dispatch h (map sent_frame ms)) = message_bodies ms"
proof (induction ms rule: message_bodies.induct)
  case (2 body ms)
  then show ?case by (simp add: dispatch_def)
qed (auto simp: dispatch_def)

text \<open>What the network does to the daemon: attempts to connect that fail, and sessions in which the first \<open>k\<close>
  bytes of a server's messages arrive, in pieces, before the read fails.\<close>

datatype network =
    No_connection connect_error
  | Broken_session nat "server_send list" "(bytes \<times> string \<times> bool) list"

fun network_ok :: "network \<Rightarrow> bool" where
  "network_ok (No_connection e) = True"
| "network_ok (Broken_session k ms xs) \<longleftrightarrow>
     list_all send_fits ms \<and> concat (map fst xs) = take k (stream_of ms)"

fun network_event :: "network \<Rightarrow> loop_event" where
  "network_event (No_connection e) = Loop_failed e True"
| "network_event (Broken_session k ms xs) = Loop_session (map got xs @ [Read_err]) False"

text \<open>The telegrams that arrived in full.\<close>

fun network_bodies :: "network \<Rightarrow> bytes list" where
  "network_bodies (No_connection e) = []"
| "network_bodies (Broken_session k ms xs) = message_bodies (complete k ms)"

lemma session_calls:
  "network_ok w \<Longrightarrow> call_bodies (fst (session_run ka (network_event w))) = network_bodies w
     \<and> list_all digest_ok (fst (session_run ka (network_event w)))
     \<and> snd (session_run ka (network_event w)) \<noteq> Some Run_panic"
proof (cases w)
  case (Broken_session k ms xs)
  assume "network_ok w"
  then have "run (app_handlers ka) new_parser (map got xs @ [Read_err]) =
      (dispatch (app_handlers ka) (map sent_frame (complete k ms)), Some Run_read)"
    using read_prefix [of ms xs k "app_handlers ka"] Broken_session by simp
  then show ?thesis
    using call_bodies_dispatch [of "app_handlers ka" "complete k ms"] Broken_session
    by (simp add: app_handlers_def sent_digests)
qed simp

lemma loop_bodies:
  "list_all network_ok ws \<Longrightarrow>
     call_bodies (loop_calls ka b (map network_event ws)) = concat (map network_bodies ws)
     \<and> list_all digest_ok (loop_calls ka b (map network_event ws))"
proof (induction ws arbitrary: b)
  case (Cons w ws)
  have "\<exists>x b'. wni_turn b (loop_round (network_event w)) = Some (x, b')" by (cases w) auto
  then show ?case using Cons session_calls [of w ka] by (auto simp: call_bodies_append)
qed simp

text \<open>C1. End to end: the daemon starts from its configuration and goes through any sequence of failed
  attempts to connect and sessions; in each session a server sends login responses, keep-alives and
  data blocks, the network cuts the bytes anywhere and breaks the connection anywhere, also inside a block, and
  acknowledgements fare as they may.  Then exactly the posts due have been started, in order: for each
  data block that arrived in full its formatted text and title, to every "all" hook, and to the
  "limited" hooks where the gate fires, which remembers the last earthquake across reconnections; no
  matter how the archive's file operations went.  And every IRC connection was notified of the same
  telegrams in the same order.\<close>

theorem telegrams_reach_slack:
  assumes "list_all network_ok ws"
    and "run_daemon url_host mkdir_ok write_ok io cfg fs (map network_event ws) = Inr d"
  shows "let tels = map decode (concat (map network_bodies ws)); (all, lim) = slack_lists url_host cfg
     in dm_posts d = concat (map (\<lambda>i. post_of (tels ! i)
            (all @ (if limited_at [] tels i then lim else []))) [0..<length tels])
        \<and> dm_irc d = map (\<lambda>srv. foldl (\<lambda>c t. notify t (fst (format t)) c) (start_connection srv) tels) (irc_conf cfg)"
proof -
  let ?tels = "map decode (concat (map network_bodies ws))" and ?ka = "w_log_keep_alive (wni_conf cfg)"
  obtain all lim where al: "slack_lists url_host cfg = (all, lim)" by fastforce
  obtain d0 where d0: "start_daemon url_host mkdir_ok write_ok cfg fs = Inr d0"
    and d: "d = connection_loop io ?ka wni_initial_backoff 0 (map network_event ws) d0"
    using assms(2) by (auto simp: run_daemon_def split: sum.splits)
  obtain store where s: "dm_processor d0 = new_processor store (new_dispatcher all lim)"
    using start_daemon_Inr(1) [OF d0] al by auto
  note s' = start_daemon_Inr(2,3) [OF d0]
  have sel: "select_all hooks_for (new_dispatcher all lim) ?tels =
      map (\<lambda>i. all @ (if limited_at [] ?tels i then lim else [])) [0..<length ?tels]"
    using slack.select_all_closed_form [of "new_dispatcher all lim" ?tels] by (simp add: new_dispatcher_def)
  have "map2 post_of ?tels (map f [0..<length ?tels]) = map (\<lambda>i. post_of (?tels ! i) (f i)) [0..<length ?tels]" for f
    by (rule nth_equalityI) simp_all
  then show ?thesis
    using on_calls_effects [of io 0 "loop_calls ?ka wni_initial_backoff (map network_event ws)" d0] sel s s'
    unfolding d connection_loop_calls loop_bodies [OF assms(1), THEN conjunct1] al Let_def prod.case
    by (simp add: new_processor_def)
qed

lemma telegrams_reach_slack_witness:
  "let io = (\<lambda>_. \<lparr>io_now = 7, io_write = Written, io_mkdir = True, io_rename = True\<rparr>);
       cfg = \<lparr>log_dir = [], slack_conf = Some \<lparr>s_all = [\<lparr>ch_name = ''ops'', ch_url = ''u''\<rparr>], s_limited = []\<rparr>,
         wni_conf = \<lparr>w_user = [], w_passwd = [], w_passwd_md5 = [], w_log_timeout = False, w_log_keep_alive = False,
           w_server_override = []\<rparr>, irc_conf = []\<rparr>;
       ws = [No_connection Dial_failed, Broken_session (length (stream_of [SendData ''ab'']) + 5) [SendData ''ab'', SendKeepAlive]
         [(take 3 (stream_of [SendData ''ab'']), ''t'', True),
          (drop 3 (stream_of [SendData ''ab'']) @ take 5 keep_alive_bytes, ''t'', False)]]
   in \<exists>d. run_daemon (\<lambda>_. None) True True io cfg \<lparr>fs_files = Map.empty\<rparr> (map network_event ws) = Inr d
        \<and> dm_posts d = post_of (decode ''ab'') [\<lparr>hook_name = ''ops'', hook_url = ''u''\<rparr>]"
proof -
  let ?io = "\<lambda>_. \<lparr>io_now = 7, io_write = Written, io_mkdir = True, io_rename = True\<rparr>"
  let ?cfg = "\<lparr>log_dir = [], slack_conf = Some \<lparr>s_all = [\<lparr>ch_name = ''ops'', ch_url = ''u''\<rparr>], s_limited = []\<rparr>,
         wni_conf = \<lparr>w_user = [], w_passwd = [], w_passwd_md5 = [], w_log_timeout = False, w_log_keep_alive = False,
           w_server_override = []\<rparr>, irc_conf = []\<rparr>"
  let ?b = "stream_of [SendData ''ab'']"
  let ?w = "Broken_session (length ?b + 5) [SendData ''ab'', SendKeepAlive]
         [(take 3 ?b, ''t'', True), (drop 3 ?b @ take 5 keep_alive_bytes, ''t'', False)]"
  have str: "stream_of [SendData ''ab'', SendKeepAlive] = ?b @ keep_alive_bytes" by (simp add: stream_of_def)
  have "take (length ?b + 5) (?b @ keep_alive_bytes) = ?b @ take 5 keep_alive_bytes" by simp
  then have ok: "list_all network_ok [No_connection Dial_failed, ?w]"
    using str by (simp del: send_bytes.simps)
  have lists: "slack_lists (\<lambda>_. None) ?cfg = ([\<lparr>hook_name = ''ops'', hook_url = ''u''\<rparr>], [])"
    by (simp add: slack_lists_def to_slack_hooks_def display_name_def)
  have len: "length (send_bytes (SendData ''ab'')) = length ?b" by (simp add: stream_of_def)
  have "length keep_alive_bytes = 22" by (simp add: keep_alive_bytes_def)
  then have bodies: "concat (map network_bodies [No_connection Dial_failed, ?w]) = [''ab'']"
    using len by (simp del: send_bytes.simps add: send_bytes.simps(2))
  have u: "[0..<length (map decode [''ab''])] = [0]" by simp
  have "\<exists>d. run_daemon (\<lambda>_. None) True True ?io ?cfg \<lparr>fs_files = Map.empty\<rparr> (map network_event [No_connection Dial_failed, ?w]) = Inr d"
    by (simp add: run_daemon_def start_daemon_def Let_def)
  then obtain d where d: "run_daemon (\<lambda>_. None) True True ?io ?cfg \<lparr>fs_files = Map.empty\<rparr>
      (map network_event [No_connection Dial_failed, ?w]) = Inr d" ..
  from telegrams_reach_slack [OF ok d] have "dm_posts d = post_of (decode ''ab'') [\<lparr>hook_name = ''ops'', hook_url = ''u''\<rparr>]"
    unfolding lists bodies u Let_def by simp
  with d show ?thesis unfolding Let_def by blast
qed


section \<open>From the wire to the viewer\<close>

text \<open>The daemon may be stopped and started again: in each of its lives it starts from the files of the
  one before, if the check of the archive's directory succeeds, with a configuration of its own.\<close>

record life =
  l_mkdir :: bool
  l_write :: bool
  l_config :: config
  l_io :: "nat \<Rightarrow> io_outcome"
  l_network :: "network list"

definition live :: "(string \<Rightarrow> string option) \<Rightarrow> life \<Rightarrow> file_system \<Rightarrow> file_system" where
  "live url_host l fs =
     (case run_daemon url_host (l_mkdir l) (l_write l) (l_io l) (l_config l) fs (map network_event (l_network l)) of
        Inl e \<Rightarrow> fs
      | Inr d \<Rightarrow> dm_fs d)"

definition life_ok :: "string \<Rightarrow> life \<Rightarrow> bool" where
  "life_ok dir l \<longleftrightarrow> log_dir (l_config l) = dir \<and> list_all network_ok (l_network l) \<and> (\<forall>n. io_fine (l_io l n))"

text \<open>The telegrams a life receives in full.\<close>

definition life_bodies :: "life \<Rightarrow> bytes list" where
  "life_bodies l = (if l_mkdir l \<and> l_write l then concat (map network_bodies (l_network l)) else [])"

text \<open>The archive after one life, and after several.\<close>

lemma live_files:
  assumes "dir \<noteq> []" "life_ok dir l" "fs_files fs = placed dir us"
  shows "\<exists>ts. fs_files (live url_host l fs) = placed dir (us @ ts)
     \<and> list_all (\<lambda>(io, md5, _). io_fine io \<and> md5_ok md5) ts \<and> map (\<lambda>(_, _, b). b) ts = life_bodies l"
proof (cases "run_daemon url_host (l_mkdir l) (l_write l) (l_io l) (l_config l) fs (map network_event (l_network l))")
  case (Inl e)
  then have "\<not> (l_mkdir l \<and> l_write l)"
    by (auto simp: run_daemon_def start_daemon_def open_store_def Let_def split: if_splits sum.splits prod.splits)
  then have "life_bodies l = []" unfolding life_bodies_def by (rule if_not_P)
  then show ?thesis using Inl assms(3) by (intro exI [of _ "[]"]) (simp add: live_def)
next
  case (Inr d)
  have ok: "log_dir (l_config l) = dir" "list_all network_ok (l_network l)" "\<And>n. io_fine (l_io l n)"
    using assms(2) by (simp_all add: life_ok_def)
  let ?ka = "w_log_keep_alive (wni_conf (l_config l))"
  let ?cs = "loop_calls ?ka wni_initial_backoff (map network_event (l_network l))"
  let ?ts = "call_telegrams (l_io l) 0 ?cs"
  obtain d0 where d0: "start_daemon url_host (l_mkdir l) (l_write l) (l_config l) fs = Inr d0"
    and d: "d = connection_loop (l_io l) ?ka wni_initial_backoff 0 (map network_event (l_network l)) d0"
    using Inr by (auto simp: run_daemon_def split: sum.splits)
  have s: "p_store (dm_processor d0) = Some dir" "dm_fs d0 = fs" "l_mkdir l" "l_write l"
    using d0 ok(1) assms(1)
    by (auto simp: start_daemon_def open_store_def new_processor_def Let_def split: if_splits sum.splits prod.splits)
  have ts: "list_all (\<lambda>(io, md5, _). io_fine io \<and> md5_ok md5) ?ts" "map (\<lambda>(_, _, b). b) ?ts = life_bodies l"
    using call_telegrams_ok call_telegrams_bodies [of "l_io l" 0 ?cs] loop_bodies [OF ok(2)] ok(3) s
    by (simp_all add: life_bodies_def)
  have "fs_files (dm_fs d) = placed dir (us @ ?ts)"
    using process_more_files [OF assms(1) ts(1) s(1) assms(3)] on_calls_archive [of "l_io l" 0 ?cs d0]
    unfolding d connection_loop_calls s(2) by simp
  with ts show ?thesis by (intro exI [of _ ?ts]) (simp add: live_def Inr)
qed

lemma lives_files:
  assumes "dir \<noteq> []" "list_all (life_ok dir) ls"
  shows "\<exists>ts. fs_files (fold (live url_host) ls \<lparr>fs_files = Map.empty\<rparr>) = placed dir ts
     \<and> list_all (\<lambda>(io, md5, _). io_fine io \<and> md5_ok md5) ts \<and> map (\<lambda>(_, _, b). b) ts = concat (map life_bodies ls)"
  using assms(2)
proof (induction ls rule: rev_induct)
  case Nil
  show ?case by (intro exI [of _ "[]"]) (simp add: placed_Cons)
next
  case (snoc l ls)
  then obtain us where us: "fs_files (fold (live url_host) ls \<lparr>fs_files = Map.empty\<rparr>) = placed dir us"
    "list_all (\<lambda>(io, md5, _). io_fine io \<and> md5_ok md5) us" "map (\<lambda>(_, _, b). b) us = concat (map life_bodies ls)"
    by auto
  from snoc.prems have "life_ok dir l" by simp
  from live_files [OF assms(1) this us(1)] obtain ts where
    "fs_files (live url_host l (fold (live url_host) ls \<lparr>fs_files = Map.empty\<rparr>)) = placed dir (us @ ts)"
    "list_all (\<lambda>(io, md5, _). io_fine io \<and> md5_ok md5) ts" "map (\<lambda>(_, _, b). b) ts = life_bodies l" by blast
  with us(2,3) show ?case by (intro exI [of _ "us @ ts"]) simp
qed


text \<open>Two lives: one that cannot write to its archive, and one with a session that brings the example report in two
  pieces after a failed attempt to connect.\<close>

definition example_life :: "bool \<Rightarrow> bytes \<Rightarrow> life" where
  "example_life ok b = (let s = stream_of [SendData b]
     in \<lparr>l_mkdir = True, l_write = ok,
          l_config = \<lparr>log_dir = data_dir example_config, slack_conf = None,
            wni_conf = \<lparr>w_user = [], w_passwd = [], w_passwd_md5 = [], w_log_timeout = False, w_log_keep_alive = False,
              w_server_override = []\<rparr>, irc_conf = []\<rparr>,
          l_io = (\<lambda>_. \<lparr>io_now = 7, io_write = Written, io_mkdir = True, io_rename = True\<rparr>),
          l_network = [No_connection Dial_failed,
            Broken_session (length s) [SendData b] [(take 9 s, ''t'', True), (drop 9 s, ''u'', True)]]\<rparr>)"

lemma example_life_ok:
  "life_ok (data_dir example_config) (example_life ok (report_text [] example_report))"
  "life_bodies (example_life ok b) = (if ok then [b] else [])"
proof -
  have "length (report_text [] example_report) < 2 ^ 63"
    by (simp add: report_text_def report_lines_def example_report_def header_line_def nd_line_def hypo_line_def
        area_line_def area_text_def area_items_def)
  then show "life_ok (data_dir example_config) (example_life ok (report_text [] example_report))"
    by (simp del: send_bytes.simps add: example_life_def life_ok_def io_fine_def Let_def)
  have "length (send_bytes (SendData b)) = length (stream_of [SendData b])" by (simp add: stream_of_def)
  then show "life_bodies (example_life ok b) = (if ok then [b] else [])"
    by (simp del: send_bytes.simps add: example_life_def life_bodies_def Let_def)
qed



section \<open>From the archive to a replay\<close>

text \<open>The file at a report's place holds the last block received for it.\<close>

lemma lives_report:
  assumes "dir \<noteq> []" "list_all (life_ok dir) ls" "b \<in> set (concat (map life_bodies ls))"
  shows "fs_files (fold (live url_host) ls \<lparr>fs_files = Map.empty\<rparr>) (place dir b) =
    Some (the (last_reports (concat (map life_bodies ls)) (key_of b)))"
proof -
  from lives_files [OF assms(1,2), of url_host] obtain ts where
    ts: "fs_files (fold (live url_host) ls \<lparr>fs_files = Map.empty\<rparr>) = placed dir ts"
      "map (\<lambda>(_, _, b). b) ts = concat (map life_bodies ls)" by blast
  obtain l where "last_reports (concat (map life_bodies ls)) (key_of b) = Some l"
    using last_reports_key [OF assms(3)] by blast
  then show ?thesis
    using placed_reports [OF assms(1), of ts b] reports_of_bodies(2) [of ts, unfolded ts(2)] by (simp add: ts(1))
qed



end
